(* ===== verification/Prelude.thy ===== *)
theory Prelude
  imports Main "HOL-Library.Word" "HOL-Library.Monad_Syntax"
begin

text \<open>
  Shared vocabulary of the development: the machine integer types of the C sources, the first
  match of a bounded search loop, indexed stores whose out-of-range accesses are faults, and
  the generic lemmas the component theories use. Nothing here models a particular source file.

  Conventions. A C function that can dereference a null pointer or leave the bounds of an
  array returns an \<open>option\<close>, where \<^const>\<open>None\<close> is that undefined behaviour (a fault);
  an error code is an ordinary value of type \<^typ>\<open>int\<close>.
\<close>

unbundle bit_operations_syntax

type_synonym uint8_t = "8 word"
type_synonym uint16_t = "16 word"
type_synonym uint32_t = "32 word"
type_synonym int32_t = "32 word"

text \<open>Facts that unfold one step of a component's operations, and facts on what they keep.\<close>

named_theorems frame_simps \<open>fields an operation leaves alone\<close>
named_theorems layout_defs \<open>the frame layout routines of the stream\<close>

subsection \<open>Bounded searches\<close>

text \<open>
  \<^verbatim>\<open>for (i = 0; i < n; i++) if (P(a[i])) { ...; break; }\<close>: the index of the first match.
\<close>

fun find_idx :: "('a \<Rightarrow> bool) \<Rightarrow> 'a list \<Rightarrow> nat option" where
  "find_idx P [] = None"
| "find_idx P (x # xs) = (if P x then Some 0 else map_option Suc (find_idx P xs))"

lemma find_idx_Some_iff:
  "find_idx P xs = Some i \<longleftrightarrow> i < length xs \<and> P (xs ! i) \<and> (\<forall>j<i. \<not> P (xs ! j))"
proof (induction xs arbitrary: i)
  case Nil
  then show ?case by simp
next
  case (Cons x xs)
  show ?case
  proof (cases i)
    case 0
    then show ?thesis by auto
  next
    case (Suc k)
    have "find_idx P (x # xs) = Some i \<longleftrightarrow> \<not> P x \<and> find_idx P xs = Some k"
      using Suc by auto
    then show ?thesis
      unfolding Suc All_less_Suc2 Cons.IH by auto
  qed
qed

lemma find_idx_None_iff: "find_idx P xs = None \<longleftrightarrow> (\<forall>x \<in> set xs. \<not> P x)"
  by (induction xs) auto

lemma find_idxD:
  assumes "find_idx P xs = Some i"
  shows "i < length xs" and "P (xs ! i)"
  using assms by (auto simp: find_idx_Some_iff)

lemma find_idx_unique:
  assumes "i < length xs" and "P (xs ! i)" and "\<And>j. j < length xs \<Longrightarrow> P (xs ! j) \<Longrightarrow> j = i"
  shows "find_idx P xs = Some i"
  unfolding find_idx_Some_iff using assms(1,2) by (auto dest!: assms(3) [rotated])

subsection \<open>Indexed access with faults\<close>

text \<open>Reading and writing \<^verbatim>\<open>a[i]\<close>; an index outside the array is a fault.\<close>

definition nth_opt :: "'a list \<Rightarrow> int \<Rightarrow> 'a option" where
  "nth_opt xs i = (if 0 \<le> i \<and> nat i < length xs then Some (xs ! nat i) else None)"

lemma nth_opt_Some [simp]:
  "nth_opt xs i = Some x \<longleftrightarrow> 0 \<le> i \<and> nat i < length xs \<and> x = xs ! nat i"
  by (auto simp: nth_opt_def)

lemma nth_opt_None [simp]: "nth_opt xs i = None \<longleftrightarrow> i < 0 \<or> length xs \<le> nat i"
  by (auto simp: nth_opt_def)

lemma nth_opt_of_nat [simp]: "i < length xs \<Longrightarrow> nth_opt xs (int i) = Some (xs ! i)"
  by simp

subsection \<open>List lemmas shared by the components\<close>

lemma set_list_update_sub: "set (xs[i := x]) \<subseteq> insert x (set xs)"
  by (rule set_update_subset_insert)

lemma list_update_all:
  assumes "\<forall>y \<in> set xs. P y" and "P x"
  shows "\<forall>y \<in> set (xs[i := x]). P y"
  using assms set_update_subset_insert [of xs i x] by auto

lemma nth_list_update_all:
  assumes "\<And>j. j < length xs \<Longrightarrow> j \<noteq> i \<Longrightarrow> P j (xs ! j)" and "i < length xs \<Longrightarrow> P i x"
    and "j < length xs"
  shows "P j (xs[i := x] ! j)"
  using assms by (cases "j = i") auto

subsection \<open>Runs that return\<close>

text \<open>
  \<open>runs m Q\<close>: the computation \<open>m\<close> returns (it neither faults nor blocks for ever) and its result
  satisfies \<open>Q\<close>.
\<close>

definition runs :: "'a option \<Rightarrow> ('a \<Rightarrow> bool) \<Rightarrow> bool" where
  "runs m Q \<longleftrightarrow> (case m of None \<Rightarrow> False | Some r \<Rightarrow> Q r)"

named_theorems runs_simps \<open>computing the weakest precondition of \<open>runs\<close>\<close>

lemma runs_None [simp, runs_simps]: "runs None Q \<longleftrightarrow> False"
  by (simp add: runs_def)

lemma runs_Some [simp, runs_simps]: "runs (Some x) Q \<longleftrightarrow> Q x"
  by (simp add: runs_def)

lemma runs_bind [simp, runs_simps]: "runs (Option.bind m f) Q \<longleftrightarrow> runs m (\<lambda>x. runs (f x) Q)"
  by (cases m) simp_all

lemma runs_if [runs_simps]: "runs (if b then m else n) Q \<longleftrightarrow> (b \<longrightarrow> runs m Q) \<and> (\<not> b \<longrightarrow> runs n Q)"
  by simp

lemma runs_iff: "runs m Q \<longleftrightarrow> (\<exists>r. m = Some r \<and> Q r)"
  by (cases m) simp_all

lemma runs_mono: "runs m P \<Longrightarrow> (\<And>x. P x \<Longrightarrow> Q x) \<Longrightarrow> runs m Q"
  by (cases m) simp_all

lemma runs_conj: "runs m (\<lambda>x. P x \<and> Q x) \<longleftrightarrow> runs m P \<and> runs m Q"
  by (cases m) simp_all

lemma runs_nth_opt [simp, runs_simps]:
  "runs (nth_opt xs i) Q \<longleftrightarrow> 0 \<le> i \<and> nat i < length xs \<and> Q (xs ! nat i)"
  by (auto simp: nth_opt_def)

lemma runs_Some_eq: "m = Some r \<Longrightarrow> runs m Q \<longleftrightarrow> Q r"
  by simp

text \<open>
  Partial correctness is \<open>pred_option\<close>: if the computation returns, its result satisfies \<open>Q\<close>.
\<close>

lemma pred_option_bind [simp, runs_simps]:
  "pred_option Q (Option.bind m f) \<longleftrightarrow> pred_option (\<lambda>x. pred_option Q (f x)) m"
  by (cases m) simp_all

lemma pred_option_iff: "pred_option Q m \<longleftrightarrow> (\<forall>r. m = Some r \<longrightarrow> Q r)"
  by (cases m) simp_all

lemma pred_optionD: "pred_option Q m \<Longrightarrow> m = Some r \<Longrightarrow> Q r"
  by simp

lemma pred_option_mono': "pred_option P m \<Longrightarrow> (\<And>x. P x \<Longrightarrow> Q x) \<Longrightarrow> pred_option Q m"
  by (cases m) simp_all

lemma pred_option_trivial [simp]: "pred_option (\<lambda>_. True) m"
  by (cases m) simp_all

lemma runs_pred_option: "runs m P \<Longrightarrow> pred_option Q m \<Longrightarrow> runs m (\<lambda>x. P x \<and> Q x)"
  by (cases m) simp_all

subsection \<open>Loops over a list of steps\<close>

text \<open>A loop that performs a step for every element and has no early exit but a fault.\<close>

fun foldM :: "('b \<Rightarrow> 's \<Rightarrow> 's option) \<Rightarrow> 'b list \<Rightarrow> 's \<Rightarrow> 's option" where
  "foldM f [] s = Some s"
| "foldM f (x # xs) s = Option.bind (f x s) (foldM f xs)"

lemma foldM_append: "foldM f (xs @ ys) s = Option.bind (foldM f xs s) (foldM f ys)"
  by (induction xs arbitrary: s) (simp_all add: Option.bind_assoc cong: Option.bind_cong)

lemma foldM_runs:
  assumes "I s" and "\<And>x s. x \<in> set xs \<Longrightarrow> I s \<Longrightarrow> runs (f x s) I"
  shows "runs (foldM f xs s) I"
  using assms
proof (induction xs arbitrary: s)
  case (Cons x xs)
  have "runs (f x s) I" using Cons.prems by simp
  then have "runs (f x s) (\<lambda>s'. runs (foldM f xs s') I)"
    by (rule runs_mono) (simp add: Cons.IH Cons.prems(2))
  then show ?case by simp
qed simp

lemma foldM_pred_option:
  assumes "I s" and "\<And>x s. x \<in> set xs \<Longrightarrow> I s \<Longrightarrow> pred_option I (f x s)"
  shows "pred_option I (foldM f xs s)"
  using assms
proof (induction xs arbitrary: s)
  case (Cons x xs)
  have "pred_option I (f x s)" using Cons.prems by simp
  then have "pred_option (\<lambda>s'. pred_option I (foldM f xs s')) (f x s)"
    by (rule pred_option_mono') (simp add: Cons.IH Cons.prems(2))
  then show ?case by simp
qed simp

lemma foldM_Some:
  assumes "foldM f xs s = Some s'" and "I s"
    and "\<And>x s s'. x \<in> set xs \<Longrightarrow> f x s = Some s' \<Longrightarrow> I s \<Longrightarrow> I s'"
  shows "I s'"
  using foldM_pred_option [of I s xs f] assms by (simp add: pred_option_iff)

subsection \<open>Words\<close>

lemma unat_lt_2p: "unat (x :: 'a::len word) < 2 ^ LENGTH('a)"
  by (rule unsigned_less)

lemma word_neq_0_unat: "(x :: 'a::len word) \<noteq> 0 \<longleftrightarrow> 0 < unat x"
  by (simp add: unat_gt_0)

lemma unat_minus_1: "(x :: 'a::len word) \<noteq> 0 \<Longrightarrow> unat (x - 1) = unat x - 1"
  by (rule unat_minus_one)

lemma unat_plus_1:
  assumes "unat (x :: 'a::len word) + 1 < 2 ^ LENGTH('a)"
  shows "unat (x + 1) = unat x + 1"
  using assms by (simp add: unat_word_ariths)

end
