(* ===== verification/Cam_Queue.thy ===== *)
theory Cam_Queue
  imports Prelude
begin

text \<open>
  The intrusive doubly linked list of \<^verbatim>\<open>common/cam_list.h\<close> and the queue built on it
  (\<^verbatim>\<open>common/cam_queue.h\<close>), at the level of pointers: a heap of list nodes with \<open>next\<close>, \<open>prev\<close> and
  \<open>data\<close> fields and a liveness bit, where touching a freed node is a fault. The lemmas show that
  the pointer operations implement append, insert, remove and first-in first-out access of a
  list without faults, which is how the other theories use queues.
\<close>

section \<open>Heap\<close>

type_synonym addr = nat

record heap =
  hp_next :: "addr \<Rightarrow> addr"
  hp_prev :: "addr \<Rightarrow> addr"
  hp_data :: "addr \<Rightarrow> addr"
  hp_live :: "addr \<Rightarrow> bool"

definition get_next :: "heap \<Rightarrow> addr \<Rightarrow> addr option" where
  "get_next h p = (if hp_live h p then Some (hp_next h p) else None)"

definition get_prev :: "heap \<Rightarrow> addr \<Rightarrow> addr option" where
  "get_prev h p = (if hp_live h p then Some (hp_prev h p) else None)"

definition set_next :: "addr \<Rightarrow> addr \<Rightarrow> heap \<Rightarrow> heap option" where
  "set_next p v h = (if hp_live h p then Some (h\<lparr>hp_next := (hp_next h)(p := v)\<rparr>) else None)"

definition set_prev :: "addr \<Rightarrow> addr \<Rightarrow> heap \<Rightarrow> heap option" where
  "set_prev p v h = (if hp_live h p then Some (h\<lparr>hp_prev := (hp_prev h)(p := v)\<rparr>) else None)"

definition set_data :: "addr \<Rightarrow> addr \<Rightarrow> heap \<Rightarrow> heap option" where
  "set_data p v h = (if hp_live h p then Some (h\<lparr>hp_data := (hp_data h)(p := v)\<rparr>) else None)"

definition heap_free :: "addr \<Rightarrow> heap \<Rightarrow> heap option" where
  "heap_free p h = (if hp_live h p then Some (h\<lparr>hp_live := (hp_live h)(p := False)\<rparr>) else None)"

text \<open>\<^verbatim>\<open>malloc\<close> and \<^verbatim>\<open>memset(..., 0, ...)\<close> of a node at the address the allocator chose.\<close>

definition heap_alloc :: "addr \<Rightarrow> heap \<Rightarrow> heap" where
  "heap_alloc p h = h\<lparr>hp_live := (hp_live h)(p := True), hp_next := (hp_next h)(p := 0),
     hp_prev := (hp_prev h)(p := 0), hp_data := (hp_data h)(p := 0)\<rparr>"

section \<open>cam_list.h\<close>

definition cam_list_init :: "addr \<Rightarrow> heap \<Rightarrow> heap option" where
  "cam_list_init ptr h = do {
     h \<leftarrow> set_next ptr ptr h;
     set_prev ptr ptr h
   }"

definition cam_list_add_tail_node :: "addr \<Rightarrow> addr \<Rightarrow> heap \<Rightarrow> heap option" where
  "cam_list_add_tail_node item head h = do {
     prev \<leftarrow> get_prev h head;
     h \<leftarrow> set_prev head item h;
     h \<leftarrow> set_next item head h;
     h \<leftarrow> set_prev item prev h;
     set_next prev item h
   }"

definition cam_list_insert_before_node :: "addr \<Rightarrow> addr \<Rightarrow> heap \<Rightarrow> heap option" where
  "cam_list_insert_before_node item node h = do {
     h \<leftarrow> set_next item node h;
     node_prev \<leftarrow> get_prev h node;
     h \<leftarrow> set_prev item node_prev h;
     item_prev \<leftarrow> get_prev h item;
     h \<leftarrow> set_next item_prev item h;
     set_prev node item h
   }"

definition cam_list_del_node :: "addr \<Rightarrow> heap \<Rightarrow> heap option" where
  "cam_list_del_node ptr h = do {
     prev \<leftarrow> get_prev h ptr;
     next \<leftarrow> get_next h ptr;
     p \<leftarrow> get_prev h ptr;
     h \<leftarrow> set_prev next p h;
     n \<leftarrow> get_next h ptr;
     h \<leftarrow> set_next prev n h;
     h \<leftarrow> set_next ptr ptr h;
     set_prev ptr ptr h
   }"

section \<open>cam_queue.h\<close>

text \<open>The dummy head is a node of the heap; \<^verbatim>\<open>member_of\<close> of a list field is the node itself.\<close>

record cam_queue_t =
  cq_head :: addr
  cq_size :: uint32_t

definition cam_queue_init :: "cam_queue_t \<Rightarrow> heap \<Rightarrow> (int \<times> cam_queue_t \<times> heap) option" where
  "cam_queue_init queue h = do {
     h \<leftarrow> cam_list_init (cq_head queue) h;
     Some (0, queue\<lparr>cq_size := 0\<rparr>, h)
   }"

text \<open>\<open>m\<close> is the result of \<^verbatim>\<open>malloc\<close>, \<open>None\<close> for NULL.\<close>

definition cam_queue_enq ::
  "addr option \<Rightarrow> addr \<Rightarrow> cam_queue_t \<Rightarrow> heap \<Rightarrow> (int \<times> cam_queue_t \<times> heap) option" where
  "cam_queue_enq m data queue h =
     (case m of
        None \<Rightarrow> Some (-1, queue, h)
      | Some node \<Rightarrow> do {
          let h = heap_alloc node h;
          h \<leftarrow> set_data node data h;
          h \<leftarrow> cam_list_add_tail_node node (cq_head queue) h;
          Some (0, queue\<lparr>cq_size := cq_size queue + 1\<rparr>, h)
        })"

definition cam_queue_deq :: "cam_queue_t \<Rightarrow> heap \<Rightarrow> (addr \<times> cam_queue_t \<times> heap) option" where
  "cam_queue_deq queue h = do {
     let head = cq_head queue;
     pos \<leftarrow> get_next h head;
     if pos \<noteq> head then do {
       h \<leftarrow> cam_list_del_node pos h;
       let queue = queue\<lparr>cq_size := cq_size queue - 1\<rparr>;
       let data = hp_data h pos;
       h \<leftarrow> heap_free pos h;
       Some (data, queue, h)
     } else Some (0, queue, h)
   }"

text \<open>The \<^verbatim>\<open>while (pos != head)\<close> loop of the flush; not returning is \<^const>\<open>None\<close>.\<close>

partial_function (option) flush_loop ::
  "addr \<Rightarrow> cam_queue_t \<Rightarrow> heap \<Rightarrow> (cam_queue_t \<times> heap) option" where
  "flush_loop pos queue h =
     (if pos = cq_head queue then Some (queue, h)
      else do {
        let node = pos;
        pos \<leftarrow> get_next h pos;
        h \<leftarrow> cam_list_del_node node h;
        let queue = queue\<lparr>cq_size := cq_size queue - 1\<rparr>;
        h \<leftarrow> (if hp_data h node \<noteq> 0 then heap_free (hp_data h node) h else Some h);
        h \<leftarrow> heap_free node h;
        flush_loop pos queue h
      })"

declare flush_loop.simps [code]

definition cam_queue_flush :: "cam_queue_t \<Rightarrow> heap \<Rightarrow> (int \<times> cam_queue_t \<times> heap) option" where
  "cam_queue_flush queue h = do {
     pos \<leftarrow> get_next h (cq_head queue);
     (queue, h) \<leftarrow> flush_loop pos queue h;
     Some (0, queue\<lparr>cq_size := 0\<rparr>, h)
   }"

definition cam_queue_deinit :: "cam_queue_t \<Rightarrow> heap \<Rightarrow> (int \<times> cam_queue_t \<times> heap) option" where
  "cam_queue_deinit queue h = do {
     (rc, queue, h) \<leftarrow> cam_queue_flush queue h;
     Some (0, queue, h)
   }"

section \<open>The list a heap represents\<close>

text \<open>\<open>links h xs\<close>: neighbours in \<open>xs\<close> point to each other.\<close>

fun links :: "heap \<Rightarrow> addr list \<Rightarrow> bool" where
  "links h (a # b # xs) \<longleftrightarrow> hp_next h a = b \<and> hp_prev h b = a \<and> links h (b # xs)"
| "links h _ \<longleftrightarrow> True"

definition list_rep :: "heap \<Rightarrow> addr \<Rightarrow> addr list \<Rightarrow> bool" where
  "list_rep h head as \<longleftrightarrow> links h (head # as @ [head]) \<and> distinct (head # as) \<and>
     (\<forall>a \<in> set (head # as). hp_live h a)"

lemma links_append: "links h (xs @ y # zs) \<longleftrightarrow> links h (xs @ [y]) \<and> links h (y # zs)"
  by (induction xs rule: induct_list012) auto

lemma links_cong:
  assumes "\<And>a. a \<in> set (butlast xs) \<Longrightarrow> hp_next h' a = hp_next h a"
    and "\<And>a. a \<in> set (tl xs) \<Longrightarrow> hp_prev h' a = hp_prev h a"
  shows "links h' xs \<longleftrightarrow> links h xs"
  using assms by (induction xs rule: induct_list012) auto

text \<open>The neighbours of a position of the circular list.\<close>

abbreviation (input) pred_of :: "addr \<Rightarrow> addr list \<Rightarrow> addr" where
  "pred_of head as \<equiv> last (head # as)"

abbreviation (input) succ_of :: "addr \<Rightarrow> addr list \<Rightarrow> addr" where
  "succ_of head as \<equiv> hd (as @ [head])"

lemma cyc_sides:
  "butlast (head # as) @ [pred_of head as] = head # as"
  "succ_of head as # tl (as @ [head]) = as @ [head]"
  by (simp_all del: butlast.simps last.simps)

lemma list_rep_neighbours:
  assumes "list_rep h head (as1 @ as2)"
  shows "hp_next h (pred_of head as1) = succ_of head as2"
    and "hp_prev h (succ_of head as2) = pred_of head as1"
    and "hp_live h (pred_of head as1)" and "hp_live h (succ_of head as2)"
proof -
  have "head # (as1 @ as2) @ [head] =
      butlast (head # as1) @ pred_of head as1 # succ_of head as2 # tl (as2 @ [head])"
    using cyc_sides(1) [of head as1] cyc_sides(2) [of as2 head]
    by (metis append.assoc append_Cons append_Nil)
  then have "links h (pred_of head as1 # succ_of head as2 # tl (as2 @ [head]))"
    using assms links_append unfolding list_rep_def by metis
  then show "hp_next h (pred_of head as1) = succ_of head as2"
    and "hp_prev h (succ_of head as2) = pred_of head as1"
    by (simp_all only: links.simps)
  show "hp_live h (pred_of head as1)" and "hp_live h (succ_of head as2)"
    using assms unfolding list_rep_def by (auto simp: hd_append)
qed

lemma pred_of_in: "pred_of head as \<in> set (head # as)"
  by simp

lemma list_rep_relink:
  assumes rep: "list_rep h head (as1 @ ms @ as2)"
    and nxt: "\<And>a. a \<in> set (butlast (head # as1)) \<union> set as2 \<Longrightarrow> hp_next h' a = hp_next h a"
    and prv: "\<And>a. a \<in> set as1 \<union> set (tl (as2 @ [head])) \<Longrightarrow> hp_prev h' a = hp_prev h a"
    and new: "links h' (pred_of head as1 # ns @ [succ_of head as2])"
    and dist: "distinct (head # as1 @ ns @ as2)"
    and live: "\<And>a. a \<in> set (head # as1 @ ns @ as2) \<Longrightarrow> hp_live h' a"
  shows "list_rep h' head (as1 @ ns @ as2)"
proof -
  let ?L = "butlast (head # as1)" and ?l = "pred_of head as1"
  let ?r = "succ_of head as2" and ?R = "tl (as2 @ [head])"
  note LR = cyc_sides(1) [of head as1] cyc_sides(2) [of as2 head]
  have old: "head # (as1 @ ms @ as2) @ [head] = (?L @ [?l]) @ ms @ (?r # ?R)"
    unfolding LR by simp
  have split: "head # (as1 @ ns @ as2) @ [head] = (?L @ [?l]) @ ns @ (?r # ?R)"
    unfolding LR by simp
  have "links h ((?L @ [?l]) @ ms @ (?r # ?R))"
    using rep unfolding list_rep_def old by simp
  then have l1: "links h (?L @ [?l])" and l2: "links h (?r # ?R)"
    by (metis links_append append_assoc append_Cons append_Nil)+
  have "links h' (?L @ [?l])"
    using l1 by (subst links_cong [of _ _ h]) (use nxt prv LR in \<open>auto simp del: butlast.simps last.simps\<close>)
  moreover have "links h' (?r # ?R)"
    using l2 by (subst links_cong [of _ _ h]) (use nxt prv LR in \<open>auto simp del: last.simps\<close>)
  ultimately have "links h' ((?L @ [?l]) @ ns @ (?r # ?R))"
    using new by (metis links_append append_assoc append_Cons append_Nil)
  with dist live show ?thesis
    unfolding list_rep_def split by auto
qed

lemmas heap_ops = get_next_def get_prev_def set_next_def set_prev_def set_data_def heap_free_def

lemma distinct_sides:
  assumes d: "distinct (head # as1 @ as2)"
  shows "pred_of head as1 \<notin> set (butlast (head # as1)) \<union> set as2"
    and "succ_of head as2 \<notin> set as1 \<union> set (tl (as2 @ [head]))"
proof -
  obtain bs l where bl: "head # as1 = bs @ [l]"
    by (metis rev_exhaust list.distinct(1))
  then have "distinct ((bs @ [l]) @ as2)"
    using d by (metis append_Cons)
  then show "pred_of head as1 \<notin> set (butlast (head # as1)) \<union> set as2"
    unfolding bl by simp
  show "succ_of head as2 \<notin> set as1 \<union> set (tl (as2 @ [head]))"
    using d by (cases as2) auto
qed

lemma list_rep_insert:
  assumes rep: "list_rep h head (as1 @ as2)"
    and item: "item \<notin> set (head # as1 @ as2)" "hp_live h item"
    and h': "hp_next h' = (hp_next h)(item := succ_of head as2, pred_of head as1 := item)"
      "hp_prev h' = (hp_prev h)(item := pred_of head as1, succ_of head as2 := item)"
      "hp_live h' = hp_live h"
  shows "list_rep h' head (as1 @ item # as2)"
proof -
  have d: "distinct (head # as1 @ as2)" using rep by (simp add: list_rep_def)
  have ne: "pred_of head as1 \<noteq> item" "succ_of head as2 \<noteq> item"
    using item(1) pred_of_in [of head as1] by (auto simp: hd_append split: if_splits)
  have "list_rep h' head (as1 @ [item] @ as2)"
  proof (rule list_rep_relink [where ms = "[]" and h = h])
    show "list_rep h head (as1 @ [] @ as2)" using rep by simp
    show "hp_next h' a = hp_next h a" if "a \<in> set (butlast (head # as1)) \<union> set as2" for a
      using that distinct_sides(1) [OF d] item(1) unfolding h'
      by (auto dest: in_set_butlastD simp del: butlast.simps last.simps)
    show "hp_prev h' a = hp_prev h a" if "a \<in> set as1 \<union> set (tl (as2 @ [head]))" for a
      using that distinct_sides(2) [OF d] item(1) unfolding h'
      by (cases as2) (auto simp del: last.simps)
    show "links h' (pred_of head as1 # [item] @ [succ_of head as2])"
      using ne by (simp add: h' del: last.simps)
    show "distinct (head # as1 @ [item] @ as2)" using d item(1) by auto
    show "hp_live h' a" if "a \<in> set (head # as1 @ [item] @ as2)" for a
      using that rep item(2) unfolding h' list_rep_def by auto
  qed
  then show ?thesis by simp
qed

lemma list_rep_delete:
  assumes rep: "list_rep h head (as1 @ p # as2)"
    and h': "hp_next h' = (hp_next h)(pred_of head as1 := succ_of head as2, p := p)"
      "hp_prev h' = (hp_prev h)(succ_of head as2 := pred_of head as1, p := p)"
      "hp_live h' = hp_live h"
  shows "list_rep h' head (as1 @ as2)"
proof -
  have d: "distinct (head # as1 @ as2)" and p: "p \<notin> set (head # as1 @ as2)"
    using rep by (auto simp: list_rep_def)
  have ne: "pred_of head as1 \<noteq> p" "succ_of head as2 \<noteq> p"
    using p pred_of_in [of head as1] by (auto simp: hd_append split: if_splits)
  have "list_rep h' head (as1 @ [] @ as2)"
  proof (rule list_rep_relink [where ms = "[p]" and h = h])
    show "list_rep h head (as1 @ [p] @ as2)" using rep by simp
    show "hp_next h' a = hp_next h a" if "a \<in> set (butlast (head # as1)) \<union> set as2" for a
      using that distinct_sides(1) [OF d] p unfolding h'
      by (auto dest: in_set_butlastD simp del: butlast.simps last.simps)
    show "hp_prev h' a = hp_prev h a" if "a \<in> set as1 \<union> set (tl (as2 @ [head]))" for a
      using that distinct_sides(2) [OF d] p unfolding h'
      by (cases as2) (auto simp del: last.simps)
    show "links h' (pred_of head as1 # [] @ [succ_of head as2])"
      using ne by (simp add: h' del: last.simps)
    show "distinct (head # as1 @ [] @ as2)" using d by auto
    show "hp_live h' a" if "a \<in> set (head # as1 @ [] @ as2)" for a
      using that rep unfolding h' list_rep_def by auto
  qed
  then show ?thesis by simp
qed

section \<open>The list operations implement their list counterparts\<close>

lemma cam_list_init_rep: "hp_live h ptr \<Longrightarrow> runs (cam_list_init ptr h) (\<lambda>h'. list_rep h' ptr [])"
  by (simp add: cam_list_init_def heap_ops list_rep_def)

lemma cam_list_insert_before_node_rep:
  assumes rep: "list_rep h head (as1 @ as2)" and node: "node = succ_of head as2"
    and item: "item \<notin> set (head # as1 @ as2)" "hp_live h item"
  shows "runs (cam_list_insert_before_node item node h)
    (\<lambda>h'. list_rep h' head (as1 @ item # as2) \<and> hp_data h' = hp_data h \<and> hp_live h' = hp_live h)"
proof -
  note nb = list_rep_neighbours [OF rep]
  have ne: "pred_of head as1 \<noteq> item" "node \<noteq> item"
    using item(1) pred_of_in [of head as1] node by (auto simp: hd_append split: if_splits)
  show ?thesis
    using nb item(2) ne unfolding cam_list_insert_before_node_def heap_ops
    by (simp add: node [symmetric] del: last.simps)
      (rule list_rep_insert [OF rep item], auto simp: node del: last.simps)
qed

lemma cam_list_add_tail_node_eq:
  assumes "item \<noteq> head" and "item \<noteq> hp_prev h head" and "hp_live h item"
  shows "cam_list_add_tail_node item head h = cam_list_insert_before_node item head h"
  using assms
  by (auto simp: cam_list_add_tail_node_def cam_list_insert_before_node_def heap_ops fun_upd_twist
      split: if_splits)

lemma cam_list_del_node_rep:
  assumes rep: "list_rep h head (as1 @ p # as2)"
  shows "runs (cam_list_del_node p h)
    (\<lambda>h'. list_rep h' head (as1 @ as2) \<and> hp_data h' = hp_data h \<and> hp_live h' = hp_live h)"
proof -
  have "list_rep h head ((as1 @ [p]) @ as2)" using rep by simp
  then have np: "hp_next h p = succ_of head as2" "hp_live h (succ_of head as2)"
    using list_rep_neighbours [of h head "as1 @ [p]" as2] by simp_all
  note nb = list_rep_neighbours [OF rep]
  have p: "p \<notin> set (head # as1 @ as2)" "hp_live h p"
    using rep by (auto simp: list_rep_def)
  have ne: "pred_of head as1 \<noteq> p" "succ_of head as2 \<noteq> p"
    using p pred_of_in [of head as1] by (auto simp: hd_append split: if_splits)
  show ?thesis
    using nb p(2) ne np unfolding cam_list_del_node_def heap_ops
    by (simp del: last.simps) (rule list_rep_delete [OF rep], simp_all)
qed

lemma list_rep_cong:
  assumes "hp_next h' = hp_next h" and "hp_prev h' = hp_prev h"
    and "\<And>a. a \<in> set (head # as) \<Longrightarrow> hp_live h a \<Longrightarrow> hp_live h' a"
    and "list_rep h head as"
  shows "list_rep h' head as"
  using assms links_cong [of "head # as @ [head]" h' h] by (auto simp: list_rep_def)

lemma list_rep_alloc:
  assumes "list_rep h head as" and "\<not> hp_live h p"
  shows "list_rep (heap_alloc p h) head as"
proof -
  have "p \<notin> set (head # as)" using assms by (auto simp: list_rep_def)
  then have "links (heap_alloc p h) (head # as @ [head]) = links h (head # as @ [head])"
    by (intro links_cong) (auto simp: heap_alloc_def dest: in_set_butlastD split: if_splits)
  then show ?thesis
    using assms by (auto simp: list_rep_def heap_alloc_def)
qed

section \<open>Queues as lists\<close>

definition queue_rep :: "cam_queue_t \<times> heap \<Rightarrow> addr list \<Rightarrow> bool" where
  "queue_rep = (\<lambda>(q, h) ds. \<exists>as. list_rep h (cq_head q) as \<and> map (hp_data h) as = ds \<and>
     cq_size q = of_nat (length as))"

text \<open>What \<^verbatim>\<open>malloc\<close> promises: an address that is not in use.\<close>

definition fresh_node :: "addr \<Rightarrow> cam_queue_t \<times> heap \<Rightarrow> bool" where
  "fresh_node p = (\<lambda>(q, h). \<not> hp_live h p)"

text \<open>The three operations on the pair of queue and heap.\<close>

definition q_init :: "cam_queue_t \<times> heap \<Rightarrow> (cam_queue_t \<times> heap) option" where
  "q_init = (\<lambda>(q, h). map_option snd (cam_queue_init q h))"

definition q_enq :: "addr \<Rightarrow> addr \<Rightarrow> cam_queue_t \<times> heap \<Rightarrow> (cam_queue_t \<times> heap) option" where
  "q_enq p d = (\<lambda>(q, h). map_option snd (cam_queue_enq (Some p) d q h))"

definition q_deq :: "cam_queue_t \<times> heap \<Rightarrow> (addr \<times> cam_queue_t \<times> heap) option" where
  "q_deq = (\<lambda>(q, h). cam_queue_deq q h)"

lemma cam_queue_init_rep:
  assumes "hp_live h (cq_head q)"
  shows "runs (cam_queue_init q h) (\<lambda>(rc, q', h'). rc = 0 \<and> queue_rep (q', h') [])"
  using cam_list_init_rep [OF assms]
  by (auto simp: cam_queue_init_def queue_rep_def runs_iff)

lemma cam_queue_enq_rep:
  assumes "queue_rep (q, h) ds" and "\<not> hp_live h p"
  shows "runs (cam_queue_enq (Some p) d q h)
    (\<lambda>(rc, q', h'). rc = 0 \<and> queue_rep (q', h') (ds @ [d]) \<and> hp_live h' = (hp_live h)(p := True))"
proof -
  obtain as where rep: "list_rep h (cq_head q) as" and ds: "map (hp_data h) as = ds"
    and sz: "cq_size q = of_nat (length as)"
    using assms(1) by (auto simp: queue_rep_def)
  let ?h = "(heap_alloc p h)\<lparr>hp_data := (hp_data (heap_alloc p h))(p := d)\<rparr>"
  have p: "p \<notin> set (cq_head q # as)" using rep assms(2) by (auto simp: list_rep_def)
  have rep1: "list_rep ?h (cq_head q) (as @ [])"
    using list_rep_alloc [OF rep assms(2)] by (simp add: list_rep_cong)
  have live: "hp_live ?h p" by (simp add: heap_alloc_def)
  have "hp_prev ?h (cq_head q) \<in> set (cq_head q # as)"
    using list_rep_neighbours(2) [OF rep1] pred_of_in [of "cq_head q" as] by simp
  with p have eq: "cam_list_add_tail_node p (cq_head q) ?h = cam_list_insert_before_node p (cq_head q) ?h"
    by (intro cam_list_add_tail_node_eq live) auto
  have "runs (cam_list_insert_before_node p (cq_head q) ?h)
    (\<lambda>h'. list_rep h' (cq_head q) (as @ [p]) \<and> hp_data h' = hp_data ?h \<and> hp_live h' = hp_live ?h)"
    using cam_list_insert_before_node_rep [OF rep1, of "cq_head q" p] p live by simp
  moreover have "map (hp_data ?h) (as @ [p]) = ds @ [d]"
    using p ds by (auto simp: heap_alloc_def)
  moreover have "cam_queue_enq (Some p) d q h =
      map_option (\<lambda>h'. (0, q\<lparr>cq_size := cq_size q + 1\<rparr>, h')) (cam_list_insert_before_node p (cq_head q) ?h)"
    using eq by (simp add: cam_queue_enq_def set_data_def heap_alloc_def Let_def map_conv_bind_option comp_def)
  moreover have "hp_live ?h = (hp_live h)(p := True)"
    by (simp add: heap_alloc_def)
  ultimately show ?thesis
    by (auto simp: runs_iff queue_rep_def sz intro!: exI [of _ "as @ [p]"])
qed

lemma list_rep_free:
  assumes "list_rep h head as" and "p \<notin> set (head # as)"
  shows "list_rep (h\<lparr>hp_live := (hp_live h)(p := False)\<rparr>) head as"
  by (rule list_rep_cong [of _ h]) (use assms in auto)

lemma cam_queue_deq_Nil: "queue_rep (q, h) [] \<Longrightarrow> cam_queue_deq q h = Some (0, q, h)"
  by (auto simp: queue_rep_def list_rep_def cam_queue_deq_def heap_ops)

text \<open>One step of the dequeue and of the flush loop: the first node is unlinked.\<close>

lemma unlink_first:
  assumes "list_rep h head (p # as)"
  shows "get_next h head = Some p" and "p \<noteq> head" and "hp_live h p"
    and "get_next h p = Some (succ_of head as)"
    and "runs (cam_list_del_node p h)
      (\<lambda>h'. list_rep h' head as \<and> hp_data h' = hp_data h \<and> hp_live h' = hp_live h)"
proof -
  show "get_next h head = Some p" and "p \<noteq> head" and "hp_live h p"
    using assms by (auto simp: list_rep_def get_next_def)
  show "get_next h p = Some (succ_of head as)"
    using list_rep_neighbours(1) [of h head "[p]" as] assms
    by (simp add: get_next_def list_rep_def)
  show "runs (cam_list_del_node p h)
      (\<lambda>h'. list_rep h' head as \<and> hp_data h' = hp_data h \<and> hp_live h' = hp_live h)"
    using cam_list_del_node_rep [of h head "[]" p as] assms by simp
qed

lemma cam_queue_deq_Cons:
  assumes "queue_rep (q, h) (d # ds)"
  shows "runs (cam_queue_deq q h) (\<lambda>(d', q', h'). d' = d \<and> queue_rep (q', h') ds)"
proof -
  obtain p as where rep: "list_rep h (cq_head q) (p # as)" and d: "hp_data h p = d"
    and ds: "map (hp_data h) as = ds" and sz: "cq_size q = of_nat (length (p # as))"
    using assms by (auto simp: queue_rep_def map_eq_Cons_conv)
  note first = unlink_first [OF rep]
  obtain h' where del: "cam_list_del_node p h = Some h'" and rep': "list_rep h' (cq_head q) as"
    and eqs: "hp_data h' = hp_data h" "hp_live h' = hp_live h"
    using first(5) by (auto simp: runs_iff)
  have "p \<notin> set (cq_head q # as)" using rep by (auto simp: list_rep_def)
  with rep' have "list_rep (h'\<lparr>hp_live := (hp_live h')(p := False)\<rparr>) (cq_head q) as"
    by (rule list_rep_free)
  then show ?thesis
    using first(1-3) del eqs d ds sz
    by (auto simp: cam_queue_deq_def heap_free_def queue_rep_def)
qed

text \<open>The payloads a queue owns, which the flush frees.\<close>

definition payloads :: "heap \<Rightarrow> addr list \<Rightarrow> addr list" where
  "payloads h as = filter (\<lambda>d. d \<noteq> 0) (map (hp_data h) as)"

definition owns_data :: "heap \<Rightarrow> addr \<Rightarrow> addr list \<Rightarrow> bool" where
  "owns_data h head as \<longleftrightarrow>
     distinct (payloads h as) \<and> set (payloads h as) \<subseteq> Collect (hp_live h) \<and>
     set (payloads h as) \<inter> set (head # as) = {}"

lemma payloads_simps [simp]:
  "payloads h [] = []"
  "payloads h (p # as) = (if hp_data h p \<noteq> 0 then hp_data h p # payloads h as else payloads h as)"
  by (simp_all add: payloads_def)

lemma payloads_cong: "hp_data h' = hp_data h \<Longrightarrow> payloads h' = payloads h"
  by (rule ext) (simp add: payloads_def)

lemma flush_loop_runs:
  assumes "list_rep h (cq_head q) as" and "owns_data h (cq_head q) as"
  shows "runs (flush_loop (succ_of (cq_head q) as) q h)
    (\<lambda>(q', h'). cq_head q' = cq_head q \<and> list_rep h' (cq_head q) [] \<and>
      Collect (hp_live h') = Collect (hp_live h) - set as - set (payloads h as))"
  using assms
proof (induction as arbitrary: q h)
  case Nil
  then show ?case by (subst flush_loop.simps) simp
next
  case (Cons p as)
  note first = unlink_first [OF Cons.prems(1)]
  obtain h1 where del: "cam_list_del_node p h = Some h1" and rep1: "list_rep h1 (cq_head q) as"
    and eqs: "hp_data h1 = hp_data h" "hp_live h1 = hp_live h"
    using first(5) by (auto simp: runs_iff)
  let ?d = "hp_data h p"
  let ?h2 = "if ?d \<noteq> 0 then h1\<lparr>hp_live := (hp_live h1)(?d := False)\<rparr> else h1"
  let ?q = "q\<lparr>cq_size := cq_size q - 1\<rparr>"
  let ?D = "if ?d \<noteq> 0 then {?d} else {}"
  define h3 where "h3 = ?h2\<lparr>hp_live := (hp_live ?h2)(p := False)\<rparr>"
  have h3: "hp_data h3 = hp_data h" "hp_next h3 = hp_next h1" "hp_prev h3 = hp_prev h1"
    using eqs by (simp_all add: h3_def)
  have live3: "Collect (hp_live h3) = Collect (hp_live h) - {p} - ?D"
    using eqs by (auto simp: h3_def split: if_splits)
  have p: "p \<notin> set (cq_head q # as)" using Cons.prems(1) by (auto simp: list_rep_def)
  have d: "?d \<noteq> 0 \<Longrightarrow> hp_live h ?d \<and> ?d \<notin> set (cq_head q # p # as)"
    using Cons.prems(2) by (auto simp: owns_data_def)
  have step: "flush_loop (succ_of (cq_head q) (p # as)) q h = flush_loop (succ_of (cq_head q) as) ?q h3"
    using first(2,3,4) del eqs d unfolding h3_def
    by (subst flush_loop.simps) (cases "?d = 0"; simp add: heap_free_def)
  have "list_rep h3 (cq_head ?q) as"
  proof (rule list_rep_cong [OF h3(2,3)])
    show "list_rep h1 (cq_head ?q) as" using rep1 by simp
    fix a
    assume "a \<in> set (cq_head ?q # as)" "hp_live h1 a"
    then have "a \<in> Collect (hp_live h) - {p} - ?D" using p d eqs(2) by (cases "?d = 0") auto
    then show "hp_live h3 a" using live3 by blast
  qed
  moreover have "owns_data h3 (cq_head ?q) as"
  proof -
    have "set (payloads h as) \<subseteq> Collect (hp_live h) - {p} - ?D"
      using Cons.prems(2) unfolding owns_data_def by (cases "?d = 0") auto
    then show ?thesis
      using Cons.prems(2) unfolding owns_data_def live3 payloads_cong [OF h3(1)]
      by (cases "?d = 0") auto
  qed
  moreover have "Collect (hp_live h3) - set as - set (payloads h3 as) =
      Collect (hp_live h) - set (p # as) - set (payloads h (p # as))"
    unfolding live3 payloads_cong [OF h3(1)] by auto
  moreover have "cq_head ?q = cq_head q" by simp
  ultimately show ?case
    using Cons.IH [of h3 ?q] unfolding step by metis
qed

lemma cam_queue_flush_runs:
  assumes "list_rep h (cq_head q) as" and "owns_data h (cq_head q) as"
  shows "runs (cam_queue_flush q h) (\<lambda>(rc, q', h'). rc = 0 \<and> queue_rep (q', h') [] \<and>
      Collect (hp_live h') = Collect (hp_live h) - set as - set (payloads h as))"
proof -
  have "get_next h (cq_head q) = Some (succ_of (cq_head q) as)"
    using list_rep_neighbours [of h "cq_head q" "[]" as] assms(1) by (simp add: get_next_def list_rep_def)
  then show ?thesis
    unfolding cam_queue_flush_def
    by simp (rule runs_mono [OF flush_loop_runs [OF assms]], auto simp: queue_rep_def)
qed

section \<open>The interface of a first-in first-out queue\<close>

text \<open>Enqueue a list of elements, each with the node allocated for it; dequeue a number of elements.\<close>

fun enq_all :: "('p \<Rightarrow> 'a \<Rightarrow> 's \<Rightarrow> 's option) \<Rightarrow> ('p \<times> 'a) list \<Rightarrow> 's \<Rightarrow> 's option" where
  "enq_all enq [] s = Some s"
| "enq_all enq ((p, x) # pxs) s = do { s \<leftarrow> enq p x s; enq_all enq pxs s }"

fun deq_n :: "('s \<Rightarrow> ('a \<times> 's) option) \<Rightarrow> nat \<Rightarrow> 's \<Rightarrow> ('a list \<times> 's) option" where
  "deq_n deq 0 s = Some ([], s)"
| "deq_n deq (Suc n) s = do { (x, s) \<leftarrow> deq s; (xs, s) \<leftarrow> deq_n deq n s; Some (x # xs, s) }"

locale fifo_queue =
  fixes rep :: "'s \<Rightarrow> 'a list \<Rightarrow> bool"
    and fresh :: "'p \<Rightarrow> 's \<Rightarrow> bool"
    and enq :: "'p \<Rightarrow> 'a \<Rightarrow> 's \<Rightarrow> 's option"
    and deq :: "'s \<Rightarrow> ('a \<times> 's) option"
  assumes enq_rep: "rep s xs \<Longrightarrow> fresh p s \<Longrightarrow>
      runs (enq p x s) (\<lambda>s'. rep s' (xs @ [x]) \<and> (\<forall>p'. fresh p' s \<longrightarrow> p' \<noteq> p \<longrightarrow> fresh p' s'))"
    and deq_rep: "rep s (x # xs) \<Longrightarrow> runs (deq s) (\<lambda>(y, s'). y = x \<and> rep s' xs)"
begin

lemma enq_all_rep:
  assumes "rep s xs" and "distinct (map fst pxs)" and "\<forall>p \<in> set (map fst pxs). fresh p s"
  shows "runs (enq_all enq pxs s) (\<lambda>s'. rep s' (xs @ map snd pxs))"
  using assms
proof (induction pxs arbitrary: s xs)
  case (Cons px pxs)
  obtain p x where px: "px = (p, x)" by force
  have "runs (enq p x s) (\<lambda>s'. rep s' (xs @ [x]) \<and> (\<forall>p'. fresh p' s \<longrightarrow> p' \<noteq> p \<longrightarrow> fresh p' s'))"
    using Cons.prems by (intro enq_rep) (auto simp: px)
  then have "runs (enq p x s) (\<lambda>s'. runs (enq_all enq pxs s') (\<lambda>s''. rep s'' ((xs @ [x]) @ map snd pxs)))"
  proof (rule runs_mono)
    fix s'
    assume s': "rep s' (xs @ [x]) \<and> (\<forall>p'. fresh p' s \<longrightarrow> p' \<noteq> p \<longrightarrow> fresh p' s')"
    show "runs (enq_all enq pxs s') (\<lambda>s''. rep s'' ((xs @ [x]) @ map snd pxs))"
      by (rule Cons.IH) (use s' Cons.prems in \<open>auto simp: px\<close>)
  qed
  then show ?case by (simp add: px)
qed simp

lemma deq_n_rep:
  "rep s (xs @ ys) \<Longrightarrow> runs (deq_n deq (length xs) s) (\<lambda>(zs, s'). zs = xs \<and> rep s' ys)"
proof (induction xs arbitrary: s)
  case (Cons x xs)
  then have "runs (deq s) (\<lambda>(y, s'). y = x \<and> rep s' (xs @ ys))"
    by (intro deq_rep) simp
  then have "runs (deq s) (\<lambda>(y, s'). y = x \<and> runs (deq_n deq (length xs) s') (\<lambda>(zs, s''). zs = xs \<and> rep s'' ys))"
    by (rule runs_mono) (auto intro: Cons.IH)
  then show ?case
    by (auto simp: runs_iff split_beta)
qed simp

lemma fifo_order:
  assumes "rep s []" and "distinct (map fst pxs)" and "\<forall>p \<in> set (map fst pxs). fresh p s"
  shows "runs (Option.bind (enq_all enq pxs s) (deq_n deq (length pxs)))
    (\<lambda>(ys, s'). ys = map snd pxs \<and> rep s' [])"
proof -
  have "runs (enq_all enq pxs s) (\<lambda>s'. rep s' (map snd pxs @ []))"
    using enq_all_rep [OF assms] by simp
  then have "runs (enq_all enq pxs s)
      (\<lambda>s'. runs (deq_n deq (length (map snd pxs)) s') (\<lambda>(zs, s''). zs = map snd pxs \<and> rep s'' []))"
    by (rule runs_mono) (rule deq_n_rep)
  then show ?thesis by simp
qed

end

interpretation cq: fifo_queue queue_rep fresh_node q_enq q_deq
proof
  fix s xs p x
  assume "queue_rep s xs" and "fresh_node p s"
  then show "runs (q_enq p x s) (\<lambda>s'. queue_rep s' (xs @ [x]) \<and>
      (\<forall>p'. fresh_node p' s \<longrightarrow> p' \<noteq> p \<longrightarrow> fresh_node p' s'))"
    using cam_queue_enq_rep [of "fst s" "snd s" xs p x]
    by (auto simp: q_enq_def fresh_node_def runs_iff split_beta)
next
  fix s x xs
  assume "queue_rep s (x # xs)"
  then show "runs (q_deq s) (\<lambda>(y, s'). y = x \<and> queue_rep s' xs)"
    using cam_queue_deq_Cons [of "fst s" "snd s" x xs] by (auto simp: q_deq_def split_beta)
qed

section \<open>Properties\<close>

text \<open>
  C23. The pointer queue is first-in first-out and memory safe: enqueueing payloads one after the
  other on an empty queue, with nodes \<^verbatim>\<open>malloc\<close> returned, and dequeueing as many, touches no freed
  node, gives the payloads back in the order they went in and leaves the queue empty.
\<close>

theorem cam_queue_fifo:
  assumes "queue_rep (q, h) []" and "distinct (map fst pds)"
    and "\<forall>p \<in> set (map fst pds). \<not> hp_live h p"
  shows "runs (Option.bind (enq_all q_enq pds (q, h)) (deq_n q_deq (length pds)))
    (\<lambda>(ds, s'). ds = map snd pds \<and> queue_rep s' [])"
  using cq.fifo_order [of "(q, h)" pds] assms by (simp add: fresh_node_def)

definition sample_heap :: heap where
  "sample_heap = \<lparr>hp_next = (\<lambda>_. 1), hp_prev = (\<lambda>_. 1), hp_data = (\<lambda>_. 0), hp_live = (\<lambda>a. a = 1)\<rparr>"

definition sample_queue :: cam_queue_t where
  "sample_queue = \<lparr>cq_head = 1, cq_size = 0\<rparr>"

lemma sample_queue_rep: "queue_rep (sample_queue, sample_heap) []"
  by (simp add: queue_rep_def list_rep_def sample_heap_def sample_queue_def)

theorem cam_queue_fifo_witness:
  "runs (Option.bind (enq_all q_enq [(2, 70), (3, 80)] (sample_queue, sample_heap)) (deq_n q_deq 2))
    (\<lambda>(ds, s'). ds = [70, 80] \<and> queue_rep s' [])"
  using cam_queue_fifo [of sample_queue sample_heap "[(2, 70), (3, 80)]"] sample_queue_rep
  by (simp add: sample_heap_def numeral_2_eq_2)

text \<open>
  C24. Flushing a queue whose payloads are live, distinct and not list nodes returns: the loop ends,
  frees every node and every payload exactly once and nothing else, and leaves an empty queue of
  size 0.
\<close>

theorem cam_queue_flush_frees_all:
  assumes "list_rep h (cq_head q) as" and "owns_data h (cq_head q) as"
  shows "\<exists>q' h'. cam_queue_flush q h = Some (0, q', h') \<and> queue_rep (q', h') [] \<and>
    (\<forall>a. hp_live h' a \<longleftrightarrow> hp_live h a \<and> a \<notin> set as \<and> a \<notin> set (payloads h as))"
  using cam_queue_flush_runs [OF assms] by (fastforce simp: runs_iff)

theorem cam_queue_flush_frees_all_witness:
  "\<exists>q' h'. cam_queue_flush \<lparr>cq_head = 1, cq_size = 1\<rparr>
      \<lparr>hp_next = (\<lambda>a. if a = 1 then 2 else 1), hp_prev = (\<lambda>a. if a = 1 then 2 else 1),
       hp_data = (\<lambda>a. if a = 2 then 7 else 0), hp_live = (\<lambda>a. a \<in> {1, 2, 7})\<rparr> = Some (0, q', h') \<and>
    queue_rep (q', h') [] \<and>
    (\<forall>a. hp_live h' a \<longleftrightarrow> a \<in> {1, 2, 7} \<and> a \<notin> {2} \<and> a \<notin> {7 :: nat})"
  using cam_queue_flush_frees_all [of "\<lparr>hp_next = (\<lambda>a. if a = 1 then 2 else 1),
      hp_prev = (\<lambda>a. if a = 1 then 2 else 1), hp_data = (\<lambda>a. if a = 2 then 7 else 0),
      hp_live = (\<lambda>a. a \<in> {1, 2, 7})\<rparr>" "\<lparr>cq_head = 1, cq_size = 1\<rparr>" "[2]"]
  by (simp add: list_rep_def owns_data_def)

end
