(* ===== verification/Cam_Types.thy ===== *)
theory Cam_Types
  imports Prelude
begin

text \<open>
  The data shared by the camera stack: the enumerations and structures of
  \<^verbatim>\<open>camera/QCamera2/stack/common\<close> (\<^verbatim>\<open>cam_types.h\<close>, \<^verbatim>\<open>cam_intf.h\<close>,
  \<^verbatim>\<open>mm_camera_interface.h\<close>) that the camera interface library reads or writes. A structure is
  a record with the fields the modelled code accesses; a tagged union is a datatype; a function
  pointer registered by a client is \<open>nat option\<close>, the identity of the function or NULL.
\<close>

section \<open>cam_types.h\<close>

text \<open>
  The Bayer formats of the enumeration are a product of packing, bits per pixel and colour
  phase; they are written as constructors with these arguments, all other formats by name.
\<close>

datatype bayer_bpp = BPP_8 | BPP_10 | BPP_12

datatype bayer_phase = GBRG | GRBG | RGGB | BGGR

datatype cam_format_t =
    CAM_FORMAT_JPEG
  | CAM_FORMAT_YUV_420_NV12
  | CAM_FORMAT_YUV_420_NV21
  | CAM_FORMAT_YUV_420_NV21_ADRENO
  | CAM_FORMAT_YUV_420_YV12
  | CAM_FORMAT_YUV_422_NV16
  | CAM_FORMAT_YUV_422_NV61
  | CAM_FORMAT_YUV_420_NV12_VENUS
  | CAM_FORMAT_YUV_RAW_8BIT_YUYV
  | CAM_FORMAT_YUV_RAW_8BIT_YVYU
  | CAM_FORMAT_YUV_RAW_8BIT_UYVY
  | CAM_FORMAT_YUV_RAW_8BIT_VYUY
  | CAM_FORMAT_BAYER_QCOM_RAW bayer_bpp bayer_phase
  | CAM_FORMAT_BAYER_MIPI_RAW bayer_bpp bayer_phase
  | CAM_FORMAT_BAYER_IDEAL_RAW_QCOM bayer_bpp bayer_phase
  | CAM_FORMAT_BAYER_IDEAL_RAW_MIPI bayer_bpp bayer_phase
  | CAM_FORMAT_BAYER_IDEAL_RAW_PLAIN8_8BPP bayer_phase
  | CAM_FORMAT_BAYER_IDEAL_RAW_PLAIN16 bayer_bpp bayer_phase
  | CAM_FORMAT_JPEG_RAW_8BIT
  | CAM_FORMAT_META_RAW_8BIT
  | CAM_FORMAT_MAX

datatype cam_stream_type_t =
    CAM_STREAM_TYPE_DEFAULT
  | CAM_STREAM_TYPE_PREVIEW
  | CAM_STREAM_TYPE_POSTVIEW
  | CAM_STREAM_TYPE_SNAPSHOT
  | CAM_STREAM_TYPE_VIDEO
  | CAM_STREAM_TYPE_IMPL_DEFINED
  | CAM_STREAM_TYPE_YUV
  | CAM_STREAM_TYPE_METADATA
  | CAM_STREAM_TYPE_RAW
  | CAM_STREAM_TYPE_OFFLINE_PROC
  | CAM_STREAM_TYPE_MAX

datatype cam_mapping_buf_type =
    CAM_MAPPING_BUF_TYPE_CAPABILITY
  | CAM_MAPPING_BUF_TYPE_PARM_BUF
  | CAM_MAPPING_BUF_TYPE_STREAM_BUF
  | CAM_MAPPING_BUF_TYPE_STREAM_INFO
  | CAM_MAPPING_BUF_TYPE_OFFLINE_INPUT_BUF
  | CAM_MAPPING_BUF_TYPE_MAX

record cam_buf_map_type =
  map_type :: cam_mapping_buf_type
  map_stream_id :: uint32_t
  map_frame_idx :: uint32_t
  map_plane_idx :: int
  map_fd :: int
  map_size :: uint32_t

record cam_buf_unmap_type =
  unmap_type :: cam_mapping_buf_type
  unmap_stream_id :: uint32_t
  unmap_frame_idx :: uint32_t
  unmap_plane_idx :: int

datatype cam_sock_packet_t =
    CAM_MAPPING_TYPE_FD_MAPPING cam_buf_map_type
  | CAM_MAPPING_TYPE_FD_UNMAPPING cam_buf_unmap_type

record cam_mp_len_offset_t =
  mp_len :: uint32_t
  mp_offset :: uint32_t
  mp_offset_x :: int32_t
  mp_offset_y :: int32_t
  mp_stride :: int32_t
  mp_scanline :: int32_t
  mp_width :: int32_t
  mp_height :: int32_t

record cam_padding_info_t =
  width_padding :: uint32_t
  height_padding :: uint32_t
  plane_padding :: uint32_t

text \<open>The plane array \<^verbatim>\<open>mp\<close> is indexed by constants only, so it is a function of the index.\<close>

record cam_frame_len_offset_t =
  fo_num_planes :: int
  fo_mp :: "nat \<Rightarrow> cam_mp_len_offset_t"
  fo_frame_len :: uint32_t

record cam_dimension_t =
  dim_width :: int32_t
  dim_height :: int32_t

type_synonym cam_stream_buf_plane_info_t = cam_frame_len_offset_t

datatype cam_rotation_t = ROTATE_0 | ROTATE_90 | ROTATE_180 | ROTATE_270

definition CAM_QCOM_FEATURE_ROTATION :: uint32_t where
  "CAM_QCOM_FEATURE_ROTATION = push_bit 3 1"

record cam_pp_feature_config_t =
  feature_mask :: uint32_t
  rotation :: cam_rotation_t

text \<open>\<^verbatim>\<open>pp_type\<close> is the tag of the union of the online and the offline source.\<close>

datatype cam_stream_reproc_config_t =
    CAM_ONLINE_REPROCESS_TYPE cam_stream_type_t
  | CAM_OFFLINE_REPROCESS_TYPE cam_stream_buf_plane_info_t

datatype cam_prep_snapshot_state_t = DO_NOT_NEED_FUTURE_FRAME | NEED_FUTURE_FRAME

record cam_frame_idx_range_t =
  min_frame_idx :: uint32_t
  max_frame_idx :: uint32_t

record cam_metadata_info_t =
  is_prep_snapshot_done_valid :: bool
  prep_snapshot_done_state :: cam_prep_snapshot_state_t
  is_good_frame_idx_range_valid :: bool
  good_frame_idx_range :: cam_frame_idx_range_t

record cam_bundle_config_t =
  bundle_id :: uint32_t
  num_of_streams :: uint8_t
  stream_ids :: "uint32_t list"

section \<open>cam_intf.h\<close>

datatype cam_priv_ctrl =
    CAM_PRIV_PARM
  | CAM_PRIV_DO_AUTO_FOCUS
  | CAM_PRIV_CANCEL_AUTO_FOCUS
  | CAM_PRIV_PREPARE_SNAPSHOT
  | CAM_PRIV_STREAM_INFO_SYNC
  | CAM_PRIV_STREAM_PARM
  | CAM_PRIV_START_ZSL_SNAPSHOT
  | CAM_PRIV_STOP_ZSL_SNAPSHOT

record cam_stream_info_t =
  stream_svr_id :: uint32_t
  si_stream_type :: cam_stream_type_t
  si_fmt :: cam_format_t
  si_dim :: cam_dimension_t
  si_buf_planes :: cam_stream_buf_plane_info_t
  si_pp_config :: cam_pp_feature_config_t
  si_reprocess_config :: cam_stream_reproc_config_t

section \<open>mm_camera_interface.h\<close>

text \<open>\<^verbatim>\<open>PAD_TO_SIZE\<close>: rounding up to a multiple of a power of two, on 32-bit integers.\<close>

definition PAD_TO_SIZE :: "uint32_t \<Rightarrow> uint32_t \<Rightarrow> uint32_t" where
  "PAD_TO_SIZE sz padding = (sz + padding - 1) AND NOT (padding - 1)"

text \<open>
  A frame buffer descriptor. \<open>b_buffer\<close> is the memory of the buffer as far as the library reads
  it: the metadata record of a metadata stream, \<^const>\<open>None\<close> for a null pointer. \<open>b_planes\<close> is
  the kernel's plane array, which the library only passes on.
\<close>

type_synonym v4l2_plane = "uint32_t list"

record mm_camera_buf_def_t =
  b_stream_id :: uint32_t
  b_stream_type :: cam_stream_type_t
  b_buf_idx :: int
  b_is_uv_subsampled :: bool
  b_ts :: "int \<times> int"
  b_frame_idx :: uint32_t
  b_num_planes :: int
  b_planes :: "v4l2_plane list"
  b_buffer :: "cam_metadata_info_t option"

record mm_camera_super_buf_t =
  sb_camera_handle :: uint32_t
  sb_ch_id :: uint32_t
  sb_num_bufs :: uint8_t
  sb_bufs :: "mm_camera_buf_def_t option list"

record mm_camera_event_t =
  server_event_type :: uint32_t
  evt_status :: uint32_t

record mm_camera_stream_mem_vtbl_t =
  vt_user_data :: nat
  vt_get_bufs :: "nat option"
  vt_put_bufs :: "nat option"
  vt_invalidate_buf :: "nat option"
  vt_clean_invalidate_buf :: "nat option"

record mm_camera_stream_config_t =
  cfg_stream_info :: "cam_stream_info_t option"
  cfg_padding_info :: cam_padding_info_t
  cfg_mem_vtbl :: mm_camera_stream_mem_vtbl_t
  cfg_stream_cb :: "nat option"
  cfg_userdata :: nat

datatype mm_camera_super_buf_notify_mode_t =
    MM_CAMERA_SUPER_BUF_NOTIFY_BURST
  | MM_CAMERA_SUPER_BUF_NOTIFY_CONTINUOUS
  | MM_CAMERA_SUPER_BUF_NOTIFY_MAX

datatype mm_camera_super_buf_priority_t =
    MM_CAMERA_SUPER_BUF_PRIORITY_NORMAL
  | MM_CAMERA_SUPER_BUF_PRIORITY_FOCUS
  | MM_CAMERA_SUPER_BUF_PRIORITY_EXPOSURE_BRACKETING
  | MM_CAMERA_SUPER_BUF_PRIORITY_MAX

record mm_camera_channel_attr_t =
  at_notify_mode :: mm_camera_super_buf_notify_mode_t
  water_mark :: uint8_t
  look_back :: uint8_t
  post_frame_skip :: uint8_t
  max_unmatched_frames :: uint8_t
  at_priority :: mm_camera_super_buf_priority_t

section \<open>Pixel formats of the video driver\<close>

datatype v4l2_pix_fmt = V4L2_PIX_FMT_NV12 | V4L2_PIX_FMT_NV21 | V4L2_PIX_FMT_SBGGR10
  | V4L2_PIX_FMT_NV61 | V4L2_PIX_FMT_YUYV | V4L2_PIX_FMT_YVYU | V4L2_PIX_FMT_UYVY
  | V4L2_PIX_FMT_VYUY | V4L2_PIX_FMT_NV16 | V4L2_PIX_FMT_unknown

section \<open>All-zero values\<close>

text \<open>The values a \<^verbatim>\<open>memset(..., 0, ...)\<close> leaves.\<close>

definition zero_plane :: cam_mp_len_offset_t where
  "zero_plane = \<lparr>mp_len = 0, mp_offset = 0, mp_offset_x = 0, mp_offset_y = 0, mp_stride = 0,
     mp_scanline = 0, mp_width = 0, mp_height = 0\<rparr>"

definition zero_frame_offset :: cam_frame_len_offset_t where
  "zero_frame_offset = \<lparr>fo_num_planes = 0, fo_mp = (\<lambda>_. zero_plane), fo_frame_len = 0\<rparr>"

definition zero_padding :: cam_padding_info_t where
  "zero_padding = \<lparr>width_padding = 0, height_padding = 0, plane_padding = 0\<rparr>"

definition zero_vtbl :: mm_camera_stream_mem_vtbl_t where
  "zero_vtbl = \<lparr>vt_user_data = 0, vt_get_bufs = None, vt_put_bufs = None,
     vt_invalidate_buf = None, vt_clean_invalidate_buf = None\<rparr>"

definition zero_attr :: mm_camera_channel_attr_t where
  "zero_attr = \<lparr>at_notify_mode = MM_CAMERA_SUPER_BUF_NOTIFY_BURST, water_mark = 0, look_back = 0,
     post_frame_skip = 0, max_unmatched_frames = 0, at_priority = MM_CAMERA_SUPER_BUF_PRIORITY_NORMAL\<rparr>"

end
