(* ===== verification/Frame_Layout.thy ===== *)
theory Frame_Layout
  imports Cam_Types
begin

text \<open>
  Frame layouts (\<^verbatim>\<open>mm_camera_stream.c\<close>, lines 1595--2699): for a stream type, a pixel format and
  a dimension the library computes stride, scanlines and length of every plane and the length of
  the frame. One definition per case of the switch statements, on 32-bit words.

  The Venus macros come from a kernel header: they are the parameter \<open>venus\<close>, \<open>None\<close> when the
  library is built without \<^verbatim>\<open>VENUS_PRESENT\<close>. \<open>a_family\<close> is the build flag \<^verbatim>\<open>USE_A_FAMILY\<close>.

  The lemmas show that no arithmetic wraps around for images of up to 8192 by 8192 pixels, that
  every plane has room for its lines, and that the planes fit into the page-aligned frame.
\<close>

section \<open>Arithmetic\<close>

text \<open>Signed division by a positive constant, truncating towards zero.\<close>

definition c_div :: "int32_t \<Rightarrow> int \<Rightarrow> int32_t" where
  "c_div x n = word_of_int (if sint x < 0 then - ((- sint x) div n) else sint x div n)"

abbreviation (input) CAM_PAD_TO_2 :: uint32_t where "CAM_PAD_TO_2 \<equiv> 2"
abbreviation (input) CAM_PAD_TO_8 :: uint32_t where "CAM_PAD_TO_8 \<equiv> 8"
abbreviation (input) CAM_PAD_TO_16 :: uint32_t where "CAM_PAD_TO_16 \<equiv> 16"
abbreviation (input) CAM_PAD_TO_32 :: uint32_t where "CAM_PAD_TO_32 \<equiv> 32"
abbreviation (input) CAM_PAD_TO_64 :: uint32_t where "CAM_PAD_TO_64 \<equiv> 64"
abbreviation (input) CAM_PAD_TO_2K :: uint32_t where "CAM_PAD_TO_2K \<equiv> 2048"
abbreviation (input) CAM_PAD_TO_4K :: uint32_t where "CAM_PAD_TO_4K \<equiv> 4096"

text \<open>The macros of \<^verbatim>\<open>msm_media_info.h\<close> for \<^verbatim>\<open>COLOR_FMT_NV12\<close>.\<close>

record venus_macros =
  VENUS_Y_STRIDE :: "int32_t \<Rightarrow> int32_t"
  VENUS_Y_SCANLINES :: "int32_t \<Rightarrow> int32_t"
  VENUS_UV_STRIDE :: "int32_t \<Rightarrow> int32_t"
  VENUS_UV_SCANLINES :: "int32_t \<Rightarrow> int32_t"
  VENUS_BUFFER_SIZE :: "int32_t \<Rightarrow> int32_t \<Rightarrow> uint32_t"

section \<open>Pixel formats of the driver\<close>

fun mm_stream_get_v4l2_fmt :: "cam_format_t \<Rightarrow> v4l2_pix_fmt" where
  "mm_stream_get_v4l2_fmt CAM_FORMAT_YUV_420_NV12 = V4L2_PIX_FMT_NV12"
| "mm_stream_get_v4l2_fmt CAM_FORMAT_YUV_420_NV12_VENUS = V4L2_PIX_FMT_NV12"
| "mm_stream_get_v4l2_fmt CAM_FORMAT_YUV_420_NV21 = V4L2_PIX_FMT_NV21"
| "mm_stream_get_v4l2_fmt (CAM_FORMAT_BAYER_QCOM_RAW BPP_10 p) = V4L2_PIX_FMT_SBGGR10"
| "mm_stream_get_v4l2_fmt CAM_FORMAT_YUV_422_NV61 = V4L2_PIX_FMT_NV61"
| "mm_stream_get_v4l2_fmt CAM_FORMAT_YUV_RAW_8BIT_YUYV = V4L2_PIX_FMT_YUYV"
| "mm_stream_get_v4l2_fmt CAM_FORMAT_YUV_RAW_8BIT_YVYU = V4L2_PIX_FMT_YVYU"
| "mm_stream_get_v4l2_fmt CAM_FORMAT_YUV_RAW_8BIT_UYVY = V4L2_PIX_FMT_UYVY"
| "mm_stream_get_v4l2_fmt CAM_FORMAT_YUV_RAW_8BIT_VYUY = V4L2_PIX_FMT_VYUY"
| "mm_stream_get_v4l2_fmt CAM_FORMAT_YUV_420_YV12 = V4L2_PIX_FMT_NV12"
| "mm_stream_get_v4l2_fmt CAM_FORMAT_YUV_422_NV16 = V4L2_PIX_FMT_NV16"
| "mm_stream_get_v4l2_fmt _ = V4L2_PIX_FMT_unknown"

section \<open>Planes\<close>

text \<open>The eight assignments to the fields of \<^verbatim>\<open>mp[i]\<close>.\<close>

definition set_plane ::
  "nat \<Rightarrow> cam_mp_len_offset_t \<Rightarrow> cam_stream_buf_plane_info_t \<Rightarrow> cam_stream_buf_plane_info_t" where
  "set_plane i p bp = bp\<lparr>fo_mp := (fo_mp bp)(i := p)\<rparr>"

abbreviation (input) len_of :: "cam_stream_buf_plane_info_t \<Rightarrow> nat \<Rightarrow> uint32_t" where
  "len_of bp i \<equiv> mp_len (fo_mp bp i)"

section \<open>Preview\<close>

definition preview_nv12 ::
  "cam_dimension_t \<Rightarrow> cam_stream_buf_plane_info_t \<Rightarrow> cam_stream_buf_plane_info_t" where
  "preview_nv12 dim bp =
     (let bp = bp\<lparr>fo_num_planes := 2\<rparr>;
          stride = PAD_TO_SIZE (dim_width dim) CAM_PAD_TO_16;
          scanline = PAD_TO_SIZE (dim_height dim) CAM_PAD_TO_2;
          bp = set_plane 0 \<lparr>mp_len = stride * scanline, mp_offset = 0, mp_offset_x = 0,
            mp_offset_y = 0, mp_stride = stride, mp_scanline = scanline,
            mp_width = dim_width dim, mp_height = dim_height dim\<rparr> bp;
          stride = PAD_TO_SIZE (dim_width dim) CAM_PAD_TO_16;
          scanline = PAD_TO_SIZE (c_div (dim_height dim) 2) CAM_PAD_TO_2;
          bp = set_plane 1 \<lparr>mp_len = stride * scanline, mp_offset = 0, mp_offset_x = 0,
            mp_offset_y = 0, mp_stride = stride, mp_scanline = scanline,
            mp_width = dim_width dim, mp_height = c_div (dim_height dim) 2\<rparr> bp
      in bp\<lparr>fo_frame_len := PAD_TO_SIZE (len_of bp 0 + len_of bp 1) CAM_PAD_TO_4K\<rparr>)"

definition preview_adreno ::
  "cam_dimension_t \<Rightarrow> cam_stream_buf_plane_info_t \<Rightarrow> cam_stream_buf_plane_info_t" where
  "preview_adreno dim bp =
     (let bp = bp\<lparr>fo_num_planes := 2\<rparr>;
          stride = PAD_TO_SIZE (dim_width dim) CAM_PAD_TO_32;
          scanline = PAD_TO_SIZE (dim_height dim) CAM_PAD_TO_32;
          bp = set_plane 0 \<lparr>mp_len = PAD_TO_SIZE (stride * scanline) CAM_PAD_TO_4K,
            mp_offset = 0, mp_offset_x = 0, mp_offset_y = 0, mp_stride = stride,
            mp_scanline = scanline, mp_width = dim_width dim, mp_height = dim_height dim\<rparr> bp;
          stride = PAD_TO_SIZE (c_div (dim_width dim) 2) CAM_PAD_TO_32 * 2;
          scanline = PAD_TO_SIZE (c_div (dim_height dim) 2) CAM_PAD_TO_32;
          bp = set_plane 1 \<lparr>mp_len = PAD_TO_SIZE (stride * scanline) CAM_PAD_TO_4K,
            mp_offset = 0, mp_offset_x = 0, mp_offset_y = 0, mp_stride = stride,
            mp_scanline = scanline, mp_width = dim_width dim,
            mp_height = c_div (dim_height dim) 2\<rparr> bp
      in bp\<lparr>fo_frame_len := PAD_TO_SIZE (len_of bp 0 + len_of bp 1) CAM_PAD_TO_4K\<rparr>)"

definition preview_yv12 ::
  "cam_dimension_t \<Rightarrow> cam_stream_buf_plane_info_t \<Rightarrow> cam_stream_buf_plane_info_t" where
  "preview_yv12 dim bp =
     (let bp = bp\<lparr>fo_num_planes := 3\<rparr>;
          stride = PAD_TO_SIZE (dim_width dim) CAM_PAD_TO_16;
          scanline = PAD_TO_SIZE (dim_height dim) CAM_PAD_TO_2;
          bp = set_plane 0 \<lparr>mp_len = stride * scanline, mp_offset = 0, mp_offset_x = 0,
            mp_offset_y = 0, mp_stride = stride, mp_scanline = scanline,
            mp_width = dim_width dim, mp_height = dim_height dim\<rparr> bp;
          stride = PAD_TO_SIZE (c_div stride 2) CAM_PAD_TO_16;
          scanline = c_div scanline 2;
          bp = set_plane 1 \<lparr>mp_len = stride * scanline, mp_offset = 0, mp_offset_x = 0,
            mp_offset_y = 0, mp_stride = stride, mp_scanline = scanline,
            mp_width = c_div (dim_width dim) 2, mp_height = c_div (dim_height dim) 2\<rparr> bp;
          bp = set_plane 2 \<lparr>mp_len = stride * scanline, mp_offset = 0, mp_offset_x = 0,
            mp_offset_y = 0, mp_stride = stride, mp_scanline = scanline,
            mp_width = c_div (dim_width dim) 2, mp_height = c_div (dim_height dim) 2\<rparr> bp
      in bp\<lparr>fo_frame_len :=
           PAD_TO_SIZE (len_of bp 0 + len_of bp 1 + len_of bp 2) CAM_PAD_TO_4K\<rparr>)"

definition preview_nv16 ::
  "cam_dimension_t \<Rightarrow> cam_stream_buf_plane_info_t \<Rightarrow> cam_stream_buf_plane_info_t" where
  "preview_nv16 dim bp =
     (let bp = bp\<lparr>fo_num_planes := 2\<rparr>;
          stride = PAD_TO_SIZE (dim_width dim) CAM_PAD_TO_16;
          scanline = dim_height dim;
          bp = set_plane 0 \<lparr>mp_len = stride * scanline, mp_offset = 0, mp_offset_x = 0,
            mp_offset_y = 0, mp_stride = stride, mp_scanline = scanline,
            mp_width = dim_width dim, mp_height = dim_height dim\<rparr> bp;
          bp = set_plane 1 \<lparr>mp_len = stride * scanline, mp_offset = 0, mp_offset_x = 0,
            mp_offset_y = 0, mp_stride = stride, mp_scanline = scanline,
            mp_width = dim_width dim, mp_height = dim_height dim\<rparr> bp
      in bp\<lparr>fo_frame_len := PAD_TO_SIZE (len_of bp 0 + len_of bp 1) CAM_PAD_TO_4K\<rparr>)"

text \<open>The Venus layout.\<close>

definition preview_venus ::
  "venus_macros \<Rightarrow> cam_dimension_t \<Rightarrow> cam_stream_buf_plane_info_t \<Rightarrow> cam_stream_buf_plane_info_t" where
  "preview_venus v dim bp =
     (let stride = VENUS_Y_STRIDE v (dim_width dim);
          scanline = VENUS_Y_SCANLINES v (dim_height dim);
          bp = bp\<lparr>fo_frame_len := VENUS_BUFFER_SIZE v (dim_width dim) (dim_height dim),
            fo_num_planes := 2\<rparr>;
          bp = set_plane 0 \<lparr>mp_len = stride * scanline, mp_offset = 0, mp_offset_x = 0,
            mp_offset_y = 0, mp_stride = stride, mp_scanline = scanline,
            mp_width = dim_width dim, mp_height = dim_height dim\<rparr> bp;
          stride = VENUS_UV_STRIDE v (dim_width dim);
          scanline = VENUS_UV_SCANLINES v (dim_height dim)
      in set_plane 1 \<lparr>mp_len = fo_frame_len bp - len_of bp 0, mp_offset = 0, mp_offset_x = 0,
            mp_offset_y = 0, mp_stride = stride, mp_scanline = scanline,
            mp_width = dim_width dim, mp_height = dim_height dim\<rparr> bp)"

fun mm_stream_calc_offset_preview ::
  "venus_macros option \<Rightarrow> cam_format_t \<Rightarrow> cam_dimension_t \<Rightarrow> cam_stream_buf_plane_info_t \<Rightarrow>
   int \<times> cam_stream_buf_plane_info_t" where
  "mm_stream_calc_offset_preview venus CAM_FORMAT_YUV_420_NV12 dim bp = (0, preview_nv12 dim bp)"
| "mm_stream_calc_offset_preview venus CAM_FORMAT_YUV_420_NV21 dim bp = (0, preview_nv12 dim bp)"
| "mm_stream_calc_offset_preview venus CAM_FORMAT_YUV_420_NV21_ADRENO dim bp = (0, preview_adreno dim bp)"
| "mm_stream_calc_offset_preview venus CAM_FORMAT_YUV_420_YV12 dim bp = (0, preview_yv12 dim bp)"
| "mm_stream_calc_offset_preview venus CAM_FORMAT_YUV_422_NV16 dim bp = (0, preview_nv16 dim bp)"
| "mm_stream_calc_offset_preview venus CAM_FORMAT_YUV_422_NV61 dim bp = (0, preview_nv16 dim bp)"
| "mm_stream_calc_offset_preview venus CAM_FORMAT_YUV_420_NV12_VENUS dim bp =
     (case venus of Some v \<Rightarrow> (0, preview_venus v dim bp) | None \<Rightarrow> (-1, bp))"
| "mm_stream_calc_offset_preview venus _ dim bp = (-1, bp)"

section \<open>Post view\<close>

definition post_view_nv12 ::
  "cam_dimension_t \<Rightarrow> cam_stream_buf_plane_info_t \<Rightarrow> cam_stream_buf_plane_info_t" where
  "post_view_nv12 dim bp =
     (let bp = bp\<lparr>fo_num_planes := 2\<rparr>;
          stride = PAD_TO_SIZE (dim_width dim) CAM_PAD_TO_64;
          scanline = PAD_TO_SIZE (dim_height dim) CAM_PAD_TO_64;
          bp = set_plane 0 \<lparr>mp_len = stride * scanline, mp_offset = 0, mp_offset_x = 0,
            mp_offset_y = 0, mp_stride = stride, mp_scanline = scanline,
            mp_width = dim_width dim, mp_height = dim_height dim\<rparr> bp;
          stride = PAD_TO_SIZE (dim_width dim) CAM_PAD_TO_64;
          scanline = PAD_TO_SIZE (c_div (dim_height dim) 2) CAM_PAD_TO_64;
          bp = set_plane 1 \<lparr>mp_len = stride * scanline, mp_offset = 0, mp_offset_x = 0,
            mp_offset_y = 0, mp_stride = stride, mp_scanline = scanline,
            mp_width = dim_width dim, mp_height = c_div (dim_height dim) 2\<rparr> bp
      in bp\<lparr>fo_frame_len := PAD_TO_SIZE (len_of bp 0 + len_of bp 1) CAM_PAD_TO_4K\<rparr>)"

definition post_view_adreno ::
  "cam_dimension_t \<Rightarrow> cam_stream_buf_plane_info_t \<Rightarrow> cam_stream_buf_plane_info_t" where
  "post_view_adreno dim bp =
     (let bp = bp\<lparr>fo_num_planes := 2\<rparr>;
          stride = PAD_TO_SIZE (dim_width dim) CAM_PAD_TO_32;
          scanline = PAD_TO_SIZE (dim_height dim) CAM_PAD_TO_32;
          bp = set_plane 0 \<lparr>mp_len = PAD_TO_SIZE (stride * scanline) CAM_PAD_TO_4K,
            mp_offset = 0, mp_offset_x = 0, mp_offset_y = 0, mp_stride = stride,
            mp_scanline = scanline, mp_width = dim_width dim, mp_height = dim_height dim\<rparr> bp;
          stride = PAD_TO_SIZE (c_div (dim_width dim) 2) CAM_PAD_TO_32 * 2;
          scanline = PAD_TO_SIZE (c_div (dim_height dim) 2) CAM_PAD_TO_32;
          bp = set_plane 1 \<lparr>mp_len = PAD_TO_SIZE (stride * scanline) CAM_PAD_TO_4K,
            mp_offset = 0, mp_offset_x = 0, mp_offset_y = 0, mp_stride = stride,
            mp_scanline = scanline, mp_width = dim_width dim,
            mp_height = c_div (dim_height dim) 2\<rparr> bp
      in bp\<lparr>fo_frame_len := PAD_TO_SIZE (len_of bp 0 + len_of bp 1) CAM_PAD_TO_4K\<rparr>)"

definition post_view_yv12 ::
  "cam_dimension_t \<Rightarrow> cam_stream_buf_plane_info_t \<Rightarrow> cam_stream_buf_plane_info_t" where
  "post_view_yv12 dim bp =
     (let bp = bp\<lparr>fo_num_planes := 3\<rparr>;
          stride = PAD_TO_SIZE (dim_width dim) CAM_PAD_TO_16;
          scanline = PAD_TO_SIZE (dim_height dim) CAM_PAD_TO_2;
          bp = set_plane 0 \<lparr>mp_len = stride * scanline, mp_offset = 0, mp_offset_x = 0,
            mp_offset_y = 0, mp_stride = stride, mp_scanline = scanline,
            mp_width = dim_width dim, mp_height = dim_height dim\<rparr> bp;
          stride = PAD_TO_SIZE (c_div stride 2) CAM_PAD_TO_16;
          scanline = c_div scanline 2;
          bp = set_plane 1 \<lparr>mp_len = stride * scanline, mp_offset = 0, mp_offset_x = 0,
            mp_offset_y = 0, mp_stride = stride, mp_scanline = scanline,
            mp_width = c_div (dim_width dim) 2, mp_height = c_div (dim_height dim) 2\<rparr> bp;
          bp = set_plane 2 \<lparr>mp_len = stride * scanline, mp_offset = 0, mp_offset_x = 0,
            mp_offset_y = 0, mp_stride = stride, mp_scanline = scanline,
            mp_width = c_div (dim_width dim) 2, mp_height = c_div (dim_height dim) 2\<rparr> bp
      in bp\<lparr>fo_frame_len :=
           PAD_TO_SIZE (len_of bp 0 + len_of bp 1 + len_of bp 2) CAM_PAD_TO_4K\<rparr>)"

definition post_view_nv16 ::
  "cam_dimension_t \<Rightarrow> cam_stream_buf_plane_info_t \<Rightarrow> cam_stream_buf_plane_info_t" where
  "post_view_nv16 dim bp =
     (let bp = bp\<lparr>fo_num_planes := 2\<rparr>;
          stride = PAD_TO_SIZE (dim_width dim) CAM_PAD_TO_16;
          scanline = dim_height dim;
          bp = set_plane 0 \<lparr>mp_len = stride * scanline, mp_offset = 0, mp_offset_x = 0,
            mp_offset_y = 0, mp_stride = stride, mp_scanline = scanline,
            mp_width = dim_width dim, mp_height = dim_height dim\<rparr> bp;
          bp = set_plane 1 \<lparr>mp_len = stride * scanline, mp_offset = 0, mp_offset_x = 0,
            mp_offset_y = 0, mp_stride = stride, mp_scanline = scanline,
            mp_width = dim_width dim, mp_height = dim_height dim\<rparr> bp
      in bp\<lparr>fo_frame_len := PAD_TO_SIZE (len_of bp 0 + len_of bp 1) CAM_PAD_TO_4K\<rparr>)"

definition post_view_venus ::
  "venus_macros \<Rightarrow> cam_dimension_t \<Rightarrow> cam_stream_buf_plane_info_t \<Rightarrow> cam_stream_buf_plane_info_t" where
  "post_view_venus v dim bp =
     (let stride = VENUS_Y_STRIDE v (dim_width dim);
          scanline = VENUS_Y_SCANLINES v (dim_height dim);
          bp = bp\<lparr>fo_frame_len := VENUS_BUFFER_SIZE v (dim_width dim) (dim_height dim),
            fo_num_planes := 2\<rparr>;
          bp = set_plane 0 \<lparr>mp_len = stride * scanline, mp_offset = 0, mp_offset_x = 0,
            mp_offset_y = 0, mp_stride = stride, mp_scanline = scanline,
            mp_width = dim_width dim, mp_height = dim_height dim\<rparr> bp;
          stride = VENUS_UV_STRIDE v (dim_width dim);
          scanline = VENUS_UV_SCANLINES v (dim_height dim)
      in set_plane 1 \<lparr>mp_len = fo_frame_len bp - len_of bp 0, mp_offset = 0, mp_offset_x = 0,
            mp_offset_y = 0, mp_stride = stride, mp_scanline = scanline,
            mp_width = dim_width dim, mp_height = dim_height dim\<rparr> bp)"

fun mm_stream_calc_offset_post_view ::
  "venus_macros option \<Rightarrow> cam_format_t \<Rightarrow> cam_dimension_t \<Rightarrow> cam_stream_buf_plane_info_t \<Rightarrow>
   int \<times> cam_stream_buf_plane_info_t" where
  "mm_stream_calc_offset_post_view venus CAM_FORMAT_YUV_420_NV12 dim bp = (0, post_view_nv12 dim bp)"
| "mm_stream_calc_offset_post_view venus CAM_FORMAT_YUV_420_NV21 dim bp = (0, post_view_nv12 dim bp)"
| "mm_stream_calc_offset_post_view venus CAM_FORMAT_YUV_420_NV21_ADRENO dim bp = (0, post_view_adreno dim bp)"
| "mm_stream_calc_offset_post_view venus CAM_FORMAT_YUV_420_YV12 dim bp = (0, post_view_yv12 dim bp)"
| "mm_stream_calc_offset_post_view venus CAM_FORMAT_YUV_422_NV16 dim bp = (0, post_view_nv16 dim bp)"
| "mm_stream_calc_offset_post_view venus CAM_FORMAT_YUV_422_NV61 dim bp = (0, post_view_nv16 dim bp)"
| "mm_stream_calc_offset_post_view venus CAM_FORMAT_YUV_420_NV12_VENUS dim bp =
     (case venus of Some v \<Rightarrow> (0, post_view_venus v dim bp) | None \<Rightarrow> (-1, bp))"
| "mm_stream_calc_offset_post_view venus _ dim bp = (-1, bp)"

section \<open>Snapshot\<close>

text \<open>Stride, scanlines and offsets before the switch: (stride, scanline, offset\_x, offset\_y).\<close>

definition snapshot_base ::
  "bool \<Rightarrow> cam_dimension_t \<Rightarrow> cam_padding_info_t \<Rightarrow> int32_t \<times> int32_t \<times> int32_t \<times> int32_t" where
  "snapshot_base a_family dim padding =
     (if a_family then
        (let stride = dim_width dim;
             scanline = PAD_TO_SIZE (dim_height dim) CAM_PAD_TO_16;
             offset_y = scanline - dim_height dim;
             scanline = scanline + offset_y
         in (stride, scanline, 0, offset_y))
      else
        (PAD_TO_SIZE (dim_width dim) (width_padding padding),
         PAD_TO_SIZE (dim_height dim) (height_padding padding), 0, 0))"

definition snapshot_nv12 ::
  "int32_t \<times> int32_t \<times> int32_t \<times> int32_t \<Rightarrow> cam_dimension_t \<Rightarrow> cam_padding_info_t \<Rightarrow>
   cam_stream_buf_plane_info_t \<Rightarrow> cam_stream_buf_plane_info_t" where
  "snapshot_nv12 = (\<lambda>(stride, scanline, offset_x, offset_y) dim padding bp.
     (let bp = bp\<lparr>fo_num_planes := 2\<rparr>;
          bp = set_plane 0 \<lparr>mp_len = PAD_TO_SIZE (stride * scanline) (plane_padding padding),
            mp_offset = PAD_TO_SIZE (offset_x + stride * offset_y) (plane_padding padding),
            mp_offset_x = offset_x, mp_offset_y = offset_y, mp_stride = stride,
            mp_scanline = scanline, mp_width = dim_width dim, mp_height = dim_height dim\<rparr> bp;
          scanline = c_div scanline 2;
          bp = set_plane 1 \<lparr>mp_len = PAD_TO_SIZE (stride * scanline) (plane_padding padding),
            mp_offset = PAD_TO_SIZE (offset_x + stride * offset_y) (plane_padding padding),
            mp_offset_x = offset_x, mp_offset_y = offset_y, mp_stride = stride,
            mp_scanline = scanline, mp_width = dim_width dim,
            mp_height = c_div (dim_height dim) 2\<rparr> bp
      in bp\<lparr>fo_frame_len := PAD_TO_SIZE (len_of bp 0 + len_of bp 1) CAM_PAD_TO_4K\<rparr>))"

definition snapshot_yv12 ::
  "int32_t \<times> int32_t \<times> int32_t \<times> int32_t \<Rightarrow> cam_dimension_t \<Rightarrow> cam_padding_info_t \<Rightarrow>
   cam_stream_buf_plane_info_t \<Rightarrow> cam_stream_buf_plane_info_t" where
  "snapshot_yv12 = (\<lambda>(stride, scanline, offset_x, offset_y) dim padding bp.
     (let bp = bp\<lparr>fo_num_planes := 3\<rparr>;
          bp = set_plane 0 \<lparr>mp_len = PAD_TO_SIZE (stride * scanline) (plane_padding padding),
            mp_offset = PAD_TO_SIZE (offset_x + stride * offset_y) (plane_padding padding),
            mp_offset_x = offset_x, mp_offset_y = offset_y, mp_stride = stride,
            mp_scanline = scanline, mp_width = dim_width dim, mp_height = dim_height dim\<rparr> bp;
          stride = PAD_TO_SIZE (c_div stride 2) CAM_PAD_TO_16;
          scanline = c_div scanline 2;
          bp = set_plane 1 \<lparr>mp_len = PAD_TO_SIZE (stride * scanline) (plane_padding padding),
            mp_offset = PAD_TO_SIZE (offset_x + stride * offset_y) (plane_padding padding),
            mp_offset_x = offset_x, mp_offset_y = offset_y, mp_stride = stride,
            mp_scanline = scanline, mp_width = c_div (dim_width dim) 2,
            mp_height = c_div (dim_height dim) 2\<rparr> bp;
          bp = set_plane 2 \<lparr>mp_len = PAD_TO_SIZE (stride * scanline) (plane_padding padding),
            mp_offset = PAD_TO_SIZE (offset_x + stride * offset_y) (plane_padding padding),
            mp_offset_x = offset_x, mp_offset_y = offset_y, mp_stride = stride,
            mp_scanline = scanline, mp_width = c_div (dim_width dim) 2,
            mp_height = c_div (dim_height dim) 2\<rparr> bp
      in bp\<lparr>fo_frame_len :=
           PAD_TO_SIZE (len_of bp 0 + len_of bp 1 + len_of bp 2) CAM_PAD_TO_4K\<rparr>))"

definition snapshot_nv16 ::
  "int32_t \<times> int32_t \<times> int32_t \<times> int32_t \<Rightarrow> cam_dimension_t \<Rightarrow> cam_padding_info_t \<Rightarrow>
   cam_stream_buf_plane_info_t \<Rightarrow> cam_stream_buf_plane_info_t" where
  "snapshot_nv16 = (\<lambda>(stride, scanline, offset_x, offset_y) dim padding bp.
     (let bp = bp\<lparr>fo_num_planes := 2\<rparr>;
          bp = set_plane 0 \<lparr>mp_len = PAD_TO_SIZE (stride * scanline) (plane_padding padding),
            mp_offset = PAD_TO_SIZE (offset_x + stride * offset_y) (plane_padding padding),
            mp_offset_x = offset_x, mp_offset_y = offset_y, mp_stride = stride,
            mp_scanline = scanline, mp_width = dim_width dim, mp_height = dim_height dim\<rparr> bp;
          bp = set_plane 1 \<lparr>mp_len = PAD_TO_SIZE (stride * scanline) (plane_padding padding),
            mp_offset = PAD_TO_SIZE (offset_x + stride * offset_y) (plane_padding padding),
            mp_offset_x = offset_x, mp_offset_y = offset_y, mp_stride = stride,
            mp_scanline = scanline, mp_width = dim_width dim, mp_height = dim_height dim\<rparr> bp
      in bp\<lparr>fo_frame_len := PAD_TO_SIZE (len_of bp 0 + len_of bp 1) CAM_PAD_TO_4K\<rparr>))"

definition mm_stream_calc_offset_snapshot ::
  "bool \<Rightarrow> cam_format_t \<Rightarrow> cam_dimension_t \<Rightarrow> cam_padding_info_t \<Rightarrow> cam_stream_buf_plane_info_t \<Rightarrow>
   int \<times> cam_stream_buf_plane_info_t" where
  "mm_stream_calc_offset_snapshot a_family fmt dim padding bp =
     (let b = snapshot_base a_family dim padding
      in case fmt of
           CAM_FORMAT_YUV_420_NV12 \<Rightarrow> (0, snapshot_nv12 b dim padding bp)
         | CAM_FORMAT_YUV_420_NV21 \<Rightarrow> (0, snapshot_nv12 b dim padding bp)
         | CAM_FORMAT_YUV_420_YV12 \<Rightarrow> (0, snapshot_yv12 b dim padding bp)
         | CAM_FORMAT_YUV_422_NV16 \<Rightarrow> (0, snapshot_nv16 b dim padding bp)
         | CAM_FORMAT_YUV_422_NV61 \<Rightarrow> (0, snapshot_nv16 b dim padding bp)
         | _ \<Rightarrow> (-1, bp))"

section \<open>Raw\<close>

text \<open>The common tail of the cases: one plane of the given stride and unpadded length.\<close>

definition raw_plane ::
  "int32_t \<Rightarrow> int32_t \<Rightarrow> int32_t \<Rightarrow> cam_padding_info_t \<Rightarrow> cam_stream_buf_plane_info_t \<Rightarrow>
   cam_stream_buf_plane_info_t" where
  "raw_plane stride scanline bytes padding bp =
     (let bp = bp\<lparr>fo_num_planes := 1\<rparr>;
          len = PAD_TO_SIZE bytes (plane_padding padding);
          bp = bp\<lparr>fo_frame_len := PAD_TO_SIZE len CAM_PAD_TO_4K\<rparr>
      in set_plane 0 \<lparr>mp_len = len, mp_offset = 0, mp_offset_x = 0, mp_offset_y = 0,
            mp_stride = stride, mp_scanline = scanline, mp_width = len, mp_height = 1\<rparr> bp)"

text \<open>Stride and length in bytes of a raw format, \<^const>\<open>None\<close> for a format that is not raw.\<close>

definition raw_yuv :: "cam_dimension_t \<Rightarrow> int32_t \<times> int32_t" where
  "raw_yuv dim = (let stride = PAD_TO_SIZE (dim_width dim) CAM_PAD_TO_16
     in (stride, stride * dim_height dim * 2))"

definition raw_8bpp :: "cam_dimension_t \<Rightarrow> int32_t \<times> int32_t" where
  "raw_8bpp dim = (let stride = PAD_TO_SIZE (dim_width dim) CAM_PAD_TO_16
     in (stride, stride * dim_height dim))"

definition raw_qcom_10bpp :: "cam_dimension_t \<Rightarrow> int32_t \<times> int32_t" where
  "raw_qcom_10bpp dim = (let stride = c_div (dim_width dim + 11) 12 * 12
     in (stride, c_div (stride * dim_height dim * 8) 6))"

definition raw_qcom_12bpp :: "cam_dimension_t \<Rightarrow> int32_t \<times> int32_t" where
  "raw_qcom_12bpp dim = (let stride = c_div (dim_width dim + 9) 10 * 10
     in (stride, c_div (stride * dim_height dim * 8) 5))"

definition raw_mipi_10bpp :: "cam_dimension_t \<Rightarrow> int32_t \<times> int32_t" where
  "raw_mipi_10bpp dim = (let stride = PAD_TO_SIZE (c_div (dim_width dim * 5) 4) CAM_PAD_TO_8
     in (stride, stride * dim_height dim))"

definition raw_mipi_12bpp :: "cam_dimension_t \<Rightarrow> int32_t \<times> int32_t" where
  "raw_mipi_12bpp dim = (let stride = PAD_TO_SIZE (dim_width dim) CAM_PAD_TO_32
     in (stride, c_div (stride * dim_height dim * 3) 2))"

definition raw_plain16 :: "cam_dimension_t \<Rightarrow> int32_t \<times> int32_t" where
  "raw_plain16 dim = (let stride = PAD_TO_SIZE (dim_width dim) CAM_PAD_TO_8
     in (stride, stride * dim_height dim * 2))"

fun raw_geometry :: "cam_format_t \<Rightarrow> cam_dimension_t \<Rightarrow> (int32_t \<times> int32_t) option" where
  "raw_geometry CAM_FORMAT_YUV_RAW_8BIT_YUYV dim = Some (raw_yuv dim)"
| "raw_geometry CAM_FORMAT_YUV_RAW_8BIT_YVYU dim = Some (raw_yuv dim)"
| "raw_geometry CAM_FORMAT_YUV_RAW_8BIT_UYVY dim = Some (raw_yuv dim)"
| "raw_geometry CAM_FORMAT_YUV_RAW_8BIT_VYUY dim = Some (raw_yuv dim)"
| "raw_geometry CAM_FORMAT_JPEG_RAW_8BIT dim = Some (raw_yuv dim)"
| "raw_geometry CAM_FORMAT_META_RAW_8BIT dim = Some (raw_yuv dim)"
| "raw_geometry (CAM_FORMAT_BAYER_QCOM_RAW BPP_8 p) dim = Some (raw_8bpp dim)"
| "raw_geometry (CAM_FORMAT_BAYER_MIPI_RAW BPP_8 p) dim = Some (raw_8bpp dim)"
| "raw_geometry (CAM_FORMAT_BAYER_IDEAL_RAW_QCOM BPP_8 p) dim = Some (raw_8bpp dim)"
| "raw_geometry (CAM_FORMAT_BAYER_IDEAL_RAW_MIPI BPP_8 p) dim = Some (raw_8bpp dim)"
| "raw_geometry (CAM_FORMAT_BAYER_IDEAL_RAW_PLAIN8_8BPP p) dim = Some (raw_8bpp dim)"
| "raw_geometry (CAM_FORMAT_BAYER_QCOM_RAW BPP_10 p) dim = Some (raw_qcom_10bpp dim)"
| "raw_geometry (CAM_FORMAT_BAYER_IDEAL_RAW_QCOM BPP_10 p) dim = Some (raw_qcom_10bpp dim)"
| "raw_geometry (CAM_FORMAT_BAYER_QCOM_RAW BPP_12 p) dim = Some (raw_qcom_12bpp dim)"
| "raw_geometry (CAM_FORMAT_BAYER_IDEAL_RAW_QCOM BPP_12 p) dim = Some (raw_qcom_12bpp dim)"
| "raw_geometry (CAM_FORMAT_BAYER_MIPI_RAW BPP_10 p) dim = Some (raw_mipi_10bpp dim)"
| "raw_geometry (CAM_FORMAT_BAYER_IDEAL_RAW_MIPI BPP_10 p) dim = Some (raw_mipi_10bpp dim)"
| "raw_geometry (CAM_FORMAT_BAYER_MIPI_RAW BPP_12 p) dim = Some (raw_mipi_12bpp dim)"
| "raw_geometry (CAM_FORMAT_BAYER_IDEAL_RAW_MIPI BPP_12 p) dim = Some (raw_mipi_12bpp dim)"
| "raw_geometry (CAM_FORMAT_BAYER_IDEAL_RAW_PLAIN16 b p) dim = Some (raw_plain16 dim)"
| "raw_geometry _ dim = None"

definition mm_stream_calc_offset_raw ::
  "cam_format_t \<Rightarrow> cam_dimension_t \<Rightarrow> cam_padding_info_t \<Rightarrow> cam_stream_buf_plane_info_t \<Rightarrow>
   int \<times> cam_stream_buf_plane_info_t" where
  "mm_stream_calc_offset_raw fmt dim padding bp =
     (case raw_geometry fmt dim of
        None \<Rightarrow> (-1, bp)
      | Some (stride, bytes) \<Rightarrow> (0, raw_plane stride (dim_height dim) bytes padding bp))"

section \<open>Video and metadata\<close>

definition mm_stream_calc_offset_video_venus ::
  "venus_macros \<Rightarrow> cam_dimension_t \<Rightarrow> cam_stream_buf_plane_info_t \<Rightarrow> int \<times> cam_stream_buf_plane_info_t" where
  "mm_stream_calc_offset_video_venus v dim bp =
     (let stride = VENUS_Y_STRIDE v (dim_width dim);
          scanline = VENUS_Y_SCANLINES v (dim_height dim);
          bp = bp\<lparr>fo_frame_len := VENUS_BUFFER_SIZE v (dim_width dim) (dim_height dim),
            fo_num_planes := 2\<rparr>;
          bp = set_plane 0 \<lparr>mp_len = stride * scanline, mp_offset = 0, mp_offset_x = 0,
            mp_offset_y = 0, mp_stride = stride, mp_scanline = scanline,
            mp_width = dim_width dim, mp_height = dim_height dim\<rparr> bp;
          stride = VENUS_UV_STRIDE v (dim_width dim);
          scanline = VENUS_UV_SCANLINES v (dim_height dim)
      in (0, set_plane 1 \<lparr>mp_len = fo_frame_len bp - len_of bp 0, mp_offset = 0, mp_offset_x = 0,
            mp_offset_y = 0, mp_stride = stride, mp_scanline = scanline,
            mp_width = dim_width dim, mp_height = dim_height dim\<rparr> bp))"

text \<open>
  The variant without Venus; its last two assignments to plane fields go to plane 0, and the
  width and height of plane 1 keep their old values.
\<close>

definition mm_stream_calc_offset_video_plain ::
  "cam_dimension_t \<Rightarrow> cam_stream_buf_plane_info_t \<Rightarrow> int \<times> cam_stream_buf_plane_info_t" where
  "mm_stream_calc_offset_video_plain dim bp =
     (let bp = bp\<lparr>fo_num_planes := 2\<rparr>;
          stride = dim_width dim;
          scanline = dim_height dim;
          bp = set_plane 0 \<lparr>mp_len = PAD_TO_SIZE (stride * scanline) CAM_PAD_TO_2K, mp_offset = 0,
            mp_offset_x = 0, mp_offset_y = 0, mp_stride = stride, mp_scanline = scanline,
            mp_width = dim_width dim, mp_height = dim_height dim\<rparr> bp;
          stride = dim_width dim;
          scanline = c_div (dim_height dim) 2;
          bp = set_plane 1 ((fo_mp bp 1)\<lparr>mp_len := PAD_TO_SIZE (stride * scanline) CAM_PAD_TO_2K,
            mp_offset := 0, mp_offset_x := 0, mp_offset_y := 0, mp_stride := stride,
            mp_scanline := scanline\<rparr>) bp;
          bp = set_plane 0 ((fo_mp bp 0)\<lparr>mp_width := dim_width dim,
            mp_height := c_div (dim_height dim) 2\<rparr>) bp
      in (0, bp\<lparr>fo_frame_len := PAD_TO_SIZE (len_of bp 0 + len_of bp 1) CAM_PAD_TO_4K\<rparr>))"

definition mm_stream_calc_offset_video ::
  "venus_macros option \<Rightarrow> cam_dimension_t \<Rightarrow> cam_stream_buf_plane_info_t \<Rightarrow>
   int \<times> cam_stream_buf_plane_info_t" where
  "mm_stream_calc_offset_video venus dim bp =
     (case venus of
        Some v \<Rightarrow> mm_stream_calc_offset_video_venus v dim bp
      | None \<Rightarrow> mm_stream_calc_offset_video_plain dim bp)"

definition mm_stream_calc_offset_metadata ::
  "cam_dimension_t \<Rightarrow> cam_padding_info_t \<Rightarrow> cam_stream_buf_plane_info_t \<Rightarrow>
   int \<times> cam_stream_buf_plane_info_t" where
  "mm_stream_calc_offset_metadata dim padding bp =
     (let bp = bp\<lparr>fo_num_planes := 1\<rparr>;
          len = PAD_TO_SIZE (dim_width dim * dim_height dim) (plane_padding padding);
          bp = bp\<lparr>fo_frame_len := len\<rparr>
      in (0, set_plane 0 \<lparr>mp_len = len, mp_offset = 0, mp_offset_x = 0, mp_offset_y = 0,
            mp_stride = dim_width dim, mp_scanline = dim_height dim,
            mp_width = dim_width dim, mp_height = dim_height dim\<rparr> bp))"

section \<open>Dispatch on the stream type\<close>

text \<open>The build: the Venus macros and the chip family.\<close>

record build =
  bld_venus :: "venus_macros option"
  bld_a_family :: bool

definition mm_stream_calc_offset_postproc ::
  "build \<Rightarrow> cam_stream_info_t \<Rightarrow> cam_padding_info_t \<Rightarrow> cam_stream_buf_plane_info_t \<Rightarrow>
   int \<times> cam_stream_buf_plane_info_t" where
  "mm_stream_calc_offset_postproc bld si padding bp =
     (case si_reprocess_config si of
        CAM_OFFLINE_REPROCESS_TYPE input_buf_planes \<Rightarrow>
          (0, if fo_frame_len bp = 0 then input_buf_planes else bp)
      | CAM_ONLINE_REPROCESS_TYPE input_stream_type \<Rightarrow>
          (case input_stream_type of
             CAM_STREAM_TYPE_PREVIEW \<Rightarrow>
               mm_stream_calc_offset_preview (bld_venus bld) (si_fmt si) (si_dim si) bp
           | CAM_STREAM_TYPE_POSTVIEW \<Rightarrow>
               mm_stream_calc_offset_post_view (bld_venus bld) (si_fmt si) (si_dim si) bp
           | CAM_STREAM_TYPE_SNAPSHOT \<Rightarrow>
               mm_stream_calc_offset_snapshot (bld_a_family bld) (si_fmt si) (si_dim si) padding bp
           | CAM_STREAM_TYPE_VIDEO \<Rightarrow> mm_stream_calc_offset_video (bld_venus bld) (si_dim si) bp
           | CAM_STREAM_TYPE_RAW \<Rightarrow> mm_stream_calc_offset_raw (si_fmt si) (si_dim si) padding bp
           | CAM_STREAM_TYPE_METADATA \<Rightarrow> mm_stream_calc_offset_metadata (si_dim si) padding bp
           | _ \<Rightarrow> (-1, bp)))"

text \<open>The dimension after the rotation of \<^verbatim>\<open>mm_stream_calc_offset\<close>.\<close>

definition rotated_dim :: "cam_stream_info_t \<Rightarrow> cam_dimension_t" where
  "rotated_dim si =
     (if feature_mask (si_pp_config si) AND CAM_QCOM_FEATURE_ROTATION \<noteq> 0 \<and>
         (rotation (si_pp_config si) = ROTATE_90 \<or> rotation (si_pp_config si) = ROTATE_270)
      then \<lparr>dim_width = dim_height (si_dim si), dim_height = dim_width (si_dim si)\<rparr>
      else si_dim si)"

text \<open>
  \<^verbatim>\<open>mm_stream_calc_offset\<close> on the stream information; the last assignment of the function, the
  copy into \<^verbatim>\<open>frame_offset\<close>, is made by its caller in theory \<^verbatim>\<open>Stream\<close>.
\<close>

definition calc_offset ::
  "build \<Rightarrow> cam_padding_info_t \<Rightarrow> cam_stream_info_t \<Rightarrow> int \<times> cam_stream_info_t" where
  "calc_offset bld padding si =
     (let dim = rotated_dim si;
          bp = si_buf_planes si;
          (rc, bp) = (case si_stream_type si of
             CAM_STREAM_TYPE_PREVIEW \<Rightarrow> mm_stream_calc_offset_preview (bld_venus bld) (si_fmt si) dim bp
           | CAM_STREAM_TYPE_POSTVIEW \<Rightarrow> mm_stream_calc_offset_preview (bld_venus bld) (si_fmt si) dim bp
           | CAM_STREAM_TYPE_SNAPSHOT \<Rightarrow>
               mm_stream_calc_offset_snapshot (bld_a_family bld) (si_fmt si) dim padding bp
           | CAM_STREAM_TYPE_OFFLINE_PROC \<Rightarrow> mm_stream_calc_offset_postproc bld si padding bp
           | CAM_STREAM_TYPE_VIDEO \<Rightarrow> mm_stream_calc_offset_video (bld_venus bld) dim bp
           | CAM_STREAM_TYPE_RAW \<Rightarrow> mm_stream_calc_offset_raw (si_fmt si) dim padding bp
           | CAM_STREAM_TYPE_METADATA \<Rightarrow> mm_stream_calc_offset_metadata dim padding bp
           | _ \<Rightarrow> (-1, bp))
      in (rc, si\<lparr>si_buf_planes := bp\<rparr>))"

section \<open>Arithmetic without wrap-around\<close>

text \<open>Rounding up on natural numbers.\<close>

definition padn :: "nat \<Rightarrow> nat \<Rightarrow> nat" where
  "padn x n = (x + n - 1) div n * n"

lemma padn_bounds:
  assumes "0 < n"
  shows "x \<le> padn x n" and "padn x n < x + n" and "n dvd padn x n"
proof -
  have *: "(x + n - 1) div n * n + (x + n - 1) mod n = x + n - 1" by simp
  have "(x + n - 1) mod n < n" using assms by simp
  with * assms show "x \<le> padn x n" "padn x n < x + n" unfolding padn_def by linarith+
  show "n dvd padn x n" by (simp add: padn_def)
qed

lemma padn_least:
  assumes "0 < n" and "n dvd m" and "x \<le> m"
  shows "padn x n \<le> m"
proof -
  obtain k where m: "m = n * k" using assms(2) by (auto simp: dvd_def)
  have "n * ((x + n - 1) div n) < n * (k + 1)"
    using padn_bounds(2) [OF assms(1), of x] assms(3) by (simp add: m padn_def mult.commute)
  then have "(x + n - 1) div n \<le> k"
    by (metis Suc_eq_plus1 less_Suc_eq_le mult_less_cancel1)
  then show ?thesis by (simp add: m padn_def mult.commute)
qed

lemma and_not_mask: "(y :: 'a::len word) AND NOT (mask k) = y - take_bit k y"
proof -
  have "(y AND NOT (mask k)) + (y AND mask k) = (y AND NOT (mask k)) OR (y AND mask k)"
    by (rule disjunctive_add_eq_or) (simp add: bit_eq_iff bit_simps)
  also have "\<dots> = y" by (simp add: bit_eq_iff bit_simps) blast
  finally show ?thesis by (simp add: take_bit_eq_mask algebra_simps)
qed

lemma unat_and_not_mask: "unat ((y :: 'a::len word) AND NOT (mask k)) = unat y div 2 ^ k * 2 ^ k"
proof -
  have t: "unat (take_bit k y) = unat y mod 2 ^ k"
    by (simp only: unsigned_take_bit_eq) (simp add: take_bit_eq_mod)
  then have "take_bit k y \<le> y" by (simp add: word_le_nat_alt)
  then have "unat (y AND NOT (mask k)) = unat y - unat y mod 2 ^ k"
    by (simp add: and_not_mask unat_sub t)
  then show ?thesis by (simp add: minus_mod_eq_div_mult)
qed

lemma unat_2p:
  assumes "k < 32"
  shows "unat ((2 :: uint32_t) ^ k) = 2 ^ k"
proof -
  have "(2 :: nat) ^ k < 2 ^ 32" using assms by (rule power_strict_increasing) simp
  moreover have "unat (of_nat (2 ^ k) :: uint32_t) = 2 ^ k mod 2 ^ 32"
    by (simp only: unsigned_of_nat take_bit_eq_mod) simp
  ultimately show ?thesis by simp
qed

text \<open>Padding to a power of two is rounding up, as long as the sum stays below \<open>2 ^ 32\<close>.\<close>

lemma pad_unat:
  fixes x :: uint32_t
  assumes "k < 32" and "unat x + 2 ^ k \<le> 2 ^ 32"
  shows "unat (PAD_TO_SIZE x (2 ^ k)) = padn (unat x) (2 ^ k)"
proof -
  have m: "(2 :: uint32_t) ^ k - 1 = mask k" by (simp add: mask_eq_exp_minus_1)
  have one: "1 \<le> (2 :: nat) ^ k" by simp
  have nz: "(2 :: uint32_t) ^ k \<noteq> 0"
  proof
    assume "(2 :: uint32_t) ^ k = 0"
    then have "(2 :: nat) ^ k = 0" using unat_2p [OF assms(1)] by (simp only: unat_0)
    then show False by simp
  qed
  have p: "unat (mask k :: uint32_t) = 2 ^ k - 1"
    using unat_minus_one [OF nz] unat_2p [OF assms(1)] m by simp
  have "unat x + unat (mask k :: uint32_t) < 2 ^ 32"
    unfolding p using assms(2) one by linarith
  then have "unat (x + mask k) = unat x + (2 ^ k - 1)"
    unfolding unat_word_ariths p by simp
  moreover have "x + 2 ^ k - 1 = x + mask k" using m by (simp only: add_diff_eq [symmetric])
  ultimately have "unat (PAD_TO_SIZE x (2 ^ k)) = (unat x + (2 ^ k - 1)) div 2 ^ k * 2 ^ k"
    unfolding PAD_TO_SIZE_def m by (simp only: unat_and_not_mask)
  then show ?thesis
    using one by (simp only: padn_def add_diff_assoc)
qed

lemma pad_fact:
  assumes "k \<le> 12" and "unat (x :: uint32_t) \<le> 2 ^ 31"
  shows "unat x \<le> unat (PAD_TO_SIZE x (2 ^ k))" and "unat (PAD_TO_SIZE x (2 ^ k)) < unat x + 2 ^ k"
    and "2 ^ k dvd unat (PAD_TO_SIZE x (2 ^ k))"
proof -
  have "(2 :: nat) ^ k \<le> 2 ^ 12" using assms(1) by (rule power_increasing) simp
  then have "unat (PAD_TO_SIZE x (2 ^ k)) = padn (unat x) (2 ^ k)"
    using assms by (intro pad_unat) simp_all
  then show "unat x \<le> unat (PAD_TO_SIZE x (2 ^ k))" and "unat (PAD_TO_SIZE x (2 ^ k)) < unat x + 2 ^ k"
    and "2 ^ k dvd unat (PAD_TO_SIZE x (2 ^ k))"
    using padn_bounds [of "2 ^ k" "unat x"] by simp_all
qed

lemmas pad_2 = pad_fact(1,2) [of 1, simplified]
lemmas pad_8 = pad_fact(1,2) [of 3, simplified]
lemmas pad_16 = pad_fact(1,2) [of 4, simplified]
lemmas pad_32 = pad_fact(1,2) [of 5, simplified]
lemmas pad_64 = pad_fact(1,2) [of 6, simplified]
lemmas pad_2k = pad_fact(1,2) [of 11, simplified]
lemmas pad_4k = pad_fact [of 12, simplified]

lemma mult_fact:
  assumes "unat (x :: uint32_t) \<le> 16384" and "unat (y :: uint32_t) \<le> 16384"
  shows "unat (x * y) = unat x * unat y" and "unat x * unat y \<le> 268435456"
proof -
  have "unat x * unat y \<le> 16384 * 16384" using assms by (rule mult_le_mono)
  then show "unat x * unat y \<le> 268435456" by simp
  then show "unat (x * y) = unat x * unat y" by (simp add: unat_word_ariths)
qed

lemma c_div_fact:
  assumes "unat x \<le> 1073741824" and "0 < n"
  shows "unat (c_div x (int n)) = unat x div n"
proof -
  have "int (unat x) \<le> 1073741824" using assms(1) by linarith
  then have "uint x \<le> 1073741824" by (simp only: of_nat_unat)
  then have "sint x = uint x"
    unfolding sint_uint
    by (intro signed_take_bit_int_eq_self) (simp_all add: order_trans [of _ 0])
  then have "c_div x (int n) = word_of_int (int (unat x div n))"
    by (simp add: c_div_def zdiv_int of_nat_unat)
  moreover have "unat x div n < 4294967296"
    using assms(1) div_le_dividend [of "unat x" n] by linarith
  ultimately show ?thesis
    by (simp add: unsigned_of_nat take_bit_eq_mod)
qed

lemmas c_div_2 = c_div_fact [of _ 2, simplified]

text \<open>A plane has room for all its lines; its size is far from the limits of 32 bits.\<close>

definition plane_ok :: "cam_mp_len_offset_t \<Rightarrow> bool" where
  "plane_ok p \<longleftrightarrow> unat (mp_width p) \<le> unat (mp_stride p) \<and> unat (mp_height p) \<le> unat (mp_scanline p) \<and>
     unat (mp_stride p) * unat (mp_scanline p) \<le> unat (mp_len p) \<and> unat (mp_len p) \<le> 2 ^ 28 + 4096"

text \<open>The frame is page aligned and holds its planes one after the other, with less than a page lost.\<close>

definition layout_ok :: "nat \<Rightarrow> cam_frame_len_offset_t \<Rightarrow> bool" where
  "layout_ok n bp \<longleftrightarrow> fo_num_planes bp = int n \<and> (\<forall>i<n. plane_ok (fo_mp bp i)) \<and>
     (\<Sum>i<n. unat (mp_len (fo_mp bp i))) \<le> unat (fo_frame_len bp) \<and>
     unat (fo_frame_len bp) < (\<Sum>i<n. unat (mp_len (fo_mp bp i))) + 4096 \<and>
     4096 dvd unat (fo_frame_len bp)"

lemma plane_ok_mult:
  assumes "mp_len p = mp_stride p * mp_scanline p"
    and "unat (mp_stride p) \<le> 16384" and "unat (mp_scanline p) \<le> 16384"
    and "unat (mp_width p) \<le> unat (mp_stride p)" and "unat (mp_height p) \<le> unat (mp_scanline p)"
  shows "plane_ok p"
  using assms mult_fact [OF assms(2,3)] by (simp add: plane_ok_def)

lemma plane_ok_pad:
  assumes "mp_len p = PAD_TO_SIZE (mp_stride p * mp_scanline p) (2 ^ k)" and "k \<le> 12"
    and "unat (mp_stride p) \<le> 16384" and "unat (mp_scanline p) \<le> 16384"
    and "unat (mp_width p) \<le> unat (mp_stride p)" and "unat (mp_height p) \<le> unat (mp_scanline p)"
  shows "plane_ok p"
proof -
  note m = mult_fact [OF assms(3,4)]
  have "(2 :: nat) ^ k \<le> 2 ^ 12" using assms(2) by (rule power_increasing) simp
  moreover note pad_fact [OF assms(2), of "mp_stride p * mp_scanline p"]
  ultimately show ?thesis
    using assms(1,5,6) m by (simp add: plane_ok_def)
qed

lemma bounded_planes:
  "(\<Sum>i<2. f i) = f 0 + f (1 :: nat)" "(\<Sum>i<3. f i) = f 0 + f 1 + f (2 :: nat)"
  "(\<forall>i<2. P i) \<longleftrightarrow> P 0 \<and> P (1 :: nat)" "(\<forall>i<3. P i) \<longleftrightarrow> P 0 \<and> P 1 \<and> P (2 :: nat)"
  for f :: "nat \<Rightarrow> nat"
  by (simp_all add: numeral_2_eq_2 numeral_3_eq_3 All_less_Suc ac_simps)

lemma unat_add_fact:
  assumes "unat (x :: uint32_t) + unat y \<le> 2147483648"
  shows "unat (x + y) = unat x + unat y"
  using assms by (simp add: unat_word_ariths)

lemma layout_ok_2:
  assumes "fo_num_planes bp = 2" and "plane_ok (fo_mp bp 0)" and "plane_ok (fo_mp bp 1)"
    and "fo_frame_len bp = PAD_TO_SIZE (mp_len (fo_mp bp 0) + mp_len (fo_mp bp 1)) 4096"
  shows "layout_ok 2 bp"
proof -
  let ?l0 = "mp_len (fo_mp bp 0)" and ?l1 = "mp_len (fo_mp bp 1)"
  have "unat ?l0 + unat ?l1 \<le> 2147483648"
    using assms(2,3) by (simp add: plane_ok_def)
  moreover from this have "unat (?l0 + ?l1) = unat ?l0 + unat ?l1" by (rule unat_add_fact)
  ultimately show ?thesis
    using assms pad_4k [of "?l0 + ?l1"] unfolding layout_ok_def bounded_planes by simp
qed

lemma layout_ok_3:
  assumes "fo_num_planes bp = 3"
    and "plane_ok (fo_mp bp 0)" and "plane_ok (fo_mp bp 1)" and "plane_ok (fo_mp bp 2)"
    and "fo_frame_len bp =
      PAD_TO_SIZE (mp_len (fo_mp bp 0) + mp_len (fo_mp bp 1) + mp_len (fo_mp bp 2)) 4096"
  shows "layout_ok 3 bp"
proof -
  let ?l0 = "mp_len (fo_mp bp 0)" and ?l1 = "mp_len (fo_mp bp 1)" and ?l2 = "mp_len (fo_mp bp 2)"
  have le: "unat ?l0 + unat ?l1 + unat ?l2 \<le> 2147483648"
    using assms(2-4) by (simp add: plane_ok_def)
  have "unat (?l0 + ?l1) = unat ?l0 + unat ?l1" by (rule unat_add_fact) (use le in simp)
  moreover from this have "unat (?l0 + ?l1 + ?l2) = unat ?l0 + unat ?l1 + unat ?l2"
    using le unat_add_fact [of "?l0 + ?l1" ?l2] by simp
  ultimately show ?thesis
    using assms le pad_4k [of "?l0 + ?l1 + ?l2"] unfolding layout_ok_def bounded_planes by simp
qed

text \<open>Images of up to 8192 by 8192 pixels.\<close>

definition small_dim :: "cam_dimension_t \<Rightarrow> bool" where
  "small_dim dim \<longleftrightarrow> unat (dim_width dim) \<le> 8192 \<and> unat (dim_height dim) \<le> 8192"

lemma small_dimD:
  assumes "small_dim dim"
  shows "unat (dim_width dim) \<le> 8192" "unat (dim_height dim) \<le> 8192"
    "unat (c_div (dim_width dim) 2) = unat (dim_width dim) div 2"
    "unat (c_div (dim_height dim) 2) = unat (dim_height dim) div 2"
    "unat (dim_width dim) div 2 \<le> 4096" "unat (dim_height dim) div 2 \<le> 4096"
  using assms unfolding small_dim_def by (simp_all add: c_div_2)  linarith+

lemma preview_nv12_ok:
  assumes "small_dim dim"
  shows "layout_ok 2 (preview_nv12 dim bp)"
proof -
  note d = small_dimD [OF assms]
  note p = pad_16 [of "dim_width dim"] pad_2 [of "dim_height dim"] pad_2 [of "c_div (dim_height dim) 2"]
  show ?thesis
    unfolding preview_nv12_def set_plane_def Let_def
    by (rule layout_ok_2; (rule plane_ok_mult)?; use d p in simp)
qed

lemma post_view_nv12_ok:
  assumes "small_dim dim"
  shows "layout_ok 2 (post_view_nv12 dim bp)"
proof -
  note d = small_dimD [OF assms]
  note p = pad_64 [of "dim_width dim"] pad_64 [of "dim_height dim"] pad_64 [of "c_div (dim_height dim) 2"]
  show ?thesis
    unfolding post_view_nv12_def set_plane_def Let_def
    by (rule layout_ok_2; (rule plane_ok_mult)?; use d p in simp)
qed

lemma preview_adreno_ok:
  assumes "small_dim dim" and "even (unat (dim_width dim))"
  shows "layout_ok 2 (preview_adreno dim bp)"
proof -
  note d = small_dimD [OF assms(1)]
  note p = pad_32 [of "dim_width dim"] pad_32 [of "dim_height dim"]
    pad_32 [of "c_div (dim_width dim) 2"] pad_32 [of "c_div (dim_height dim) 2"]
  let ?s = "PAD_TO_SIZE (c_div (dim_width dim) 2) 32"
  have "unat ?s \<le> 4127" using d p by simp
  then have s: "unat (?s * 2) = unat ?s * 2" by (simp add: unat_word_ariths)
  have w: "unat (dim_width dim) = unat (dim_width dim) div 2 * 2" using assms(2) by simp
  show ?thesis
    unfolding preview_adreno_def set_plane_def Let_def
    by (rule layout_ok_2; (rule plane_ok_pad [of _ 12])?; use d p s w in simp)
qed

lemma preview_nv16_ok:
  assumes "small_dim dim"
  shows "layout_ok 2 (preview_nv16 dim bp)"
proof -
  note d = small_dimD [OF assms]
  note p = pad_16 [of "dim_width dim"]
  show ?thesis
    unfolding preview_nv16_def set_plane_def Let_def
    by (rule layout_ok_2; (rule plane_ok_mult)?; use d p in simp)
qed

lemma preview_yv12_ok:
  assumes "small_dim dim"
  shows "layout_ok 3 (preview_yv12 dim bp)"
proof -
  note d = small_dimD [OF assms]
  let ?s = "PAD_TO_SIZE (dim_width dim) 16" and ?c = "PAD_TO_SIZE (dim_height dim) 2"
  note p = pad_16 [of "dim_width dim"] pad_2 [of "dim_height dim"]
  have s: "unat ?s \<le> 8207" "unat ?c \<le> 8193" using d p by simp_all
  then have h: "unat (c_div ?s 2) = unat ?s div 2" "unat (c_div ?c 2) = unat ?c div 2"
    by (simp_all add: c_div_2)
  have m: "unat (dim_width dim) div 2 \<le> unat ?s div 2" "unat (dim_height dim) div 2 \<le> unat ?c div 2"
    "unat ?s div 2 \<le> 4103" "unat ?c div 2 \<le> 4096"
    using d p s by (simp_all add: div_le_mono)
  note q = pad_16 [of "c_div ?s 2"]
  show ?thesis
    unfolding preview_yv12_def set_plane_def Let_def
    by (rule layout_ok_3; (rule plane_ok_mult)?; use d p s h m q in simp)
qed

text \<open>The other post view cases are the code of the preview cases again.\<close>

lemma post_view_same:
  "post_view_adreno = preview_adreno" "post_view_yv12 = preview_yv12"
  "post_view_nv16 = preview_nv16" "post_view_venus = preview_venus"
  by (simp_all add: fun_eq_iff post_view_adreno_def preview_adreno_def post_view_yv12_def
      preview_yv12_def post_view_nv16_def preview_nv16_def post_view_venus_def preview_venus_def)

section \<open>Snapshot layouts\<close>

text \<open>The padding the camera reports: powers of two of at most a page.\<close>

definition padding_ok :: "cam_padding_info_t \<Rightarrow> bool" where
  "padding_ok padding \<longleftrightarrow> (\<exists>i j k. i \<le> 12 \<and> j \<le> 12 \<and> k \<le> 12 \<and> width_padding padding = 2 ^ i \<and>
     height_padding padding = 2 ^ j \<and> plane_padding padding = 2 ^ k)"

lemma snapshot_base_ok:
  assumes "small_dim dim" and "padding_ok padding"
    and "snapshot_base a_family dim padding = (stride, scanline, ox, oy)"
  shows "unat (dim_width dim) \<le> unat stride" and "unat stride \<le> 16384"
    and "unat (dim_height dim) \<le> unat scanline" and "unat scanline \<le> 16384"
proof -
  note d = small_dimD [OF assms(1)]
  obtain i j where ij: "i \<le> 12" "j \<le> 12" "width_padding padding = 2 ^ i" "height_padding padding = 2 ^ j"
    using assms(2) by (auto simp: padding_ok_def)
  have le: "(2 :: nat) ^ i \<le> 2 ^ 12" "(2 :: nat) ^ j \<le> 2 ^ 12"
    using power_increasing [OF ij(1), of "2 :: nat"] power_increasing [OF ij(2), of "2 :: nat"] by simp_all
  note w = pad_fact(1,2) [OF ij(1), of "dim_width dim"] and h = pad_fact(1,2) [OF ij(2), of "dim_height dim"]
  note a = pad_16 [of "dim_height dim"]
  let ?c = "PAD_TO_SIZE (dim_height dim) 16"
  have c: "unat ?c \<le> 8207" "unat (dim_height dim) \<le> unat ?c" using d a by simp_all
  then have y: "unat (?c - dim_height dim) = unat ?c - unat (dim_height dim)"
    by (intro unat_sub) (simp add: word_le_nat_alt)
  then have cc: "unat (?c + (?c - dim_height dim)) = unat ?c + (unat ?c - unat (dim_height dim))"
    using c unat_add_fact [of ?c "?c - dim_height dim"] by simp
  have "unat (dim_width dim) \<le> unat stride \<and> unat stride \<le> 16384 \<and>
      unat (dim_height dim) \<le> unat scanline \<and> unat scanline \<le> 16384"
  proof (cases a_family)
    case True
    then have "stride = dim_width dim" and sc: "scanline = ?c + (?c - dim_height dim)"
      using assms(3) by (auto simp: snapshot_base_def Let_def)
    moreover have "unat (dim_height dim) \<le> unat scanline \<and> unat scanline \<le> 16384"
      unfolding sc cc using c d(1,2) a by (intro conjI; linarith)
    ultimately show ?thesis using d by simp
  next
    case False
    then show ?thesis
      using assms(3) d(1,2) w h le ij by (simp add: snapshot_base_def)
  qed
  then show "unat (dim_width dim) \<le> unat stride" and "unat stride \<le> 16384"
    and "unat (dim_height dim) \<le> unat scanline" and "unat scanline \<le> 16384"
    by simp_all
qed

lemma half_scanline:
  assumes "unat scanline \<le> 16384" and "unat (dim_height dim) \<le> unat scanline" and "small_dim dim"
  shows "unat (c_div scanline 2) \<le> 16384" and "unat (c_div (dim_height dim) 2) \<le> unat (c_div scanline 2)"
  using assms(1,2) small_dimD [OF assms(3)] by (simp_all add: c_div_2 div_le_mono)

lemma snapshot_ok:
  assumes dim: "small_dim dim" and pad: "padding_ok padding"
  shows "layout_ok 2 (snapshot_nv12 (snapshot_base a_family dim padding) dim padding bp)"
    and "layout_ok 2 (snapshot_nv16 (snapshot_base a_family dim padding) dim padding bp)"
    and "layout_ok 3 (snapshot_yv12 (snapshot_base a_family dim padding) dim padding bp)"
proof -
  obtain stride scanline ox oy where b: "snapshot_base a_family dim padding = (stride, scanline, ox, oy)"
    by (metis prod_cases4)
  note s = snapshot_base_ok [OF dim pad b]
  note h = half_scanline [OF s(4,3) dim]
  obtain k where k: "k \<le> 12" "plane_padding padding = 2 ^ k"
    using pad by (auto simp: padding_ok_def)
  show "layout_ok 2 (snapshot_nv12 (snapshot_base a_family dim padding) dim padding bp)"
    unfolding b snapshot_nv12_def set_plane_def Let_def prod.case
    by (rule layout_ok_2; (rule plane_ok_pad [of _ k])?; use s h k in simp)
  show "layout_ok 2 (snapshot_nv16 (snapshot_base a_family dim padding) dim padding bp)"
    unfolding b snapshot_nv16_def set_plane_def Let_def prod.case
    by (rule layout_ok_2; (rule plane_ok_pad [of _ k])?; use s k in simp)
  have hs: "unat (c_div stride 2) = unat stride div 2" using s(2) by (simp add: c_div_2)
  have m: "unat (c_div (dim_width dim) 2) \<le> unat (c_div stride 2)" "unat (c_div stride 2) \<le> 8192"
    using hs s(1,2) small_dimD [OF dim] by (simp_all add: div_le_mono)
  note p = pad_16 [of "c_div stride 2"]
  show "layout_ok 3 (snapshot_yv12 (snapshot_base a_family dim padding) dim padding bp)"
    unfolding b snapshot_yv12_def set_plane_def Let_def prod.case
    by (rule layout_ok_3; (rule plane_ok_pad [of _ k])?; use s h k m p in simp)
qed

section \<open>Raw layouts\<close>

text \<open>Bits of a pixel in a raw format.\<close>

fun raw_bits :: "cam_format_t \<Rightarrow> nat" where
  "raw_bits (CAM_FORMAT_BAYER_QCOM_RAW BPP_8 p) = 8"
| "raw_bits (CAM_FORMAT_BAYER_MIPI_RAW BPP_8 p) = 8"
| "raw_bits (CAM_FORMAT_BAYER_IDEAL_RAW_QCOM BPP_8 p) = 8"
| "raw_bits (CAM_FORMAT_BAYER_IDEAL_RAW_MIPI BPP_8 p) = 8"
| "raw_bits (CAM_FORMAT_BAYER_IDEAL_RAW_PLAIN8_8BPP p) = 8"
| "raw_bits (CAM_FORMAT_BAYER_QCOM_RAW BPP_10 p) = 10"
| "raw_bits (CAM_FORMAT_BAYER_IDEAL_RAW_QCOM BPP_10 p) = 10"
| "raw_bits (CAM_FORMAT_BAYER_MIPI_RAW BPP_10 p) = 10"
| "raw_bits (CAM_FORMAT_BAYER_IDEAL_RAW_MIPI BPP_10 p) = 10"
| "raw_bits (CAM_FORMAT_BAYER_QCOM_RAW BPP_12 p) = 12"
| "raw_bits (CAM_FORMAT_BAYER_IDEAL_RAW_QCOM BPP_12 p) = 12"
| "raw_bits (CAM_FORMAT_BAYER_MIPI_RAW BPP_12 p) = 12"
| "raw_bits (CAM_FORMAT_BAYER_IDEAL_RAW_MIPI BPP_12 p) = 12"
| "raw_bits _ = 16"

text \<open>The MIPI 10 bit formats pack four pixels into five bytes.\<close>

fun mipi_10 :: "cam_format_t \<Rightarrow> bool" where
  "mipi_10 (CAM_FORMAT_BAYER_MIPI_RAW BPP_10 p) = True"
| "mipi_10 (CAM_FORMAT_BAYER_IDEAL_RAW_MIPI BPP_10 p) = True"
| "mipi_10 _ = False"

lemma mult_le_16384:
  assumes "unat (s :: uint32_t) \<le> 16384" and "unat (h :: uint32_t) \<le> 8192"
  shows "unat (s * h) = unat s * unat h" and "unat s * unat h \<le> 134217728"
  using mult_fact(1) [of s h] mult_le_mono [OF assms] assms by simp_all

lemma scale_fact:
  assumes "unat (x :: uint32_t) \<le> 134217728"
  shows "unat (x * 2) = unat x * 2" and "unat (x * 3) = unat x * 3" and "unat (x * 8) = unat x * 8"
  using assms by (simp_all add: unat_word_ariths)

lemma raw_bytes_scaled:
  assumes "unat (s :: uint32_t) \<le> 16384" and "unat (h :: uint32_t) \<le> 8192"
  shows "unat (s * h * 2) = unat s * unat h * 2" and "unat (s * h * 3) = unat s * unat h * 3"
    and "unat (s * h * 8) = unat s * unat h * 8"
  using mult_le_16384 [OF assms] scale_fact [of "s * h"] by presburger+

lemma raw_8_ok:
  assumes "small_dim dim"
  shows "16 * (unat (dim_width dim) * unat (dim_height dim)) \<le> 8 * unat (snd (raw_yuv dim))"
    and "8 * (unat (dim_width dim) * unat (dim_height dim)) \<le> 8 * unat (snd (raw_8bpp dim))"
    and "16 * (unat (dim_width dim) * unat (dim_height dim)) \<le> 8 * unat (snd (raw_plain16 dim))"
    and "unat (snd (raw_yuv dim)) \<le> 1073741824" and "unat (snd (raw_8bpp dim)) \<le> 1073741824"
    and "unat (snd (raw_plain16 dim)) \<le> 1073741824"
proof -
  note d = small_dimD [OF assms]
  note p = pad_16 [of "dim_width dim"] pad_8 [of "dim_width dim"]
  let ?s = "PAD_TO_SIZE (dim_width dim) 16" and ?t = "PAD_TO_SIZE (dim_width dim) 8"
  let ?w = "unat (dim_width dim)" and ?h = "unat (dim_height dim)"
  have b: "unat ?s \<le> 16384" "unat ?t \<le> 16384" using d p by simp_all
  note s = mult_le_16384 [OF b(1) d(2)] raw_bytes_scaled(1) [OF b(1) d(2)]
  note t = mult_le_16384 [OF b(2) d(2)] raw_bytes_scaled(1) [OF b(2) d(2)]
  have m: "?w * ?h \<le> unat ?s * ?h" "?w * ?h \<le> unat ?t * ?h"
    by (rule mult_le_mono1, use d p in simp)+
  show "16 * (?w * ?h) \<le> 8 * unat (snd (raw_yuv dim))" "8 * (?w * ?h) \<le> 8 * unat (snd (raw_8bpp dim))"
    "16 * (?w * ?h) \<le> 8 * unat (snd (raw_plain16 dim))"
    "unat (snd (raw_yuv dim)) \<le> 1073741824" "unat (snd (raw_8bpp dim)) \<le> 1073741824"
    "unat (snd (raw_plain16 dim)) \<le> 1073741824"
    unfolding raw_yuv_def raw_8bpp_def raw_plain16_def Let_def snd_conv s(1,3) t(1,3)
    using s(2) t(2) m by linarith+
qed

lemma qcom_stride:
  assumes "unat w \<le> 8192" and "0 < n" and "n \<le> 12"
  shows "unat (c_div (w + of_nat (n - 1)) (int n) * of_nat n) = padn (unat w) n"
proof -
  have n: "unat (of_nat (n - 1) :: uint32_t) = n - 1" "unat (of_nat n :: uint32_t) = n"
    using assms(3) by (simp_all add: unsigned_of_nat take_bit_eq_mod)
  have "unat (w + of_nat (n - 1)) = unat w + (n - 1)"
    using unat_add_fact [of w "of_nat (n - 1)"] n assms by simp
  then have "unat (c_div (w + of_nat (n - 1)) (int n)) = (unat w + (n - 1)) div n"
    using c_div_fact [of "w + of_nat (n - 1)" n] assms by simp
  moreover have "(unat w + (n - 1)) div n * n \<le> 8203"
    using div_times_less_eq_dividend [of "unat w + (n - 1)" n] assms by linarith
  ultimately show ?thesis
    using n assms by (simp add: unat_word_ariths padn_def)
qed

lemma raw_qcom_ok:
  assumes "small_dim dim"
  shows "10 * (unat (dim_width dim) * unat (dim_height dim)) \<le> 8 * unat (snd (raw_qcom_10bpp dim))"
    and "12 * (unat (dim_width dim) * unat (dim_height dim)) \<le> 8 * unat (snd (raw_qcom_12bpp dim))"
    and "unat (snd (raw_qcom_10bpp dim)) \<le> 1073741824" and "unat (snd (raw_qcom_12bpp dim)) \<le> 1073741824"
proof -
  note d = small_dimD [OF assms]
  let ?w = "unat (dim_width dim)" and ?h = "unat (dim_height dim)"
  define s t where "s = c_div (dim_width dim + 11) 12 * 12" and "t = c_div (dim_width dim + 9) 10 * 10"
  have st: "unat s = padn ?w 12" "unat t = padn ?w 10"
    using qcom_stride [OF d(1), of 12] qcom_stride [OF d(1), of 10] by (simp_all add: s_def t_def)
  obtain a b where ab: "unat s = 12 * a" "unat t = 10 * b"
    using padn_bounds(3) [of 12 ?w] padn_bounds(3) [of 10 ?w] st by (auto simp: dvd_def)
  have le: "?w \<le> 12 * a" "?w \<le> 10 * b" "unat s \<le> 16384" "unat t \<le> 16384"
    using padn_bounds(1,2) [of 12 ?w] padn_bounds(1,2) [of 10 ?w] st ab d(1) by simp_all
  have m: "?w * ?h \<le> 12 * (a * ?h)" "?w * ?h \<le> 10 * (b * ?h)"
    using mult_le_mono1 [OF le(1), of ?h] mult_le_mono1 [OF le(2), of ?h] by (simp_all add: ac_simps)
  have x: "unat (s * dim_height dim * 8) = 96 * (a * ?h)" "unat (t * dim_height dim * 8) = 80 * (b * ?h)"
    "12 * (a * ?h) \<le> 134217728" "10 * (b * ?h) \<le> 134217728"
    using raw_bytes_scaled(3) [OF le(3) d(2)] raw_bytes_scaled(3) [OF le(4) d(2)]
      mult_le_16384(2) [OF le(3) d(2)] mult_le_16384(2) [OF le(4) d(2)] ab by simp_all
  have "unat (c_div (s * dim_height dim * 8) 6) = 16 * (a * ?h)"
    using c_div_fact [of "s * dim_height dim * 8" 6] x by simp
  moreover have "unat (c_div (t * dim_height dim * 8) 5) = 16 * (b * ?h)"
    using c_div_fact [of "t * dim_height dim * 8" 5] x by simp
  ultimately show "10 * (?w * ?h) \<le> 8 * unat (snd (raw_qcom_10bpp dim))"
    "12 * (?w * ?h) \<le> 8 * unat (snd (raw_qcom_12bpp dim))"
    "unat (snd (raw_qcom_10bpp dim)) \<le> 1073741824" "unat (snd (raw_qcom_12bpp dim)) \<le> 1073741824"
    unfolding raw_qcom_10bpp_def raw_qcom_12bpp_def Let_def snd_conv s_def [symmetric] t_def [symmetric]
    using m x(3,4) by linarith+
qed


lemma raw_mipi_12_ok:
  assumes "small_dim dim"
  shows "12 * (unat (dim_width dim) * unat (dim_height dim)) \<le> 8 * unat (snd (raw_mipi_12bpp dim))"
    and "unat (snd (raw_mipi_12bpp dim)) \<le> 1073741824"
proof -
  note d = small_dimD [OF assms]
  let ?w = "unat (dim_width dim)" and ?h = "unat (dim_height dim)"
  define s where "s = PAD_TO_SIZE (dim_width dim) 32"
  have le: "?w \<le> unat s" "unat s \<le> 16384" using d pad_32 [of "dim_width dim"] by (simp_all add: s_def)
  have "32 dvd unat s" using d pad_fact(3) [of 5 "dim_width dim"] by (simp add: s_def)
  then obtain a where a: "unat s = 32 * a" by (auto simp: dvd_def)
  have m: "?w * ?h \<le> 32 * (a * ?h)"
    using mult_le_mono1 [OF le(1), of ?h] a by (simp add: ac_simps)
  have x: "unat (s * dim_height dim * 3) = 96 * (a * ?h)" "32 * (a * ?h) \<le> 134217728"
    using raw_bytes_scaled(2) [OF le(2) d(2)] mult_le_16384(2) [OF le(2) d(2)] a by simp_all
  have "unat (c_div (s * dim_height dim * 3) 2) = 48 * (a * ?h)"
    using c_div_fact [of "s * dim_height dim * 3" 2] x by simp
  then show "12 * (?w * ?h) \<le> 8 * unat (snd (raw_mipi_12bpp dim))"
    "unat (snd (raw_mipi_12bpp dim)) \<le> 1073741824"
    unfolding raw_mipi_12bpp_def Let_def snd_conv s_def [symmetric] using m x(2) by linarith+
qed

lemma raw_mipi_10_ok:
  assumes "small_dim dim"
  shows "4 dvd unat (dim_width dim) \<Longrightarrow>
      10 * (unat (dim_width dim) * unat (dim_height dim)) \<le> 8 * unat (snd (raw_mipi_10bpp dim))"
    and "unat (snd (raw_mipi_10bpp dim)) \<le> 1073741824"
proof -
  note d = small_dimD [OF assms]
  let ?w = "unat (dim_width dim)" and ?h = "unat (dim_height dim)"
  have "unat (dim_width dim * 5) = ?w * 5" using d(1) by (simp add: unat_word_ariths)
  then have q: "unat (c_div (dim_width dim * 5) 4) = ?w * 5 div 4"
    using c_div_fact [of "dim_width dim * 5" 4] d(1) by simp
  define s where "s = PAD_TO_SIZE (c_div (dim_width dim * 5) 4) 8"
  have le10: "?w * 5 div 4 \<le> 10240" using d(1) by linarith
  then have le: "?w * 5 div 4 \<le> unat s" "unat s \<le> 16384"
    using pad_8 [of "c_div (dim_width dim * 5) 4"] q by (simp_all add: s_def)
  note x = mult_le_16384 [OF le(2) d(2)]
  have "10 * (?w * ?h) \<le> 8 * (unat s * ?h)" if "4 dvd ?w"
  proof -
    have "5 * ?w \<le> 4 * unat s" using that le(1) by (auto simp: dvd_def)
    then have "5 * ?w * ?h \<le> 4 * unat s * ?h" by (rule mult_le_mono1)
    then show ?thesis by (simp add: ac_simps)
  qed
  then show "4 dvd unat (dim_width dim) \<Longrightarrow> 10 * (?w * ?h) \<le> 8 * unat (snd (raw_mipi_10bpp dim))"
    "unat (snd (raw_mipi_10bpp dim)) \<le> 1073741824"
    unfolding raw_mipi_10bpp_def Let_def snd_conv s_def [symmetric] x(1) using x(2) by simp_all
qed

text \<open>Every raw format: the bytes of the geometry hold the pixels, within 30 bits.\<close>

lemma raw_geometry_ok:
  assumes "small_dim dim" and "raw_geometry fmt dim = Some (stride, bytes)"
    and "mipi_10 fmt \<longrightarrow> 4 dvd unat (dim_width dim)"
  shows "raw_bits fmt * (unat (dim_width dim) * unat (dim_height dim)) \<le> 8 * unat bytes \<and> unat bytes \<le> 1073741824"
proof -
  define fits where "fits = (\<lambda>n b. n * (unat (dim_width dim) * unat (dim_height dim)) \<le> 8 * unat b \<and>
    unat (b :: int32_t) \<le> 1073741824)"
  have k: "fits 16 (snd (raw_yuv dim))" "fits 8 (snd (raw_8bpp dim))" "fits 16 (snd (raw_plain16 dim))"
    "fits 10 (snd (raw_qcom_10bpp dim))" "fits 12 (snd (raw_qcom_12bpp dim))"
    "fits 12 (snd (raw_mipi_12bpp dim))" "4 dvd unat (dim_width dim) \<Longrightarrow> fits 10 (snd (raw_mipi_10bpp dim))"
    unfolding fits_def using raw_8_ok [OF assms(1)] raw_qcom_ok [OF assms(1)]
      raw_mipi_12_ok [OF assms(1)] raw_mipi_10_ok [OF assms(1)] by blast+
  from assms(2) have "bytes = snd (the (raw_geometry fmt dim))" by simp
  with assms(2,3) k have "fits (raw_bits fmt) bytes"
    by (cases "(fmt, dim)" rule: raw_geometry.cases) simp_all
  then show ?thesis by (simp only: fits_def)
qed

section \<open>Properties\<close>

text \<open>
  C39. \<^verbatim>\<open>PAD_TO_SIZE\<close> with a power of two gives the least multiple that is not below the size,
  whenever the sum it forms does not exceed 32 bits.
\<close>

theorem pad_to_size_least_multiple:
  fixes x :: uint32_t
  assumes "k < 32" and "unat x + 2 ^ k \<le> 2 ^ 32"
  shows "unat x \<le> unat (PAD_TO_SIZE x (2 ^ k)) \<and> 2 ^ k dvd unat (PAD_TO_SIZE x (2 ^ k)) \<and>
    (\<forall>m. 2 ^ k dvd m \<and> unat x \<le> m \<longrightarrow> unat (PAD_TO_SIZE x (2 ^ k)) \<le> m)"
  unfolding pad_unat [OF assms] using padn_bounds [of "2 ^ k" "unat x"] padn_least [of "2 ^ k" _ "unat x"]
  by simp

theorem pad_to_size_least_multiple_witness:
  "unat (1081 :: uint32_t) \<le> unat (PAD_TO_SIZE 1081 (2 ^ 4)) \<and> 2 ^ 4 dvd unat (PAD_TO_SIZE 1081 (2 ^ 4)) \<and>
    unat (PAD_TO_SIZE 1081 (2 ^ 4)) \<le> 1088"
proof -
  have "(2 :: nat) ^ 4 dvd 1088 \<and> unat (1081 :: uint32_t) \<le> 1088" by simp
  then show ?thesis using pad_to_size_least_multiple [of 4 1081] by simp
qed

text \<open>
  C32. Preview layouts. For every pixel format the routine accepts and every image of up to 8192 by
  8192 pixels (of even width for the Adreno format), no computation wraps around, each plane has
  room for its lines at the padded stride, and the frame is the sum of the planes rounded up to a
  page. The Venus format, whose sizes come from the kernel's macros, is the next property.
\<close>

fun planes_of :: "cam_format_t \<Rightarrow> nat" where
  "planes_of CAM_FORMAT_YUV_420_YV12 = 3"
| "planes_of _ = 2"

theorem preview_layout_ok:
  assumes "small_dim dim" and "fst (mm_stream_calc_offset_preview venus fmt dim bp) = 0"
    and "fmt \<noteq> CAM_FORMAT_YUV_420_NV12_VENUS"
    and "fmt = CAM_FORMAT_YUV_420_NV21_ADRENO \<longrightarrow> even (unat (dim_width dim))"
  shows "layout_ok (planes_of fmt) (snd (mm_stream_calc_offset_preview venus fmt dim bp))"
  using assms
  by (cases "(venus, fmt, dim, bp)" rule: mm_stream_calc_offset_preview.cases)
    (simp_all add: preview_nv12_ok preview_adreno_ok preview_yv12_ok preview_nv16_ok)

theorem preview_layout_ok_witness:
  "layout_ok 3 (snd (mm_stream_calc_offset_preview None CAM_FORMAT_YUV_420_YV12
     \<lparr>dim_width = 1920, dim_height = 1080\<rparr> zero_frame_offset))"
  using preview_layout_ok [of "\<lparr>dim_width = 1920, dim_height = 1080\<rparr>" None CAM_FORMAT_YUV_420_YV12]
  by (simp add: small_dim_def)


text \<open>
  C33. Post view layouts, under the same conditions as the preview layouts.
\<close>

theorem post_view_layout_ok:
  assumes "small_dim dim" and "fst (mm_stream_calc_offset_post_view venus fmt dim bp) = 0"
    and "fmt \<noteq> CAM_FORMAT_YUV_420_NV12_VENUS"
    and "fmt = CAM_FORMAT_YUV_420_NV21_ADRENO \<longrightarrow> even (unat (dim_width dim))"
  shows "layout_ok (planes_of fmt) (snd (mm_stream_calc_offset_post_view venus fmt dim bp))"
  using assms
  by (cases "(venus, fmt, dim, bp)" rule: mm_stream_calc_offset_post_view.cases)
    (simp_all add: post_view_same post_view_nv12_ok preview_adreno_ok preview_yv12_ok preview_nv16_ok)

theorem post_view_layout_ok_witness:
  "layout_ok 2 (snd (mm_stream_calc_offset_post_view None CAM_FORMAT_YUV_420_NV12
     \<lparr>dim_width = 1920, dim_height = 1080\<rparr> zero_frame_offset))"
  using post_view_layout_ok [of "\<lparr>dim_width = 1920, dim_height = 1080\<rparr>" None CAM_FORMAT_YUV_420_NV12]
  by (simp add: small_dim_def)

text \<open>
  C34. Snapshot layouts, on both chip families: with paddings that are powers of two of at most a
  page, every accepted format gets planes with room for their padded lines in a page-aligned
  frame, again without wrap-around.
\<close>

theorem snapshot_layout_ok:
  assumes "small_dim dim" and "padding_ok padding"
    and "fst (mm_stream_calc_offset_snapshot a_family fmt dim padding bp) = 0"
  shows "layout_ok (planes_of fmt) (snd (mm_stream_calc_offset_snapshot a_family fmt dim padding bp))"
  using assms snapshot_ok [OF assms(1,2)]
  by (cases fmt) (simp_all add: mm_stream_calc_offset_snapshot_def Let_def)

theorem snapshot_layout_ok_witness:
  "layout_ok 2 (snd (mm_stream_calc_offset_snapshot False CAM_FORMAT_YUV_420_NV21
     \<lparr>dim_width = 3264, dim_height = 2448\<rparr>
     \<lparr>width_padding = 2 ^ 5, height_padding = 2 ^ 5, plane_padding = 2 ^ 12\<rparr> zero_frame_offset))"
proof -
  have "padding_ok \<lparr>width_padding = 2 ^ 5, height_padding = 2 ^ 5, plane_padding = 2 ^ 12\<rparr>"
    unfolding padding_ok_def by (intro exI [of _ 5] exI [of _ 12] conjI) simp_all
  then show ?thesis
    using snapshot_layout_ok [of "\<lparr>dim_width = 3264, dim_height = 2448\<rparr>"
        "\<lparr>width_padding = 2 ^ 5, height_padding = 2 ^ 5, plane_padding = 2 ^ 12\<rparr>" False
        CAM_FORMAT_YUV_420_NV21 zero_frame_offset]
    by (simp add: small_dim_def mm_stream_calc_offset_snapshot_def)
qed

text \<open>
  C35. Raw layouts hold the image: for every raw format, the single plane has at least the bits of
  all pixels (for the MIPI 10 bit formats when the width is a multiple of four, as their
  description demands), and the frame is that plane rounded up to a page.
\<close>

theorem raw_layout_holds_pixels:
  assumes "small_dim dim" and "padding_ok padding" and "mipi_10 fmt \<longrightarrow> 4 dvd unat (dim_width dim)"
    and "mm_stream_calc_offset_raw fmt dim padding bp = (0, bp')"
  shows "raw_bits fmt * (unat (dim_width dim) * unat (dim_height dim)) \<le> 8 * unat (mp_len (fo_mp bp' 0)) \<and>
    unat (mp_len (fo_mp bp' 0)) \<le> unat (fo_frame_len bp') \<and>
    unat (fo_frame_len bp') < unat (mp_len (fo_mp bp' 0)) + 4096 \<and>
    4096 dvd unat (fo_frame_len bp') \<and> fo_num_planes bp' = 1"
proof -
  obtain stride bytes where g: "raw_geometry fmt dim = Some (stride, bytes)"
    and bp': "bp' = raw_plane stride (dim_height dim) bytes padding bp"
    using assms(4) by (auto simp: mm_stream_calc_offset_raw_def split: option.splits)
  obtain k where k: "k \<le> 12" "plane_padding padding = 2 ^ k"
    using assms(2) by (auto simp: padding_ok_def)
  have le: "(2 :: nat) ^ k \<le> 4096" using power_increasing [OF k(1), of "2 :: nat"] by simp
  define len where "len = PAD_TO_SIZE bytes (2 ^ k)"
  note b = raw_geometry_ok [OF assms(1) g assms(3)]
  have l: "unat bytes \<le> unat len" "unat len < unat bytes + 2 ^ k"
    using pad_fact(1,2) [OF k(1), of bytes] b by (simp_all add: len_def)
  have f: "unat len \<le> unat (PAD_TO_SIZE len 4096)" "unat (PAD_TO_SIZE len 4096) < unat len + 4096"
    "4096 dvd unat (PAD_TO_SIZE len 4096)"
    using pad_4k [of len] l le b by simp_all
  show ?thesis
    unfolding bp' raw_plane_def Let_def set_plane_def k(2) len_def [symmetric]
    using b l f by simp
qed

theorem raw_layout_holds_pixels_witness:
  "\<exists>bp'. mm_stream_calc_offset_raw (CAM_FORMAT_BAYER_QCOM_RAW BPP_10 RGGB)
       \<lparr>dim_width = 3280, dim_height = 2464\<rparr>
       \<lparr>width_padding = 2 ^ 5, height_padding = 2 ^ 5, plane_padding = 2 ^ 12\<rparr> zero_frame_offset = (0, bp') \<and>
     10 * (3280 * 2464) \<le> 8 * unat (mp_len (fo_mp bp' 0))"
proof -
  let ?pad = "\<lparr>width_padding = 2 ^ 5, height_padding = 2 ^ 5, plane_padding = 2 ^ 12\<rparr>"
  let ?dim = "\<lparr>dim_width = 3280, dim_height = 2464\<rparr>" and ?fmt = "CAM_FORMAT_BAYER_QCOM_RAW BPP_10 RGGB"
  have p: "padding_ok ?pad"
    unfolding padding_ok_def by (intro exI [of _ 5] exI [of _ 12] conjI) simp_all
  have "fst (mm_stream_calc_offset_raw ?fmt ?dim ?pad zero_frame_offset) = 0"
    by (simp add: mm_stream_calc_offset_raw_def split_beta)
  then obtain bp' where e: "mm_stream_calc_offset_raw ?fmt ?dim ?pad zero_frame_offset = (0, bp')"
    by (metis prod.collapse)
  have "small_dim ?dim" by (simp add: small_dim_def)
  from raw_layout_holds_pixels [OF this p _ e] e show ?thesis by auto
qed

text \<open>
  C36. The Venus layout of preview and video streams: the two planes divide the buffer of the
  driver's macro without remainder, the first one holding all luma lines, provided the macro's
  buffer size covers stride times scanlines of the luma plane, as \<^verbatim>\<open>msm_media_info.h\<close> documents.
\<close>

theorem venus_layout_divides_buffer:
  assumes "unat (VENUS_Y_STRIDE v (dim_width dim)) * unat (VENUS_Y_SCANLINES v (dim_height dim))
      \<le> unat (VENUS_BUFFER_SIZE v (dim_width dim) (dim_height dim))"
  shows "mm_stream_calc_offset_preview (Some v) CAM_FORMAT_YUV_420_NV12_VENUS dim bp =
      mm_stream_calc_offset_video (Some v) dim bp \<and>
    (\<forall>bp'. mm_stream_calc_offset_video (Some v) dim bp = (0, bp') \<longrightarrow>
      unat (mp_len (fo_mp bp' 0)) = unat (mp_stride (fo_mp bp' 0)) * unat (mp_scanline (fo_mp bp' 0)) \<and>
      unat (mp_len (fo_mp bp' 0)) + unat (mp_len (fo_mp bp' 1)) = unat (fo_frame_len bp'))"
proof -
  let ?y = "VENUS_Y_STRIDE v (dim_width dim)" and ?l = "VENUS_Y_SCANLINES v (dim_height dim)"
  let ?f = "VENUS_BUFFER_SIZE v (dim_width dim) (dim_height dim)"
  have "unat ?y * unat ?l < 2 ^ 32" using assms unat_lt_2p [of ?f] by simp
  then have m: "unat (?y * ?l) = unat ?y * unat ?l" by (simp add: unat_word_ariths)
  then have "unat (?f - ?y * ?l) = unat ?f - unat ?y * unat ?l"
    using assms by (simp add: unat_sub word_le_nat_alt)
  with m assms show ?thesis
    by (simp add: mm_stream_calc_offset_video_def mm_stream_calc_offset_video_venus_def
        preview_venus_def set_plane_def Let_def)
qed

theorem venus_layout_divides_buffer_witness:
  "\<exists>v dim bp'. mm_stream_calc_offset_video (Some v) dim zero_frame_offset = (0, bp') \<and>
      unat (mp_len (fo_mp bp' 0)) + unat (mp_len (fo_mp bp' 1)) = unat (fo_frame_len bp') \<and>
      unat (fo_frame_len bp') = 3133440"
proof -
  let ?v = "\<lparr>VENUS_Y_STRIDE = (\<lambda>w. PAD_TO_SIZE w 128), VENUS_Y_SCANLINES = (\<lambda>h. PAD_TO_SIZE h 32),
    VENUS_UV_STRIDE = (\<lambda>w. PAD_TO_SIZE w 128), VENUS_UV_SCANLINES = (\<lambda>h. PAD_TO_SIZE (h div 2) 16),
    VENUS_BUFFER_SIZE = (\<lambda>w h. 3133440)\<rparr>"
  let ?dim = "\<lparr>dim_width = 1920, dim_height = 1080\<rparr>"
  have "unat (VENUS_Y_STRIDE ?v (dim_width ?dim)) * unat (VENUS_Y_SCANLINES ?v (dim_height ?dim))
      \<le> unat (VENUS_BUFFER_SIZE ?v (dim_width ?dim) (dim_height ?dim))"
    by (simp add: PAD_TO_SIZE_def)
  from venus_layout_divides_buffer [OF this, of zero_frame_offset] show ?thesis
    by (intro exI [of _ ?v] exI [of _ ?dim])
      (auto simp: mm_stream_calc_offset_video_def mm_stream_calc_offset_video_venus_def set_plane_def Let_def)
qed

text \<open>
  C37. Errors. The layout of a stream is computed or refused: the result code is 0 or -1, a refusal
  leaves the plane information untouched, and the stream types without a layout (default,
  implementation defined, YUV) are refused whatever their format.
\<close>

theorem calc_offset_refusal:
  "(fst (calc_offset bld padding si) = 0 \<or> fst (calc_offset bld padding si) = -1) \<and>
   (fst (calc_offset bld padding si) = -1 \<longrightarrow> snd (calc_offset bld padding si) = si) \<and>
   (si_stream_type si \<in> {CAM_STREAM_TYPE_DEFAULT, CAM_STREAM_TYPE_IMPL_DEFINED, CAM_STREAM_TYPE_YUV}
      \<longrightarrow> fst (calc_offset bld padding si) = -1)"
proof -
  have pre: "fst (mm_stream_calc_offset_preview v f d bp) = 0 \<or>
      mm_stream_calc_offset_preview v f d bp = (-1, bp)" for v f d bp
    by (cases "(v, f, d, bp)" rule: mm_stream_calc_offset_preview.cases) (simp_all split: option.splits)
  have post: "fst (mm_stream_calc_offset_post_view v f d bp) = 0 \<or>
      mm_stream_calc_offset_post_view v f d bp = (-1, bp)" for v f d bp
    by (cases "(v, f, d, bp)" rule: mm_stream_calc_offset_post_view.cases) (simp_all split: option.splits)
  have snap: "fst (mm_stream_calc_offset_snapshot a f d p bp) = 0 \<or>
      mm_stream_calc_offset_snapshot a f d p bp = (-1, bp)" for a f d p bp
    by (cases f) (simp_all add: mm_stream_calc_offset_snapshot_def Let_def)
  have raw: "fst (mm_stream_calc_offset_raw f d p bp) = 0 \<or>
      mm_stream_calc_offset_raw f d p bp = (-1, bp)" for f d p bp
    by (simp add: mm_stream_calc_offset_raw_def split: option.splits prod.splits)
  have vid: "fst (mm_stream_calc_offset_video v d bp) = 0" for v d bp
    by (simp add: mm_stream_calc_offset_video_def mm_stream_calc_offset_video_venus_def
        mm_stream_calc_offset_video_plain_def Let_def split: option.splits)
  have meta: "fst (mm_stream_calc_offset_metadata d p bp) = 0" for d p bp
    by (simp add: mm_stream_calc_offset_metadata_def Let_def)
  have pp: "fst (mm_stream_calc_offset_postproc bld si p bp) = 0 \<or>
      mm_stream_calc_offset_postproc bld si p bp = (-1, bp)" for p bp
    using pre post snap raw vid meta
    by (simp add: mm_stream_calc_offset_postproc_def split: cam_stream_reproc_config_t.splits cam_stream_type_t.splits)
  show ?thesis
    using pre [of "bld_venus bld" "si_fmt si" "rotated_dim si" "si_buf_planes si"]
      snap [of "bld_a_family bld" "si_fmt si" "rotated_dim si" padding "si_buf_planes si"]
      raw [of "si_fmt si" "rotated_dim si" padding "si_buf_planes si"]
      vid [of "bld_venus bld" "rotated_dim si" "si_buf_planes si"]
      meta [of "rotated_dim si" padding "si_buf_planes si"] pp [of padding "si_buf_planes si"]
    by (cases "si_stream_type si") (auto simp: calc_offset_def Let_def split_beta)
qed


definition sample_stream_info :: cam_stream_info_t where
  "sample_stream_info = \<lparr>stream_svr_id = 0, si_stream_type = CAM_STREAM_TYPE_DEFAULT,
     si_fmt = CAM_FORMAT_YUV_420_NV21, si_dim = \<lparr>dim_width = 1280, dim_height = 720\<rparr>,
     si_buf_planes = zero_frame_offset,
     si_pp_config = \<lparr>feature_mask = 0, rotation = ROTATE_0\<rparr>,
     si_reprocess_config = CAM_ONLINE_REPROCESS_TYPE CAM_STREAM_TYPE_DEFAULT\<rparr>"

theorem calc_offset_refusal_witness:
  "fst (calc_offset \<lparr>bld_venus = None, bld_a_family = False\<rparr> zero_padding sample_stream_info) = -1 \<and>
   snd (calc_offset \<lparr>bld_venus = None, bld_a_family = False\<rparr> zero_padding sample_stream_info) = sample_stream_info"
  using calc_offset_refusal [of "\<lparr>bld_venus = None, bld_a_family = False\<rparr>" zero_padding sample_stream_info]
  by (simp add: sample_stream_info_def)

text \<open>
  C38. Metadata layouts: one plane of at least width times height bytes, which is the whole frame.
\<close>

theorem metadata_layout_ok:
  assumes "small_dim dim" and "padding_ok padding"
    and "mm_stream_calc_offset_metadata dim padding bp = (rc, bp')"
  shows "rc = 0 \<and> fo_num_planes bp' = 1 \<and> plane_ok (fo_mp bp' 0) \<and>
    fo_frame_len bp' = mp_len (fo_mp bp' 0)"
proof -
  obtain k where k: "k \<le> 12" "plane_padding padding = 2 ^ k"
    using assms(2) by (auto simp: padding_ok_def)
  have "plane_ok (fo_mp bp' 0)"
    by (rule plane_ok_pad [of _ k])
      (use assms(3) k small_dimD [OF assms(1)] in \<open>auto simp: mm_stream_calc_offset_metadata_def set_plane_def Let_def\<close>)
  then show ?thesis
    using assms(3) by (auto simp: mm_stream_calc_offset_metadata_def set_plane_def Let_def)
qed

theorem metadata_layout_ok_witness:
  "\<exists>bp'. mm_stream_calc_offset_metadata \<lparr>dim_width = 2048, dim_height = 1\<rparr>
       \<lparr>width_padding = 2 ^ 5, height_padding = 2 ^ 5, plane_padding = 2 ^ 12\<rparr> zero_frame_offset = (0, bp') \<and>
     plane_ok (fo_mp bp' 0)"
proof -
  have "padding_ok \<lparr>width_padding = 2 ^ 5, height_padding = 2 ^ 5, plane_padding = 2 ^ 12\<rparr>"
    unfolding padding_ok_def by (intro exI [of _ 5] exI [of _ 12] conjI) simp_all
  then show ?thesis
    using metadata_layout_ok [of "\<lparr>dim_width = 2048, dim_height = 1\<rparr>"
        "\<lparr>width_padding = 2 ^ 5, height_padding = 2 ^ 5, plane_padding = 2 ^ 12\<rparr>" zero_frame_offset]
    by (simp add: small_dim_def mm_stream_calc_offset_metadata_def Let_def)
qed


end
