(* ===== verification/Mm_Types.thy ===== *)
theory Mm_Types
  imports Frame_Layout
begin

text \<open>
  The objects of the camera interface library (\<^verbatim>\<open>mm-camera-interface/inc/mm_camera.h\<close>) and the
  world they run in.

  A command queue (\<^verbatim>\<open>cam_queue_t\<close>) and the superbuffer queue are lists here; theory
  \<^verbatim>\<open>Cam_Queue\<close> shows that the pointer structure implements the list operations. A pointer to a
  frame buffer is the descriptor it points to: the fields the library reads through it do not
  change between the dequeue of the buffer from the driver and its return. A pointer from a
  stream to its channel, or from a channel to its camera, is \<open>None\<close> for NULL; the camera's handle
  and descriptors, which are constant while it has channels, stand for the camera.

  The kernel, the camera server and the callbacks of the client are not part of the sources.
  Every call to them is a \<open>sys_call\<close> appended to the trace of the world, and an \<open>env\<close> answers a
  call depending on the whole history, so that a statement for every \<open>env\<close> covers every
  behaviour of theirs.
\<close>

section \<open>Commands and threads\<close>

record mm_camera_buf_info_t =
  bi_stream_id :: uint32_t
  bi_frame_idx :: uint32_t
  bi_buf :: "mm_camera_buf_def_t option"

definition zero_buf_info :: mm_camera_buf_info_t where
  "zero_buf_info = \<lparr>bi_stream_id = 0, bi_frame_idx = 0, bi_buf = None\<rparr>"

text \<open>\<^verbatim>\<open>cmd_type\<close> with the member of the union it selects.\<close>

datatype mm_camera_cmdcb_t =
    MM_CAMERA_CMD_TYPE_DATA_CB mm_camera_buf_info_t
  | MM_CAMERA_CMD_TYPE_EVT_CB mm_camera_event_t
  | MM_CAMERA_CMD_TYPE_EXIT
  | MM_CAMERA_CMD_TYPE_REQ_DATA_CB uint32_t
  | MM_CAMERA_CMD_TYPE_SUPER_BUF_DATA_CB mm_camera_super_buf_t
  | MM_CAMERA_CMD_TYPE_CONFIG_NOTIFY mm_camera_super_buf_notify_mode_t
  | MM_CAMERA_CMD_TYPE_FLUSH_QUEUE uint32_t
  | MM_CAMERA_CMD_TYPE_MAX

text \<open>The functions the library itself installs as command and poll callbacks.\<close>

datatype mm_camera_cmd_cb_t =
    Fn_mm_stream_dispatch_app_data
  | Fn_mm_channel_dispatch_super_buf
  | Fn_mm_channel_process_stream_buf
  | Fn_mm_camera_dispatch_app_event

datatype mm_camera_poll_notify_t =
    Fn_mm_stream_data_notify
  | Fn_mm_camera_event_notify

text \<open>\<open>ct_running\<close>: the thread of \<^verbatim>\<open>cmd_pid\<close> has been created and has not been joined.\<close>

record mm_camera_cmd_thread_t =
  ct_cmd_queue :: "mm_camera_cmdcb_t list"
  ct_cmd_sem :: nat
  ct_cb :: "mm_camera_cmd_cb_t option"
  ct_user_data :: uint32_t
  ct_running :: bool

definition zero_cmd_thread :: mm_camera_cmd_thread_t where
  "zero_cmd_thread = \<lparr>ct_cmd_queue = [], ct_cmd_sem = 0, ct_cb = None, ct_user_data = 0,
     ct_running = False\<rparr>"

datatype mm_camera_poll_thread_type_t =
    MM_CAMERA_POLL_TYPE_EVT
  | MM_CAMERA_POLL_TYPE_DATA
  | MM_CAMERA_POLL_TYPE_MAX

record mm_camera_poll_entry_t =
  pe_fd :: int
  pe_notify_cb :: "mm_camera_poll_notify_t option"
  pe_handler :: uint32_t
  pe_user_data :: uint32_t

record pollfd =
  pfd_fd :: int
  pfd_events :: uint16_t

datatype mm_camera_poll_task_state_type_t =
    MM_CAMERA_POLL_TASK_STATE_STOPPED
  | MM_CAMERA_POLL_TASK_STATE_POLL
  | MM_CAMERA_POLL_TASK_STATE_MAX

record mm_camera_poll_thread_t =
  pt_poll_type :: mm_camera_poll_thread_type_t
  pt_poll_entries :: "mm_camera_poll_entry_t list"
  pt_pfds :: "int \<times> int"
  pt_running :: bool
  pt_state :: mm_camera_poll_task_state_type_t
  pt_timeoutms :: int
  pt_poll_fds :: "pollfd list"
  pt_num_fds :: uint8_t
  pt_status :: bool

abbreviation (input) MAX_STREAM_NUM_IN_BUNDLE :: nat where "MAX_STREAM_NUM_IN_BUNDLE \<equiv> 4"
abbreviation (input) MM_CAMERA_STREAM_BUF_CB_MAX :: nat where "MM_CAMERA_STREAM_BUF_CB_MAX \<equiv> 4"
abbreviation (input) MM_CAMERA_EVT_ENTRY_MAX :: nat where "MM_CAMERA_EVT_ENTRY_MAX \<equiv> 4"
abbreviation (input) MM_CAMERA_CHANNEL_MAX :: nat where "MM_CAMERA_CHANNEL_MAX \<equiv> 16"
abbreviation (input) MM_CAMERA_MAX_NUM_FRAMES :: nat where "MM_CAMERA_MAX_NUM_FRAMES \<equiv> 24"
abbreviation (input) MM_CAMERA_DEV_NAME_LEN :: nat where "MM_CAMERA_DEV_NAME_LEN \<equiv> 32"

definition zero_poll_entry :: mm_camera_poll_entry_t where
  "zero_poll_entry = \<lparr>pe_fd = 0, pe_notify_cb = None, pe_handler = 0, pe_user_data = 0\<rparr>"

definition zero_poll_thread :: mm_camera_poll_thread_t where
  "zero_poll_thread = \<lparr>pt_poll_type = MM_CAMERA_POLL_TYPE_EVT,
     pt_poll_entries = replicate MAX_STREAM_NUM_IN_BUNDLE zero_poll_entry, pt_pfds = (0, 0),
     pt_running = False, pt_state = MM_CAMERA_POLL_TASK_STATE_STOPPED, pt_timeoutms = 0,
     pt_poll_fds = replicate (MAX_STREAM_NUM_IN_BUNDLE + 1) \<lparr>pfd_fd = 0, pfd_events = 0\<rparr>,
     pt_num_fds = 0, pt_status = False\<rparr>"

section \<open>Streams\<close>

datatype mm_stream_state_type_t =
    MM_STREAM_STATE_NOTUSED
  | MM_STREAM_STATE_INITED
  | MM_STREAM_STATE_ACQUIRED
  | MM_STREAM_STATE_CFG
  | MM_STREAM_STATE_BUFFED
  | MM_STREAM_STATE_REG
  | MM_STREAM_STATE_ACTIVE
  | MM_STREAM_STATE_MAX

text \<open>
  \<open>pl_parms\<close> and the action of \<open>DO_ACTION\<close> are only compared with NULL by the library.
\<close>

record mm_evt_paylod_set_get_stream_parms_t =
  pl_stream_id :: uint32_t
  pl_parms :: "nat option"

record mm_evt_paylod_do_stream_action_t =
  ac_stream_id :: uint32_t
  ac_actions :: "nat option"

text \<open>A stream event with the value its handlers cast \<^verbatim>\<open>in_val\<close> to.\<close>

datatype mm_stream_evt_type_t =
    MM_STREAM_EVT_ACQUIRE
  | MM_STREAM_EVT_RELEASE
  | MM_STREAM_EVT_SET_FMT "mm_camera_stream_config_t option"
  | MM_STREAM_EVT_GET_BUF
  | MM_STREAM_EVT_PUT_BUF
  | MM_STREAM_EVT_REG_BUF
  | MM_STREAM_EVT_UNREG_BUF
  | MM_STREAM_EVT_START
  | MM_STREAM_EVT_STOP
  | MM_STREAM_EVT_QBUF "mm_camera_buf_def_t option"
  | MM_STREAM_EVT_SET_PARM "mm_evt_paylod_set_get_stream_parms_t option"
  | MM_STREAM_EVT_GET_PARM "mm_evt_paylod_set_get_stream_parms_t option"
  | MM_STREAM_EVT_DO_ACTION "mm_evt_paylod_do_stream_action_t option"
  | MM_STREAM_EVT_MAX

record mm_stream_data_cb_t =
  dcb_cb :: "nat option"
  dcb_user_data :: nat
  dcb_cb_count :: int

record mm_stream_buf_status_t =
  buf_refcnt :: uint8_t
  initial_reg_flag :: bool
  in_kernel :: bool

record mm_stream_t =
  s_my_hdl :: uint32_t
  s_server_stream_id :: uint32_t
  s_fd :: int
  s_state :: mm_stream_state_type_t
  s_stream_info :: "cam_stream_info_t option"
  s_padding_info :: cam_padding_info_t
  s_frame_offset :: cam_frame_len_offset_t
  s_cmd_thread :: mm_camera_cmd_thread_t
  s_buf_cb :: "mm_stream_data_cb_t list"
  s_buf_num :: uint8_t
  s_buf :: "mm_camera_buf_def_t list option"
  s_buf_status :: "mm_stream_buf_status_t list option"
  s_ch_obj :: "uint32_t option"
  s_is_bundled :: bool
  s_mem_vtbl :: mm_camera_stream_mem_vtbl_t

definition zero_data_cb :: mm_stream_data_cb_t where
  "zero_data_cb = \<lparr>dcb_cb = None, dcb_user_data = 0, dcb_cb_count = 0\<rparr>"

definition zero_buf_status :: mm_stream_buf_status_t where
  "zero_buf_status = \<lparr>buf_refcnt = 0, initial_reg_flag = False, in_kernel = False\<rparr>"

definition zero_stream :: mm_stream_t where
  "zero_stream = \<lparr>s_my_hdl = 0, s_server_stream_id = 0, s_fd = 0,
     s_state = MM_STREAM_STATE_NOTUSED, s_stream_info = None, s_padding_info = zero_padding,
     s_frame_offset = zero_frame_offset, s_cmd_thread = zero_cmd_thread,
     s_buf_cb = replicate MM_CAMERA_STREAM_BUF_CB_MAX zero_data_cb, s_buf_num = 0, s_buf = None,
     s_buf_status = None, s_ch_obj = None, s_is_bundled = False, s_mem_vtbl = zero_vtbl\<rparr>"

section \<open>Channels\<close>

datatype mm_channel_state_type_t =
    MM_CHANNEL_STATE_NOTUSED
  | MM_CHANNEL_STATE_STOPPED
  | MM_CHANNEL_STATE_ACTIVE
  | MM_CHANNEL_STATE_PAUSED
  | MM_CHANNEL_STATE_MAX

record mm_evt_paylod_config_stream_t =
  cs_stream_id :: uint32_t
  cs_config :: "mm_camera_stream_config_t option"

record mm_evt_paylod_map_stream_buf_t =
  mb_stream_id :: uint32_t
  mb_buf_type :: cam_mapping_buf_type
  mb_buf_idx :: uint32_t
  mb_plane_idx :: int
  mb_fd :: int
  mb_size :: uint32_t

record mm_evt_paylod_unmap_stream_buf_t =
  ub_stream_id :: uint32_t
  ub_buf_type :: cam_mapping_buf_type
  ub_buf_idx :: uint32_t
  ub_plane_idx :: int

datatype mm_channel_evt_type_t =
    MM_CHANNEL_EVT_ADD_STREAM
  | MM_CHANNEL_EVT_DEL_STREAM uint32_t
  | MM_CHANNEL_EVT_CONFIG_STREAM mm_evt_paylod_config_stream_t
  | MM_CHANNEL_EVT_GET_BUNDLE_INFO
  | MM_CHANNEL_EVT_START
  | MM_CHANNEL_EVT_STOP
  | MM_CHANNEL_EVT_PAUSE
  | MM_CHANNEL_EVT_RESUME
  | MM_CHANNEL_EVT_REQUEST_SUPER_BUF uint32_t
  | MM_CHANNEL_EVT_CANCEL_REQUEST_SUPER_BUF
  | MM_CHANNEL_EVT_FLUSH_SUPER_BUF_QUEUE uint32_t
  | MM_CHANNEL_EVT_CONFIG_NOTIFY_MODE mm_camera_super_buf_notify_mode_t
  | MM_CHANNEL_EVT_MAP_STREAM_BUF mm_evt_paylod_map_stream_buf_t
  | MM_CHANNEL_EVT_UNMAP_STREAM_BUF mm_evt_paylod_unmap_stream_buf_t
  | MM_CHANNEL_EVT_SET_STREAM_PARM mm_evt_paylod_set_get_stream_parms_t
  | MM_CHANNEL_EVT_GET_STREAM_PARM mm_evt_paylod_set_get_stream_parms_t
  | MM_CHANNEL_EVT_DO_STREAM_ACTION mm_evt_paylod_do_stream_action_t
  | MM_CHANNEL_EVT_DELETE

record mm_channel_queue_node_t =
  qn_num_of_bufs :: uint8_t
  qn_super_buf :: "mm_camera_buf_info_t list"
  qn_matched :: bool
  qn_frame_idx :: uint32_t

record mm_channel_queue_t =
  q_que :: "mm_channel_queue_node_t list"
  q_size :: uint32_t
  q_num_streams :: uint8_t
  q_bundled_streams :: "uint32_t list"
  q_attr :: mm_camera_channel_attr_t
  q_expected_frame_id :: uint32_t
  q_match_cnt :: uint32_t

record mm_channel_bundle_t =
  bd_is_active :: bool
  bd_superbuf_queue :: mm_channel_queue_t
  bd_super_buf_notify_cb :: "nat option"
  bd_user_data :: nat

text \<open>The fields of the parent camera a channel and its streams use.\<close>

record cam_obj_ref =
  co_my_hdl :: uint32_t
  co_ctrl_fd :: int
  co_ds_fd :: int

record mm_channel_t =
  ch_my_hdl :: uint32_t
  ch_state :: mm_channel_state_type_t
  ch_lock :: bool
  ch_bundle :: mm_channel_bundle_t
  ch_pending_cnt :: uint32_t
  ch_cmd_thread :: mm_camera_cmd_thread_t
  ch_cb_thread :: mm_camera_cmd_thread_t
  ch_poll_thread :: mm_camera_poll_thread_t
  ch_streams :: "mm_stream_t list"
  ch_cam_obj :: "cam_obj_ref option"
  ch_startZSlSnapshotCalled :: bool
  ch_needLEDFlash :: bool

definition zero_queue :: mm_channel_queue_t where
  "zero_queue = \<lparr>q_que = [], q_size = 0, q_num_streams = 0,
     q_bundled_streams = replicate MAX_STREAM_NUM_IN_BUNDLE 0, q_attr = zero_attr,
     q_expected_frame_id = 0, q_match_cnt = 0\<rparr>"

definition zero_bundle :: mm_channel_bundle_t where
  "zero_bundle = \<lparr>bd_is_active = False, bd_superbuf_queue = zero_queue,
     bd_super_buf_notify_cb = None, bd_user_data = 0\<rparr>"

definition zero_channel :: mm_channel_t where
  "zero_channel = \<lparr>ch_my_hdl = 0, ch_state = MM_CHANNEL_STATE_NOTUSED, ch_lock = False,
     ch_bundle = zero_bundle, ch_pending_cnt = 0, ch_cmd_thread = zero_cmd_thread,
     ch_cb_thread = zero_cmd_thread, ch_poll_thread = zero_poll_thread,
     ch_streams = replicate MAX_STREAM_NUM_IN_BUNDLE zero_stream, ch_cam_obj = None,
     ch_startZSlSnapshotCalled = False, ch_needLEDFlash = False\<rparr>"

section \<open>The world\<close>

text \<open>The requests of the library to the video driver.\<close>

record msm_v4l2_format_data =
  mf_width :: int32_t
  mf_height :: int32_t
  mf_pixelformat :: v4l2_pix_fmt
  mf_num_planes :: int
  mf_plane_sizes :: "uint32_t list"

datatype ioctl_req =
    VIDIOC_S_PARM
  | VIDIOC_S_FMT msm_v4l2_format_data
  | VIDIOC_S_CTRL cam_priv_ctrl
  | VIDIOC_G_CTRL cam_priv_ctrl
  | VIDIOC_STREAMON
  | VIDIOC_STREAMOFF
  | VIDIOC_REQBUFS nat
  | VIDIOC_QBUF int "v4l2_plane list" int
  | VIDIOC_DQBUF
  | VIDIOC_QUERYCAP
  | VIDIOC_DQEVENT
  | VIDIOC_SUBSCRIBE_EVENT
  | VIDIOC_UNSUBSCRIBE_EVENT

datatype sys_call =
    Sys_malloc
  | Sys_open string
  | Sys_close int
  | Sys_ioctl int ioctl_req
  | Sys_pipe
  | Sys_write int
  | Sys_socket_create
  | Sys_socket_close int
  | Sys_socket_sendmsg int cam_sock_packet_t int
  | Sys_wait_event
  | Vtbl_get_bufs nat nat cam_frame_len_offset_t uint8_t
  | Vtbl_put_bufs nat nat
  | Vtbl_invalidate_buf nat nat int
  | Vtbl_clean_invalidate_buf nat nat int
  | Cb_buf_notify nat nat mm_camera_super_buf_t
  | Cb_event_notify nat nat uint32_t mm_camera_event_t

record v4l2_buffer =
  vb_index :: uint32_t
  vb_sequence :: uint32_t
  vb_timestamp :: "int \<times> int"
  vb_uv_subsampled :: bool
  vb_content :: cam_metadata_info_t

record get_bufs_result =
  gb_rc :: int
  gb_num_bufs :: uint8_t
  gb_reg_flags :: "bool list option"
  gb_bufs :: "mm_camera_buf_def_t list option"

datatype v4l2_event_cmd =
    Evt_not_msm_notify
  | Evt_map_unmap_done uint32_t
  | Evt_priv_shutdown
  | Evt_other

type_synonym trace = "sys_call list"

text \<open>
  \<open>e_rc\<close> is the return value of a call (a successful \<^verbatim>\<open>malloc\<close> returns a non-zero address); the
  other fields are the data a call returns through its arguments. \<open>e_build\<close> is the configuration
  the library is built for. \<open>e_event\<close> is the status of the
  next MAP\_UNMAP\_DONE event, \<open>None\<close> when it never comes. \<open>e_sync_info\<close> is the stream
  information after the server has synchronised it.
\<close>

record env =
  e_build :: build
  e_rc :: "trace \<Rightarrow> sys_call \<Rightarrow> int"
  e_errno_eio :: "trace \<Rightarrow> bool"
  e_pipe_fds :: "trace \<Rightarrow> int \<times> int"
  e_extendedmode :: "trace \<Rightarrow> uint32_t"
  e_sync_info :: "trace \<Rightarrow> cam_stream_info_t \<Rightarrow> cam_stream_info_t"
  e_get_bufs :: "trace \<Rightarrow> get_bufs_result"
  e_dqbuf :: "trace \<Rightarrow> v4l2_buffer"
  e_event :: "trace \<Rightarrow> uint32_t option"
  e_dqevent :: "trace \<Rightarrow> v4l2_event_cmd"

text \<open>\<open>g_handler_history_count\<close> and \<open>g_video_dev_name\<close> are the globals of
  \<^verbatim>\<open>mm_camera_interface.c\<close> that the modelled functions use.\<close>

record world =
  w_trace :: trace
  g_handler_history_count :: uint16_t
  g_video_dev_name :: "string list"

definition sys :: "env \<Rightarrow> sys_call \<Rightarrow> world \<Rightarrow> int \<times> world" where
  "sys e c w = (e_rc e (w_trace w) c, w\<lparr>w_trace := w_trace w @ [c]\<rparr>)"

definition malloc :: "env \<Rightarrow> world \<Rightarrow> bool \<times> world" where
  "malloc e w = (let (p, w) = sys e Sys_malloc w in (p \<noteq> 0, w))"

text \<open>
  \<^verbatim>\<open>cam_queue_enq\<close> of a command allocates a list node; when that fails the command is dropped
  and the caller, which ignores the result, posts the semaphore all the same. The queue of a
  thread that has not been launched, or that has been destroyed, is all zero: linking the node
  follows the null pointer in its head, a fault. A launched thread has a callback.
\<close>

definition cmd_thread_post ::
  "env \<Rightarrow> mm_camera_cmdcb_t \<Rightarrow> mm_camera_cmd_thread_t \<Rightarrow> world \<Rightarrow> (mm_camera_cmd_thread_t \<times> world) option" where
  "cmd_thread_post e c t w =
     (let (ok, w) = malloc e w
      in if ok \<and> ct_cb t = None then None
         else
           (let t = (if ok then t\<lparr>ct_cmd_queue := ct_cmd_queue t @ [c]\<rparr> else t)
            in Some (t\<lparr>ct_cmd_sem := ct_cmd_sem t + 1\<rparr>, w)))"

lemma sys_simps [simp]:
  "fst (sys e c w) = e_rc e (w_trace w) c"
  "w_trace (snd (sys e c w)) = w_trace w @ [c]"
  "g_handler_history_count (snd (sys e c w)) = g_handler_history_count w"
  "g_video_dev_name (snd (sys e c w)) = g_video_dev_name w"
  by (simp_all add: sys_def)

section \<open>A well-behaved environment\<close>

text \<open>
  In \<open>calm_env n\<close> every call succeeds, the allocator of the client delivers \<open>n\<close> buffers that are
  all to be registered, and the driver hands out buffer 0.
  The witnesses evaluate the model in this environment.
\<close>

definition calm_rc :: "sys_call \<Rightarrow> int" where
  "calm_rc c = (case c of Sys_malloc \<Rightarrow> 1 | Sys_write _ \<Rightarrow> 1 | Sys_open _ \<Rightarrow> 7
     | Sys_socket_create \<Rightarrow> 8 | Sys_socket_sendmsg _ _ _ \<Rightarrow> 1 | _ \<Rightarrow> 0)"

definition calm_buf :: "nat \<Rightarrow> mm_camera_buf_def_t" where
  "calm_buf i = \<lparr>b_stream_id = 0, b_stream_type = CAM_STREAM_TYPE_PREVIEW, b_buf_idx = int i,
     b_is_uv_subsampled = False, b_ts = (0, 0), b_frame_idx = 0, b_num_planes = 1,
     b_planes = [], b_buffer = None\<rparr>"

definition calm_env :: "nat \<Rightarrow> env" where
  "calm_env n = \<lparr>e_build = \<lparr>bld_venus = None, bld_a_family = False\<rparr>, e_rc = (\<lambda>_. calm_rc), e_errno_eio = (\<lambda>_. False), e_pipe_fds = (\<lambda>_. (3, 4)),
     e_extendedmode = (\<lambda>_. 1), e_sync_info = (\<lambda>_ i. i),
     e_get_bufs = (\<lambda>_. \<lparr>gb_rc = 0, gb_num_bufs = of_nat n, gb_reg_flags = Some (replicate n True),
       gb_bufs = Some (map calm_buf [0..<n])\<rparr>),
     e_dqbuf = (\<lambda>_. \<lparr>vb_index = 0, vb_sequence = 1, vb_timestamp = (0, 0), vb_uv_subsampled = False,
       vb_content = \<lparr>is_prep_snapshot_done_valid = False,
         prep_snapshot_done_state = DO_NOT_NEED_FUTURE_FRAME, is_good_frame_idx_range_valid = False,
         good_frame_idx_range = \<lparr>min_frame_idx = 0, max_frame_idx = 0\<rparr>\<rparr>\<rparr>),
     e_event = (\<lambda>_. Some 0), e_dqevent = (\<lambda>_. Evt_other)\<rparr>"

definition calm_world :: world where
  "calm_world = \<lparr>w_trace = [], g_handler_history_count = 0, g_video_dev_name = []\<rparr>"

end
