(* ===== verification/Handles.thy ===== *)
theory Handles
  imports Mm_Types
begin

text \<open>
  Object handles (\<^verbatim>\<open>mm_camera_interface.c\<close>, lines 49--133): a handle carries the slot index of
  the object in its low byte and a 16-bit history count, which skips zero, above it. The theory
  holds the generator, its readers, and the facts the tables of streams and channels rely on: a
  handle is never zero, its index can be read back, and 65535 handles in a row are distinct.
\<close>

definition mm_camera_util_generate_handler :: "uint8_t \<Rightarrow> world \<Rightarrow> uint32_t \<times> world" where
  "mm_camera_util_generate_handler index w =
     (let c = g_handler_history_count w + 1;
          c = (if c = 0 then c + 1 else c);
          handler = ucast c :: uint32_t;
          handler = push_bit 8 handler OR ucast index
      in (handler, w\<lparr>g_handler_history_count := c\<rparr>))"

definition mm_camera_util_get_index_by_handler :: "uint32_t \<Rightarrow> uint8_t" where
  "mm_camera_util_get_index_by_handler handler = ucast (handler AND 0x000000ff)"

text \<open>An index beyond \<^verbatim>\<open>MM_CAMERA_MAX_NUM_SENSORS\<close> (the length of the name table) gives NULL.\<close>

definition mm_camera_util_get_dev_name :: "uint32_t \<Rightarrow> world \<Rightarrow> string option" where
  "mm_camera_util_get_dev_name cam_handle w =
     nth_opt (g_video_dev_name w) (uint (mm_camera_util_get_index_by_handler cam_handle))"

text \<open>Successive calls of the generator for the slots of a list.\<close>

fun generate_handlers :: "uint8_t list \<Rightarrow> world \<Rightarrow> uint32_t list \<times> world" where
  "generate_handlers [] w = ([], w)"
| "generate_handlers (i # is) w =
     (let (h, w) = mm_camera_util_generate_handler i w;
          (hs, w) = generate_handlers is w
      in (h # hs, w))"

section \<open>The interface of the generator\<close>

locale handle_alloc =
  fixes gen :: "uint8_t \<Rightarrow> 'w \<Rightarrow> uint32_t \<times> 'w"
    and idx_of :: "uint32_t \<Rightarrow> uint8_t"
  assumes gen_nonzero: "fst (gen i w) \<noteq> 0"
    and idx_gen: "idx_of (fst (gen i w)) = i"
begin

lemma gen_inj_idx: "fst (gen i w) = fst (gen j w') \<Longrightarrow> i = j"
  by (metis idx_gen)

text \<open>A search by handle finds the slot that was given a fresh handle.\<close>

lemma find_fresh_slot:
  assumes "i < length xs" and "hdl x = fst (gen k w)"
    and "\<And>y. y \<in> set xs \<Longrightarrow> hdl y \<noteq> fst (gen k w)"
  shows "find_idx (\<lambda>y. hdl y = fst (gen k w)) (xs[i := x]) = Some i"
proof (rule find_idx_unique)
  fix j
  assume "j < length (xs[i := x])" and "hdl (xs[i := x] ! j) = fst (gen k w)"
  then show "j = i"
    using assms(3) by (cases "j = i") (auto dest: nth_mem)
qed (use assms in auto)

end

section \<open>The generator keeps its promises\<close>

definition next_count :: "uint16_t \<Rightarrow> uint16_t" where
  "next_count c = (if c + 1 = 0 then 1 else c + 1)"

lemma generate_handler_alt:
  "mm_camera_util_generate_handler i w =
     (push_bit 8 (ucast (next_count (g_handler_history_count w))) OR ucast i,
      w\<lparr>g_handler_history_count := next_count (g_handler_history_count w)\<rparr>)"
  by (simp add: mm_camera_util_generate_handler_def next_count_def Let_def)

lemma next_count_nonzero [simp]: "next_count c \<noteq> 0"
  by (simp add: next_count_def)

lemma unat_next_count: "unat (next_count c) = unat c mod 65535 + 1"
proof (cases "c + 1 = 0")
  case True
  then have "c = 65535" by (simp add: add_eq_0_iff2)
  then show ?thesis by (simp add: next_count_def)
next
  case False
  have "unat c < 65536" using unsigned_less [of c] by simp
  moreover have "unat c \<noteq> 65535"
  proof
    assume "unat c = 65535"
    then have "c = 65535" by (simp add: word_unat_eq_iff)
    with False show False by simp
  qed
  ultimately have "unat c < 65535" by simp
  then have "unat (c + 1) = unat c + 1" by (intro unat_plus_1) simp
  with \<open>unat c < 65535\<close> False show ?thesis by (simp add: next_count_def)
qed

lemma unat_ucast_16_32: "unat (ucast (c :: uint16_t) :: uint32_t) = unat c"
  using unat_lt_2p [of c] by (simp add: unsigned_ucast_eq take_bit_eq_mod)

lemma drop_bit_handler:
  "drop_bit 8 (push_bit 8 (ucast c) OR ucast (i :: uint8_t)) = (ucast (c :: uint16_t) :: uint32_t)"
  by (rule bit_word_eqI) (auto simp: bit_simps dest: bit_imp_le_length)

lemma index_handler:
  "ucast ((push_bit 8 (ucast c) OR ucast i) AND (0xff :: uint32_t)) = (i :: uint8_t)"
proof -
  have m: "(0xff :: uint32_t) = mask 8" by (simp add: mask_eq_exp_minus_1)
  show ?thesis
    unfolding m by (rule bit_word_eqI) (simp add: bit_simps del: mask_numeral)
qed

lemma drop_bit_generate:
  "drop_bit 8 (fst (mm_camera_util_generate_handler i w)) = ucast (next_count (g_handler_history_count w))"
  by (simp only: generate_handler_alt fst_conv drop_bit_handler)

interpretation hdl: handle_alloc mm_camera_util_generate_handler mm_camera_util_get_index_by_handler
proof
  fix i and w :: world
  have "ucast (next_count (g_handler_history_count w)) \<noteq> (0 :: uint32_t)"
    by (simp add: word_unat_eq_iff unat_ucast_16_32 unat_next_count)
  then show "fst (mm_camera_util_generate_handler i w) \<noteq> 0"
    using drop_bit_generate [of i w] by auto
  show "mm_camera_util_get_index_by_handler (fst (mm_camera_util_generate_handler i w)) = i"
    by (simp add: mm_camera_util_get_index_by_handler_def generate_handler_alt index_handler)
qed

section \<open>Distinct handles\<close>

lemma count_of_generate: "g_handler_history_count (snd (mm_camera_util_generate_handler i w)) =
    next_count (g_handler_history_count w)"
  by (simp add: generate_handler_alt)

text \<open>The history part of the \<open>k\<close>-th of a sequence of handles.\<close>

lemma nth_generate_handlers:
  assumes "k < length is"
  shows "unat (drop_bit 8 (fst (generate_handlers is w) ! k)) =
    (unat (g_handler_history_count w) + k) mod 65535 + 1"
  using assms
proof (induction "is" arbitrary: w k)
  case (Cons i "is")
  let ?w = "snd (mm_camera_util_generate_handler i w)"
  show ?case
  proof (cases k)
    case 0
    then show ?thesis
      by (simp add: case_prod_beta Let_def drop_bit_generate unat_ucast_16_32 unat_next_count)
  next
    case (Suc j)
    with Cons.prems have "j < length is" by simp
    have "unat (g_handler_history_count ?w) = unat (g_handler_history_count w) mod 65535 + 1"
      by (simp add: count_of_generate unat_next_count)
    then have "(unat (g_handler_history_count ?w) + j) mod 65535 =
        (unat (g_handler_history_count w) + k) mod 65535"
      using mod_add_left_eq [of "unat (g_handler_history_count w)" 65535 "Suc j"] by (simp add: Suc)
    with Cons.IH [OF \<open>j < length is\<close>, of ?w] show ?thesis
      by (simp add: case_prod_beta Let_def Suc)
  qed
qed simp

lemma length_generate_handlers [simp]: "length (fst (generate_handlers is w)) = length is"
  by (induction "is" arbitrary: w) (simp_all add: case_prod_beta Let_def)

lemma mod_add_neq:
  assumes "i < j" and "j < (n :: nat)"
  shows "(c + i) mod n \<noteq> (c + j) mod n"
proof
  assume "(c + i) mod n = (c + j) mod n"
  then have "n dvd (c + j) - (c + i)"
    using assms by (metis mod_eq_dvd_iff_nat add_le_cancel_left less_imp_le_nat)
  with assms show False by (auto dest: dvd_imp_le)
qed

text \<open>
  C29. A generated handle is never 0, the value that marks an unused object, and the slot index
  it was generated for can be read back from it, whatever the history count is, also when the
  16-bit count wraps around.
\<close>

theorem generate_handler_roundtrip:
  "fst (mm_camera_util_generate_handler i w) \<noteq> 0 \<and>
   mm_camera_util_get_index_by_handler (fst (mm_camera_util_generate_handler i w)) = i \<and>
   g_handler_history_count (snd (mm_camera_util_generate_handler i w)) \<noteq> 0"
  by (simp add: hdl.gen_nonzero hdl.idx_gen count_of_generate)

text \<open>
  C30. Up to 65535 handles generated one after the other are pairwise distinct, whatever slots
  they are for and wherever the count starts: a stale handle is not taken for a live one before
  the count has come round.
\<close>

theorem generate_handlers_distinct:
  assumes "length is \<le> 65535"
  shows "distinct (fst (generate_handlers is w))"
proof (rule distinct_conv_nth [THEN iffD2], intro allI impI)
  fix i j
  assume "i < length (fst (generate_handlers is w))" "j < length (fst (generate_handlers is w))"
    and "i \<noteq> j"
  then have "(unat (g_handler_history_count w) + i) mod 65535 \<noteq>
      (unat (g_handler_history_count w) + j) mod 65535"
    using mod_add_neq [of i j 65535 "unat (g_handler_history_count w)"]
      mod_add_neq [of j i 65535 "unat (g_handler_history_count w)"] assms
    by (cases i j rule: linorder_cases) auto
  then have "drop_bit 8 (fst (generate_handlers is w) ! i) \<noteq> drop_bit 8 (fst (generate_handlers is w) ! j)"
    using nth_generate_handlers [of i "is" w] nth_generate_handlers [of j "is" w]
      \<open>i < _\<close> \<open>j < _\<close> by auto
  then show "fst (generate_handlers is w) ! i \<noteq> fst (generate_handlers is w) ! j"
    by auto
qed

theorem generate_handlers_distinct_witness:
  "length [0, 1, 2 :: uint8_t] \<le> 65535 \<and>
   distinct (fst (generate_handlers [0, 1, 2]
     \<lparr>w_trace = [], g_handler_history_count = 65534, g_video_dev_name = []\<rparr>))"
  using generate_handlers_distinct [of "[0, 1, 2]"] by simp

end
