(* ===== verification/Threads.thy ===== *)
theory Threads
  imports Handles
begin

text \<open>
  Poll threads and command threads (\<^verbatim>\<open>mm_camera_thread.c\<close>).

  A poll thread watches a pipe and up to four descriptors. A caller changes the table of entries
  and sends a command through the pipe; the thread rebuilds its array of poll descriptors and
  signals back. The synchronous exchange is one step here: \<^verbatim>\<open>mm_camera_poll_sig\<close> returns after the
  thread has processed the command, and is \<^const>\<open>None\<close> (blocked for ever) when there is no thread.

  A command thread waits on a semaphore and then handles every command in its queue. Stopping it
  enqueues EXIT and joins it: the join returns when the thread has emptied its queue and seen EXIT.
\<close>

section \<open>Poll thread\<close>

datatype mm_camera_pipe_cmd_type_t =
    MM_CAMERA_PIPE_CMD_POLL_ENTRIES_UPDATED
  | MM_CAMERA_PIPE_CMD_EXIT
  | MM_CAMERA_PIPE_CMD_MAX

definition POLLIN :: uint16_t where "POLLIN = 0x001"
definition POLLPRI :: uint16_t where "POLLPRI = 0x002"
definition POLLRDNORM :: uint16_t where "POLLRDNORM = 0x040"

definition poll_all :: uint16_t where
  "poll_all = POLLIN OR POLLRDNORM OR POLLPRI"

definition mm_camera_poll_sig_done :: "mm_camera_poll_thread_t \<Rightarrow> mm_camera_poll_thread_t" where
  "mm_camera_poll_sig_done pt = pt\<lparr>pt_status := True\<rparr>"

definition mm_camera_poll_set_state ::
  "mm_camera_poll_task_state_type_t \<Rightarrow> mm_camera_poll_thread_t \<Rightarrow> mm_camera_poll_thread_t" where
  "mm_camera_poll_set_state st pt = pt\<lparr>pt_state := st\<rparr>"

text \<open>\<^verbatim>\<open>poll_fds[num_fds].fd = fd; poll_fds[num_fds].events = ev; num_fds++\<close>\<close>

definition push_fd :: "int \<Rightarrow> uint16_t \<Rightarrow> mm_camera_poll_thread_t \<Rightarrow> mm_camera_poll_thread_t" where
  "push_fd fd ev pt = pt\<lparr>pt_poll_fds := (pt_poll_fds pt)[unat (pt_num_fds pt) := \<lparr>pfd_fd = fd, pfd_events = ev\<rparr>],
     pt_num_fds := pt_num_fds pt + 1\<rparr>"

definition push_entry :: "mm_camera_poll_entry_t \<Rightarrow> mm_camera_poll_thread_t \<Rightarrow> mm_camera_poll_thread_t" where
  "push_entry en pt = (if pe_fd en > 0 then push_fd (pe_fd en) poll_all pt else push_fd (-1) 0 pt)"

definition poll_entries_updated :: "mm_camera_poll_thread_t \<Rightarrow> mm_camera_poll_thread_t" where
  "poll_entries_updated pt =
     (let pt = push_fd (fst (pt_pfds pt)) poll_all (pt\<lparr>pt_num_fds := 0\<rparr>);
          pt = (case pt_poll_type pt of
                  MM_CAMERA_POLL_TYPE_EVT \<Rightarrow>
                    (if pe_fd (pt_poll_entries pt ! 0) > 0
                     then push_fd (pe_fd (pt_poll_entries pt ! 0)) poll_all pt else pt)
                | MM_CAMERA_POLL_TYPE_DATA \<Rightarrow>
                    fold push_entry (take MAX_STREAM_NUM_IN_BUNDLE (pt_poll_entries pt)) pt
                | MM_CAMERA_POLL_TYPE_MAX \<Rightarrow> pt)
      in mm_camera_poll_sig_done pt)"

definition mm_camera_poll_proc_pipe ::
  "mm_camera_pipe_cmd_type_t \<Rightarrow> mm_camera_poll_thread_t \<Rightarrow> mm_camera_poll_thread_t" where
  "mm_camera_poll_proc_pipe cmd pt =
     (case cmd of
        MM_CAMERA_PIPE_CMD_POLL_ENTRIES_UPDATED \<Rightarrow> poll_entries_updated pt
      | _ \<Rightarrow> mm_camera_poll_sig_done (mm_camera_poll_set_state MM_CAMERA_POLL_TASK_STATE_STOPPED pt))"

definition mm_camera_poll_sig ::
  "env \<Rightarrow> mm_camera_pipe_cmd_type_t \<Rightarrow> mm_camera_poll_thread_t \<Rightarrow> world \<Rightarrow>
   (int \<times> mm_camera_poll_thread_t \<times> world) option" where
  "mm_camera_poll_sig e cmd pt w =
     (let pt = pt\<lparr>pt_status := False\<rparr>;
          (len, w) = sys e (Sys_write (snd (pt_pfds pt))) w
      in if len < 1 then Some (0, pt, w)
         else if pt_running pt then Some (0, mm_camera_poll_proc_pipe cmd pt, w)
         else None)"

text \<open>
  One iteration of the loop of \<^verbatim>\<open>mm_camera_poll_fn\<close>: \<open>rc\<close> is the result of \<^verbatim>\<open>poll\<close>, \<open>revents\<close> what it
  stored, \<open>cmd\<close> what is read from the pipe when it is ready. The second result lists the callbacks
  that are made, in order, with their user data.
\<close>

definition poll_notify ::
  "mm_camera_poll_thread_t \<Rightarrow> (nat \<Rightarrow> uint16_t) \<Rightarrow> nat \<Rightarrow> (mm_camera_poll_notify_t \<times> uint32_t) list" where
  "poll_notify pt revents i =
     (let en = pt_poll_entries pt ! (i - 1);
          cb = (case pe_notify_cb en of None \<Rightarrow> [] | Some f \<Rightarrow> [(f, pe_user_data en)])
      in (if pt_poll_type pt = MM_CAMERA_POLL_TYPE_EVT \<and> revents i AND POLLPRI \<noteq> 0 then cb else []) @
         (if pt_poll_type pt = MM_CAMERA_POLL_TYPE_DATA \<and> revents i AND POLLIN \<noteq> 0 \<and>
             revents i AND POLLRDNORM \<noteq> 0 then cb else []))"

definition mm_camera_poll_fn_iter ::
  "int \<Rightarrow> (nat \<Rightarrow> uint16_t) \<Rightarrow> mm_camera_pipe_cmd_type_t \<Rightarrow> mm_camera_poll_thread_t \<Rightarrow>
   mm_camera_poll_thread_t \<times> (mm_camera_poll_notify_t \<times> uint32_t) list" where
  "mm_camera_poll_fn_iter rc revents cmd pt =
     (let n = unat (pt_num_fds pt);
          pt = pt\<lparr>pt_poll_fds := map (\<lambda>f. f\<lparr>pfd_events := poll_all\<rparr>) (take n (pt_poll_fds pt)) @
            drop n (pt_poll_fds pt)\<rparr>
      in if rc > 0 then
           (if revents 0 AND POLLIN \<noteq> 0 \<and> revents 0 AND POLLRDNORM \<noteq> 0
            then (mm_camera_poll_proc_pipe cmd pt, [])
            else (pt, concat (map (poll_notify pt revents) [1..<n])))
         else (pt, []))"

definition mm_camera_poll_thread ::
  "mm_camera_poll_thread_t \<Rightarrow> mm_camera_poll_thread_t" where
  "mm_camera_poll_thread pt =
     (let i = unat (pt_num_fds pt);
          pt = pt\<lparr>pt_poll_fds := (pt_poll_fds pt)[i := (pt_poll_fds pt ! i)\<lparr>pfd_fd := fst (pt_pfds pt)\<rparr>],
            pt_num_fds := pt_num_fds pt + 1\<rparr>;
          pt = mm_camera_poll_sig_done pt
      in mm_camera_poll_set_state MM_CAMERA_POLL_TASK_STATE_POLL pt)"

definition mm_camera_poll_thread_notify_entries_updated ::
  "env \<Rightarrow> mm_camera_poll_thread_t \<Rightarrow> world \<Rightarrow> (int \<times> mm_camera_poll_thread_t \<times> world) option" where
  "mm_camera_poll_thread_notify_entries_updated e pt w =
     mm_camera_poll_sig e MM_CAMERA_PIPE_CMD_POLL_ENTRIES_UPDATED pt w"

definition poll_idx :: "mm_camera_poll_thread_t \<Rightarrow> uint32_t \<Rightarrow> nat" where
  "poll_idx pt handler =
     (if pt_poll_type pt = MM_CAMERA_POLL_TYPE_DATA
      then unat (mm_camera_util_get_index_by_handler handler) else 0)"

definition mm_camera_poll_thread_add_poll_fd ::
  "env \<Rightarrow> uint32_t \<Rightarrow> int \<Rightarrow> mm_camera_poll_notify_t option \<Rightarrow> uint32_t \<Rightarrow> mm_camera_poll_thread_t \<Rightarrow>
   world \<Rightarrow> (int \<times> mm_camera_poll_thread_t \<times> world) option" where
  "mm_camera_poll_thread_add_poll_fd e handler fd notify_cb userdata pt w =
     (let idx = poll_idx pt handler
      in if MAX_STREAM_NUM_IN_BUNDLE > idx then
           mm_camera_poll_sig e MM_CAMERA_PIPE_CMD_POLL_ENTRIES_UPDATED
             (pt\<lparr>pt_poll_entries := (pt_poll_entries pt)[idx :=
                \<lparr>pe_fd = fd, pe_notify_cb = notify_cb, pe_handler = handler, pe_user_data = userdata\<rparr>]\<rparr>) w
         else Some (-1, pt, w))"

definition mm_camera_poll_thread_del_poll_fd ::
  "env \<Rightarrow> uint32_t \<Rightarrow> mm_camera_poll_thread_t \<Rightarrow> world \<Rightarrow> (int \<times> mm_camera_poll_thread_t \<times> world) option" where
  "mm_camera_poll_thread_del_poll_fd e handler pt w =
     (let idx = poll_idx pt handler
      in if MAX_STREAM_NUM_IN_BUNDLE > idx \<and> handler = pe_handler (pt_poll_entries pt ! idx) then
           mm_camera_poll_sig e MM_CAMERA_PIPE_CMD_POLL_ENTRIES_UPDATED
             (pt\<lparr>pt_poll_entries := (pt_poll_entries pt)[idx :=
                (pt_poll_entries pt ! idx)\<lparr>pe_fd := -1, pe_handler := 0, pe_notify_cb := None\<rparr>]\<rparr>) w
         else Some (-1, pt, w))"

definition mm_camera_poll_thread_launch ::
  "env \<Rightarrow> mm_camera_poll_thread_type_t \<Rightarrow> mm_camera_poll_thread_t \<Rightarrow> world \<Rightarrow>
   int \<times> mm_camera_poll_thread_t \<times> world" where
  "mm_camera_poll_thread_launch e poll_type pt w =
     (let pt = pt\<lparr>pt_poll_type := poll_type, pt_pfds := (0, 0)\<rparr>;
          fds = e_pipe_fds e (w_trace w);
          (rc, w) = sys e Sys_pipe w
      in if rc < 0 then (-1, pt, w)
         else
           (let pt = pt\<lparr>pt_pfds := fds, pt_timeoutms := -1, pt_status := False, pt_running := True\<rparr>
            in (rc, mm_camera_poll_thread pt, w)))"

text \<open>The join blocks for ever when the EXIT command could not be written.\<close>

definition mm_camera_poll_thread_release ::
  "env \<Rightarrow> mm_camera_poll_thread_t \<Rightarrow> world \<Rightarrow> (int \<times> mm_camera_poll_thread_t \<times> world) option" where
  "mm_camera_poll_thread_release e pt w =
     (if pt_state pt = MM_CAMERA_POLL_TASK_STATE_STOPPED then Some (0, pt, w)
      else do {
        (rc, pt, w) \<leftarrow> mm_camera_poll_sig e MM_CAMERA_PIPE_CMD_EXIT pt w;
        if pt_running pt \<and> pt_state pt \<noteq> MM_CAMERA_POLL_TASK_STATE_STOPPED then None
        else do {
          let w = (if fst (pt_pfds pt) \<noteq> 0 then snd (sys e (Sys_close (fst (pt_pfds pt))) w) else w);
          let w = (if snd (pt_pfds pt) \<noteq> 0 then snd (sys e (Sys_close (snd (pt_pfds pt))) w) else w);
          Some (0, zero_poll_thread, w)
        }
      })"

section \<open>Command thread\<close>

text \<open>
  The inner loop of \<^verbatim>\<open>mm_camera_cmd_thread\<close> over the commands of the queue. \<open>h\<close> is the installed
  callback, \<^const>\<open>None\<close> for NULL; the first result tells whether the thread goes on.
\<close>

fun cmd_thread_drain ::
  "(mm_camera_cmdcb_t \<Rightarrow> 's \<Rightarrow> 's option) option \<Rightarrow> bool \<Rightarrow> mm_camera_cmdcb_t list \<Rightarrow> 's \<Rightarrow> (bool \<times> 's) option" where
  "cmd_thread_drain h running [] s = Some (running, s)"
| "cmd_thread_drain h running (c # cs) s =
     (case c of
        MM_CAMERA_CMD_TYPE_EXIT \<Rightarrow> cmd_thread_drain h False cs s
      | MM_CAMERA_CMD_TYPE_MAX \<Rightarrow> cmd_thread_drain h False cs s
      | _ \<Rightarrow> (case h of
                None \<Rightarrow> cmd_thread_drain h running cs s
              | Some f \<Rightarrow> Option.bind (f c s) (cmd_thread_drain h running cs)))"

text \<open>
  One round of the outer loop: the semaphore is taken, the queue is emptied. \<open>None\<close> when the
  semaphore is 0 (the thread sleeps) or a callback faults.
\<close>

definition mm_camera_cmd_thread ::
  "(mm_camera_cmdcb_t \<Rightarrow> 's \<Rightarrow> 's option) option \<Rightarrow> mm_camera_cmd_thread_t \<Rightarrow> 's \<Rightarrow>
   (mm_camera_cmd_thread_t \<times> 's) option" where
  "mm_camera_cmd_thread h t s =
     (if ct_cmd_sem t = 0 \<or> \<not> ct_running t then None
      else do {
        (running, s) \<leftarrow> cmd_thread_drain h True (ct_cmd_queue t) s;
        Some (t\<lparr>ct_cmd_sem := ct_cmd_sem t - 1, ct_cmd_queue := [], ct_running := running\<rparr>, s)
      })"

definition mm_camera_cmd_thread_launch ::
  "mm_camera_cmd_cb_t \<Rightarrow> uint32_t \<Rightarrow> mm_camera_cmd_thread_t \<Rightarrow> mm_camera_cmd_thread_t" where
  "mm_camera_cmd_thread_launch cb user_data t =
     t\<lparr>ct_cmd_sem := 0, ct_cmd_queue := [], ct_cb := Some cb, ct_user_data := user_data, ct_running := True\<rparr>"

text \<open>
  The state \<open>s\<close> the callback works on is the object that contains the thread, without the thread.
  A join of a thread that does not exist fails and is ignored.
\<close>

definition mm_camera_cmd_thread_stop ::
  "env \<Rightarrow> (mm_camera_cmdcb_t \<Rightarrow> 's \<times> world \<Rightarrow> ('s \<times> world) option) option \<Rightarrow> mm_camera_cmd_thread_t \<Rightarrow> 's \<Rightarrow> world \<Rightarrow>
   (int \<times> mm_camera_cmd_thread_t \<times> 's \<times> world) option" where
  "mm_camera_cmd_thread_stop e h t s w =
     (let (ok, w) = malloc e w
      in if \<not> ok then Some (-1, t, s, w)
         else do {
           (t, w) \<leftarrow> cmd_thread_post e MM_CAMERA_CMD_TYPE_EXIT t w;
           if \<not> ct_running t then Some (0, t, s, w)
           else do {
             (running, s, w) \<leftarrow> cmd_thread_drain h True (ct_cmd_queue t) (s, w);
             if running then None
             else Some (0, t\<lparr>ct_cmd_queue := [], ct_running := False\<rparr>, s, w)
           }
         })"

definition mm_camera_cmd_thread_destroy ::
  "mm_camera_cmd_thread_t \<Rightarrow> int \<times> mm_camera_cmd_thread_t" where
  "mm_camera_cmd_thread_destroy t = (0, zero_cmd_thread)"

definition mm_camera_cmd_thread_release ::
  "env \<Rightarrow> (mm_camera_cmdcb_t \<Rightarrow> 's \<times> world \<Rightarrow> ('s \<times> world) option) option \<Rightarrow> mm_camera_cmd_thread_t \<Rightarrow> 's \<Rightarrow> world \<Rightarrow>
   (int \<times> mm_camera_cmd_thread_t \<times> 's \<times> world) option" where
  "mm_camera_cmd_thread_release e h t s w = do {
     (rc, t, s, w) \<leftarrow> mm_camera_cmd_thread_stop e h t s w;
     if rc = 0 then (let (rc, t) = mm_camera_cmd_thread_destroy t in Some (rc, t, s, w))
     else Some (rc, t, s, w)
   }"

section \<open>Poll tables\<close>

definition poll_wf :: "mm_camera_poll_thread_t \<Rightarrow> bool" where
  "poll_wf pt \<longleftrightarrow> length (pt_poll_entries pt) = MAX_STREAM_NUM_IN_BUNDLE \<and>
     length (pt_poll_fds pt) = MAX_STREAM_NUM_IN_BUNDLE + 1"

text \<open>Slot \<open>i + 1\<close> of the poll array watches entry \<open>i\<close>, slot 0 the pipe.\<close>

definition poll_synced :: "mm_camera_poll_thread_t \<Rightarrow> bool" where
  "poll_synced pt \<longleftrightarrow> pt_num_fds pt = 5 \<and> pfd_fd (pt_poll_fds pt ! 0) = fst (pt_pfds pt) \<and>
     (\<forall>i < MAX_STREAM_NUM_IN_BUNDLE. pfd_fd (pt_poll_fds pt ! (i + 1)) =
        (if pe_fd (pt_poll_entries pt ! i) > 0 then pe_fd (pt_poll_entries pt ! i) else -1))"

lemma push_fd_fields [simp]:
  "pt_poll_entries (push_fd fd ev pt) = pt_poll_entries pt" "pt_pfds (push_fd fd ev pt) = pt_pfds pt"
  "pt_poll_type (push_fd fd ev pt) = pt_poll_type pt" "pt_running (push_fd fd ev pt) = pt_running pt"
  "pt_state (push_fd fd ev pt) = pt_state pt" "pt_status (push_fd fd ev pt) = pt_status pt"
  "length (pt_poll_fds (push_fd fd ev pt)) = length (pt_poll_fds pt)"
  by (simp_all add: push_fd_def)

lemma push_entry_fields [simp]:
  "pt_poll_entries (push_entry en pt) = pt_poll_entries pt" "pt_pfds (push_entry en pt) = pt_pfds pt"
  "pt_poll_type (push_entry en pt) = pt_poll_type pt" "pt_running (push_entry en pt) = pt_running pt"
  "pt_state (push_entry en pt) = pt_state pt" "pt_status (push_entry en pt) = pt_status pt"
  "length (pt_poll_fds (push_entry en pt)) = length (pt_poll_fds pt)"
  by (simp_all add: push_entry_def)

lemma fold_push_entry_fields [simp]:
  "pt_poll_entries (fold push_entry es pt) = pt_poll_entries pt"
  "pt_pfds (fold push_entry es pt) = pt_pfds pt" "pt_poll_type (fold push_entry es pt) = pt_poll_type pt"
  "pt_running (fold push_entry es pt) = pt_running pt" "pt_state (fold push_entry es pt) = pt_state pt"
  "pt_status (fold push_entry es pt) = pt_status pt"
  "length (pt_poll_fds (fold push_entry es pt)) = length (pt_poll_fds pt)"
  by (induction es arbitrary: pt) simp_all

lemma poll_entries_updated_fields [simp]:
  "pt_poll_entries (poll_entries_updated pt) = pt_poll_entries pt"
  "pt_pfds (poll_entries_updated pt) = pt_pfds pt" "pt_poll_type (poll_entries_updated pt) = pt_poll_type pt"
  "pt_running (poll_entries_updated pt) = pt_running pt" "pt_state (poll_entries_updated pt) = pt_state pt"
  "length (pt_poll_fds (poll_entries_updated pt)) = length (pt_poll_fds pt)"
  by (simp_all add: poll_entries_updated_def mm_camera_poll_sig_done_def Let_def
      split: mm_camera_poll_thread_type_t.split)

lemma all_less_4: "(\<forall>i < (4::nat). P i) \<longleftrightarrow> P 0 \<and> P 1 \<and> P 2 \<and> P 3"
  by (auto simp: less_Suc_eq eval_nat_numeral)

lemma poll_entries_updated_synced:
  assumes "poll_wf pt" and "pt_poll_type pt = MM_CAMERA_POLL_TYPE_DATA"
  shows "poll_synced (poll_entries_updated pt)"
proof -
  obtain a b c d where es: "pt_poll_entries pt = [a, b, c, d]"
    using assms(1) by (auto simp: poll_wf_def length_Suc_conv eval_nat_numeral)
  obtain p q r s t where ps: "pt_poll_fds pt = [p, q, r, s, t]"
    using assms(1) by (auto simp: poll_wf_def length_Suc_conv eval_nat_numeral)
  show ?thesis
    unfolding poll_synced_def
    by (simp add: poll_entries_updated_def assms(2) es ps push_fd_def push_entry_def
        mm_camera_poll_sig_done_def Let_def all_less_4)
qed

lemma poll_sig_updated:
  assumes "pt_running pt"
  shows "runs (mm_camera_poll_sig e MM_CAMERA_PIPE_CMD_POLL_ENTRIES_UPDATED pt w)
    (\<lambda>(rc, pt', w'). rc = 0 \<and> pt_poll_entries pt' = pt_poll_entries pt \<and> pt_pfds pt' = pt_pfds pt \<and>
      pt_poll_type pt' = pt_poll_type pt \<and> pt_running pt' \<and> pt_state pt' = pt_state pt \<and>
      length (pt_poll_fds pt') = length (pt_poll_fds pt) \<and>
      w' = snd (sys e (Sys_write (snd (pt_pfds pt))) w))"
  using assms by (simp add: mm_camera_poll_sig_def mm_camera_poll_proc_pipe_def sys_def Let_def)

lemma poll_sig_updated_synced:
  assumes "pt_running pt" and "poll_wf pt" and "pt_poll_type pt = MM_CAMERA_POLL_TYPE_DATA"
    and "e_rc e (w_trace w) (Sys_write (snd (pt_pfds pt))) \<ge> 1"
  shows "\<exists>pt' w'. mm_camera_poll_sig e MM_CAMERA_PIPE_CMD_POLL_ENTRIES_UPDATED pt w = Some (0, pt', w') \<and>
    poll_synced pt' \<and> pt_poll_entries pt' = pt_poll_entries pt \<and> pt_poll_type pt' = pt_poll_type pt"
proof -
  have "poll_synced (poll_entries_updated (pt\<lparr>pt_status := False\<rparr>))"
    by (rule poll_entries_updated_synced) (use assms in \<open>simp_all add: poll_wf_def\<close>)
  then show ?thesis
    using assms by (simp add: mm_camera_poll_sig_def mm_camera_poll_proc_pipe_def sys_def Let_def)
qed

section \<open>Draining a command queue\<close>

abbreviation (input) no_exit :: "mm_camera_cmdcb_t list \<Rightarrow> bool" where
  "no_exit cs \<equiv> MM_CAMERA_CMD_TYPE_EXIT \<notin> set cs \<and> MM_CAMERA_CMD_TYPE_MAX \<notin> set cs"

lemma drain_no_exit:
  assumes "no_exit cs"
  shows "cmd_thread_drain (Some f) r (cs @ ds) s = Option.bind (foldM f cs s) (cmd_thread_drain (Some f) r ds)"
  using assms
proof (induction cs arbitrary: s)
  case (Cons c cs)
  then show ?case by (cases c) (simp_all add: Option.bind_assoc cong: Option.bind_cong)
qed simp

lemma drain_running_mono: "cmd_thread_drain h False cs s = Some (r, s') \<Longrightarrow> \<not> r"
proof (induction cs arbitrary: s)
  case (Cons c cs)
  then show ?case
    by (cases c) (auto split: option.splits simp: Option.bind_eq_Some_conv)
qed simp

lemma stop_alt:
  assumes "ct_running t" and "no_exit (ct_cmd_queue t)" and "fst (malloc e w)" and "ct_cb t \<noteq> None"
  shows "mm_camera_cmd_thread_stop e (Some f) t s w =
    (let w1 = snd (malloc e w); w2 = snd (malloc e w1)
     in Option.bind (foldM f (ct_cmd_queue t) (s, w2)) (\<lambda>(s, w).
          if fst (malloc e w1)
          then Some (0, t\<lparr>ct_cmd_queue := [], ct_cmd_sem := ct_cmd_sem t + 1, ct_running := False\<rparr>, s, w)
          else None))"
  using assms drain_no_exit [OF assms(2), of f True "[MM_CAMERA_CMD_TYPE_EXIT]"]
    drain_no_exit [OF assms(2), of f True "[]"]
  by (auto simp: mm_camera_cmd_thread_stop_def cmd_thread_post_def Let_def split_beta
      intro!: Option.bind_cong) (simp split: Option.bind_split)

text \<open>
  Whatever a handler keeps, the release keeps: the queued commands are handled one after the other.
\<close>

lemma drain_pred_option:
  assumes "I s" and "\<And>c s. c \<in> set cs \<Longrightarrow> I s \<Longrightarrow> pred_option I (f c s)"
  shows "pred_option (\<lambda>(_, s'). I s') (cmd_thread_drain (Some f) r cs s)"
  using assms
proof (induction cs arbitrary: r s)
  case (Cons c cs)
  have IH: "pred_option (\<lambda>(_, s'). I s') (cmd_thread_drain (Some f) r' cs s')" if "I s'" for r' s'
    using Cons.IH [OF that] Cons.prems(2) by simp
  have "pred_option I (f c s)" using Cons.prems by simp
  then have step: "pred_option (\<lambda>s'. pred_option (\<lambda>(_, s'). I s') (cmd_thread_drain (Some f) r cs s')) (f c s)"
    by (rule pred_option_mono') (rule IH)
  show ?case
    using step IH [OF Cons.prems(1)] by (cases c) simp_all
qed simp

lemma release_pred_option:
  assumes "I s" and "\<And>c s w. I s \<Longrightarrow> pred_option (\<lambda>(s', _). I s') (f c (s, w))"
  shows "pred_option (\<lambda>(_, _, s', _). I s') (mm_camera_cmd_thread_release e (Some f) t s w)"
proof -
  have "pred_option (\<lambda>(_, s', _). I s') (cmd_thread_drain (Some f) r cs (s, w'))" for r cs w'
    using drain_pred_option [of "\<lambda>(s, _). I s" "(s, w')" cs f r] assms by (auto simp: case_prod_unfold)
  note d = this
  show ?thesis
    unfolding mm_camera_cmd_thread_release_def mm_camera_cmd_thread_stop_def
    using assms(1)
    by (auto simp: Let_def split_beta mm_camera_cmd_thread_destroy_def cmd_thread_post_def
        intro!: pred_option_mono' [OF d])
qed

lemma release_Some:
  assumes "mm_camera_cmd_thread_release e (Some f) t s w = Some (rc, t', s', w')" and "I s"
    and "\<And>c s w s' w'. f c (s, w) = Some (s', w') \<Longrightarrow> I s \<Longrightarrow> I s'"
  shows "I s'"
  using release_pred_option [of I s f e t w] assms by (auto simp: pred_option_iff)

text \<open>
  Total version: with enough memory, a release returns when the handler returns on every queued
  command, and the thread structure is then all zero.
\<close>

definition mem_ok :: "env \<Rightarrow> bool" where
  "mem_ok e \<longleftrightarrow> (\<forall>tr. e_rc e tr Sys_malloc \<noteq> 0)"

lemma mem_okD [simp]: "mem_ok e \<Longrightarrow> fst (malloc e w)"
  by (simp add: mem_ok_def malloc_def Let_def split_beta)

lemma drain_runs:
  assumes "I s" and "\<And>c s. c \<in> set cs \<Longrightarrow> c \<noteq> MM_CAMERA_CMD_TYPE_EXIT \<Longrightarrow> I s \<Longrightarrow> runs (f c s) I"
  shows "runs (cmd_thread_drain (Some f) r cs s) (\<lambda>(r', s'). I s' \<and> r' = (r \<and> no_exit cs))"
  using assms
proof (induction cs arbitrary: r s)
  case (Cons c cs)
  have IH: "runs (cmd_thread_drain (Some f) r' cs s') (\<lambda>(r'', s''). I s'' \<and> r'' = (r' \<and> no_exit cs))"
    if "I s'" for r' s'
    using Cons.IH [OF that] Cons.prems(2) by simp
  show ?case
  proof (cases "c = MM_CAMERA_CMD_TYPE_EXIT \<or> c = MM_CAMERA_CMD_TYPE_MAX")
    case True
    then show ?thesis using IH [OF Cons.prems(1), of False] by auto
  next
    case False
    have "runs (f c s) I" using Cons.prems False by simp
    then have "runs (f c s) (\<lambda>s'. runs (cmd_thread_drain (Some f) r cs s')
        (\<lambda>(r'', s''). I s'' \<and> r'' = (r \<and> no_exit cs)))"
      by (rule runs_mono) (rule IH)
    then show ?thesis using False by (cases c) simp_all
  qed
qed simp

lemma release_runs:
  assumes "mem_ok e" and "I (s, w)" and "\<And>p c. I p \<Longrightarrow> I (fst p, snd (sys e c (snd p)))"
    and "\<And>c p. c \<in> set (ct_cmd_queue t) \<Longrightarrow> c \<noteq> MM_CAMERA_CMD_TYPE_EXIT \<Longrightarrow> I p \<Longrightarrow> runs (f c p) I"
    and "ct_cb t \<noteq> None"
  shows "runs (mm_camera_cmd_thread_release e (Some f) t s w)
    (\<lambda>(rc, t', s', w'). rc = 0 \<and> t' = zero_cmd_thread \<and> I (s', w'))"
proof -
  have m: "I p \<Longrightarrow> I (fst p, snd (malloc e (snd p)))" for p
    using assms(3) by (simp add: malloc_def Let_def split_beta)
  let ?w = "snd (malloc e (snd (malloc e w)))"
  have w: "I (s, ?w)" using m [OF m [OF assms(2)]] by simp
  have "runs (cmd_thread_drain (Some f) True (ct_cmd_queue t @ [MM_CAMERA_CMD_TYPE_EXIT]) (s, ?w))
      (\<lambda>(r', p). I p \<and> r' = (True \<and> no_exit (ct_cmd_queue t @ [MM_CAMERA_CMD_TYPE_EXIT])))"
    by (rule drain_runs) (use w assms(4) in auto)
  then show ?thesis
    using assms(1,5) w
    by (auto simp: mm_camera_cmd_thread_release_def mm_camera_cmd_thread_stop_def cmd_thread_post_def
        mm_camera_cmd_thread_destroy_def Let_def split_beta elim: runs_mono)
qed

section \<open>Properties\<close>

abbreviation (input) data_ready :: "uint16_t \<Rightarrow> bool" where
  "data_ready r \<equiv> r AND POLLIN \<noteq> 0 \<and> r AND POLLRDNORM \<noteq> 0"

definition sample_poll_thread :: "uint32_t \<Rightarrow> mm_camera_poll_thread_t" where
  "sample_poll_thread h = zero_poll_thread\<lparr>pt_poll_type := MM_CAMERA_POLL_TYPE_DATA, pt_running := True,
     pt_poll_entries := (replicate MAX_STREAM_NUM_IN_BUNDLE zero_poll_entry)[2 := zero_poll_entry\<lparr>pe_handler := h\<rparr>]\<rparr>"

lemma sample_poll_thread:
  "poll_wf (sample_poll_thread h)" "pt_running (sample_poll_thread h)"
  "pt_poll_type (sample_poll_thread h) = MM_CAMERA_POLL_TYPE_DATA"
  "e_rc (calm_env 1) (w_trace calm_world) (Sys_write (snd (pt_pfds (sample_poll_thread h)))) \<ge> 1"
  by (simp_all add: sample_poll_thread_def poll_wf_def zero_poll_thread_def calm_env_def calm_rc_def)

lemma poll_fn_iter_data:
  assumes "poll_synced pt" and "pt_poll_type pt = MM_CAMERA_POLL_TYPE_DATA"
    and "rc > 0" and "\<not> data_ready (revents 0)"
  shows "(f, u) \<in> set (snd (mm_camera_poll_fn_iter rc revents cmd pt)) \<longleftrightarrow>
    (\<exists>i < MAX_STREAM_NUM_IN_BUNDLE. data_ready (revents (i + 1)) \<and>
       pe_notify_cb (pt_poll_entries pt ! i) = Some f \<and> pe_user_data (pt_poll_entries pt ! i) = u)"
proof -
  have n: "unat (pt_num_fds pt) = 5" using assms(1) by (simp add: poll_synced_def)
  have "(f, u) \<in> set (snd (mm_camera_poll_fn_iter rc revents cmd pt)) \<longleftrightarrow>
      (\<exists>j \<in> {1..<5}. data_ready (revents j) \<and> pe_notify_cb (pt_poll_entries pt ! (j - 1)) = Some f \<and>
        pe_user_data (pt_poll_entries pt ! (j - 1)) = u)"
    using assms(2-4)
    by (auto simp: mm_camera_poll_fn_iter_def poll_notify_def n Let_def split: option.splits)
      (rule bexI; simp)+
  also have "{1..<5::nat} = Suc ` {..<4}"
    by (simp add: image_Suc_lessThan atLeastLessThanSuc_atLeastAtMost [symmetric] eval_nat_numeral)
  finally show ?thesis by auto
qed

text \<open>
  C25. Adding a descriptor to a running data poll thread whose pipe can be written returns 0, and when
  it has returned the poll array watches the descriptor in the slot of the handle. From then on an
  iteration in which that slot (and not the pipe) is ready calls the registered callback with the
  registered user data, and only callbacks of entries whose slot is ready are called.
\<close>
theorem poll_add_then_notified:
  assumes "poll_wf pt" and "pt_running pt" and "pt_poll_type pt = MM_CAMERA_POLL_TYPE_DATA"
    and "e_rc e (w_trace w) (Sys_write (snd (pt_pfds pt))) \<ge> 1"
    and "i = unat (mm_camera_util_get_index_by_handler handler)" and "i < MAX_STREAM_NUM_IN_BUNDLE"
    and "fd > 0"
  shows "\<exists>pt' w'. mm_camera_poll_thread_add_poll_fd e handler fd (Some cb) userdata pt w = Some (0, pt', w') \<and>
    poll_synced pt' \<and> pfd_fd (pt_poll_fds pt' ! (i + 1)) = fd \<and>
    (\<forall>j < MAX_STREAM_NUM_IN_BUNDLE. j \<noteq> i \<longrightarrow> pt_poll_entries pt' ! j = pt_poll_entries pt ! j) \<and>
    (\<forall>rc revents cmd. rc > 0 \<and> \<not> data_ready (revents 0) \<longrightarrow>
       (data_ready (revents (i + 1)) \<longrightarrow>
          (cb, userdata) \<in> set (snd (mm_camera_poll_fn_iter rc revents cmd pt'))) \<and>
       (\<forall>(f, u) \<in> set (snd (mm_camera_poll_fn_iter rc revents cmd pt')).
          \<exists>j < MAX_STREAM_NUM_IN_BUNDLE. data_ready (revents (j + 1)) \<and>
            pe_notify_cb (pt_poll_entries pt' ! j) = Some f \<and> pe_user_data (pt_poll_entries pt' ! j) = u))"
proof -
  let ?en = "\<lparr>pe_fd = fd, pe_notify_cb = Some cb, pe_handler = handler, pe_user_data = userdata\<rparr>"
  let ?pt = "pt\<lparr>pt_poll_entries := (pt_poll_entries pt)[i := ?en]\<rparr>"
  obtain pt' w' where pt':
    "mm_camera_poll_sig e MM_CAMERA_PIPE_CMD_POLL_ENTRIES_UPDATED ?pt w = Some (0, pt', w')"
    "poll_synced pt'" "pt_poll_entries pt' = (pt_poll_entries pt)[i := ?en]"
    "pt_poll_type pt' = MM_CAMERA_POLL_TYPE_DATA"
    using poll_sig_updated_synced [of ?pt e w] assms(1-4) by (auto simp: poll_wf_def)
  have len: "i < length (pt_poll_entries pt)" using assms(1,6) by (simp add: poll_wf_def)
  have "mm_camera_poll_thread_add_poll_fd e handler fd (Some cb) userdata pt w = Some (0, pt', w')"
    using pt'(1) assms(3,5,6) by (simp add: mm_camera_poll_thread_add_poll_fd_def poll_idx_def)
  moreover have "pfd_fd (pt_poll_fds pt' ! (i + 1)) = fd"
    using pt'(2,3) assms(6,7) len unfolding poll_synced_def by auto
  moreover note poll_fn_iter_data [OF pt'(2,4)]
  ultimately show ?thesis
    using pt'(2,3) assms(6) len by (intro exI [of _ pt'] exI [of _ w']) auto
qed

theorem poll_add_then_notified_witness:
  "\<exists>pt' w'. mm_camera_poll_thread_add_poll_fd (calm_env 1) 0x102 9 (Some Fn_mm_stream_data_notify) 5
      (sample_poll_thread 0) calm_world = Some (0, pt', w') \<and>
    poll_synced pt' \<and> pfd_fd (pt_poll_fds pt' ! 3) = 9 \<and>
    (Fn_mm_stream_data_notify, 5) \<in>
      set (snd (mm_camera_poll_fn_iter 1 (\<lambda>j. if j = 3 then 0x41 else 0) MM_CAMERA_PIPE_CMD_MAX pt'))"
proof -
  have i: "(2::nat) = unat (mm_camera_util_get_index_by_handler 0x102)"
    by (simp add: mm_camera_util_get_index_by_handler_def)
  have ready: "data_ready (0x41 :: uint16_t)" and idle: "\<not> data_ready (0 :: uint16_t)"
    by (simp_all add: POLLIN_def POLLRDNORM_def)
  show ?thesis
    using poll_add_then_notified [OF sample_poll_thread(1) sample_poll_thread(2,3) sample_poll_thread(4) i,
        where fd = 9 and cb = Fn_mm_stream_data_notify and userdata = 5] ready idle
    by (fastforce simp: mult.commute)
qed

text \<open>
  C26. Deleting a registered descriptor from a running data poll thread whose pipe can be written
  returns 0; its slot then watches no descriptor, the other entries are unchanged, and whatever poll
  reports for that slot its old callback is not made on behalf of the deleted entry.
\<close>
theorem poll_del_then_silent:
  assumes "poll_wf pt" and "pt_running pt" and "pt_poll_type pt = MM_CAMERA_POLL_TYPE_DATA"
    and "e_rc e (w_trace w) (Sys_write (snd (pt_pfds pt))) \<ge> 1"
    and "i = unat (mm_camera_util_get_index_by_handler handler)" and "i < MAX_STREAM_NUM_IN_BUNDLE"
    and "pe_handler (pt_poll_entries pt ! i) = handler"
  shows "\<exists>pt' w'. mm_camera_poll_thread_del_poll_fd e handler pt w = Some (0, pt', w') \<and>
    poll_synced pt' \<and> pfd_fd (pt_poll_fds pt' ! (i + 1)) = -1 \<and>
    (\<forall>j < MAX_STREAM_NUM_IN_BUNDLE. j \<noteq> i \<longrightarrow> pt_poll_entries pt' ! j = pt_poll_entries pt ! j) \<and>
    (\<forall>revents. poll_notify pt' revents (i + 1) = [])"
proof -
  let ?en = "(pt_poll_entries pt ! i)\<lparr>pe_fd := -1, pe_handler := 0, pe_notify_cb := None\<rparr>"
  let ?pt = "pt\<lparr>pt_poll_entries := (pt_poll_entries pt)[i := ?en]\<rparr>"
  obtain pt' w' where pt':
    "mm_camera_poll_sig e MM_CAMERA_PIPE_CMD_POLL_ENTRIES_UPDATED ?pt w = Some (0, pt', w')"
    "poll_synced pt'" "pt_poll_entries pt' = (pt_poll_entries pt)[i := ?en]"
    using poll_sig_updated_synced [of ?pt e w] assms(1-4) by (auto simp: poll_wf_def)
  have len: "i < length (pt_poll_entries pt)" using assms(1,6) by (simp add: poll_wf_def)
  have "mm_camera_poll_thread_del_poll_fd e handler pt w = Some (0, pt', w')"
    using pt'(1) assms(3,5-7) by (simp add: mm_camera_poll_thread_del_poll_fd_def poll_idx_def)
  moreover have "pfd_fd (pt_poll_fds pt' ! (i + 1)) = -1"
    using pt'(2,3) assms(6) len unfolding poll_synced_def by auto
  ultimately show ?thesis
    using pt'(2,3) assms(6) len
    by (intro exI [of _ pt'] exI [of _ w']) (auto simp: poll_notify_def)
qed

theorem poll_del_then_silent_witness:
  "\<exists>pt' w'. mm_camera_poll_thread_del_poll_fd (calm_env 1) 0x102 (sample_poll_thread 0x102) calm_world =
      Some (0, pt', w') \<and> poll_synced pt' \<and> pfd_fd (pt_poll_fds pt' ! 3) = -1"
proof -
  have i: "(2::nat) = unat (mm_camera_util_get_index_by_handler 0x102)"
    by (simp add: mm_camera_util_get_index_by_handler_def)
  show ?thesis
    using poll_del_then_silent [OF sample_poll_thread(1) [of "0x102"] sample_poll_thread(2,3) sample_poll_thread(4) i]
    by (auto simp: sample_poll_thread_def)
qed

text \<open>
  C27. Releasing a running command thread, when both allocations succeed, handles every queued command
  exactly once, oldest first, before it returns; the thread structure is then zeroed. If a handler
  does not return, neither does the release.
\<close>
theorem cmd_thread_release_drains:
  assumes "ct_running t" and "ct_cb t \<noteq> None" and "no_exit (ct_cmd_queue t)"
    and "fst (malloc e w)" and "fst (malloc e (snd (malloc e w)))"
  shows "mm_camera_cmd_thread_release e (Some f) t s w =
    map_option (\<lambda>(s, w). (0, zero_cmd_thread, s, w))
      (foldM f (ct_cmd_queue t) (s, snd (malloc e (snd (malloc e w)))))"
  using assms
  by (auto simp: mm_camera_cmd_thread_release_def stop_alt mm_camera_cmd_thread_destroy_def Let_def
      split: Option.bind_split)

theorem cmd_thread_release_drains_witness:
  "\<exists>w. mm_camera_cmd_thread_release (calm_env 1) (Some (\<lambda>c (s, w). Some (s @ [c], w)))
      (zero_cmd_thread\<lparr>ct_cb := Some Fn_mm_stream_dispatch_app_data, ct_running := True, ct_cmd_queue := [MM_CAMERA_CMD_TYPE_REQ_DATA_CB 3, MM_CAMERA_CMD_TYPE_FLUSH_QUEUE 7]\<rparr>)
      [] calm_world =
    Some (0, zero_cmd_thread, [MM_CAMERA_CMD_TYPE_REQ_DATA_CB 3, MM_CAMERA_CMD_TYPE_FLUSH_QUEUE 7], w)"
  by (subst cmd_thread_release_drains)
    (simp_all add: malloc_def sys_def calm_env_def calm_rc_def calm_world_def)

text \<open>
  C28. When the queue node for EXIT cannot be allocated the failure goes unnoticed: the stop posts the
  semaphore and joins a thread that never leaves its loop, so it does not return.
\<close>
theorem cmd_thread_stop_hangs:
  assumes "ct_running t" and "ct_cb t \<noteq> None" and "no_exit (ct_cmd_queue t)"
    and "fst (malloc e w)" and "\<not> fst (malloc e (snd (malloc e w)))"
  shows "mm_camera_cmd_thread_stop e (Some f) t s w = None"
  using assms by (auto simp: stop_alt Let_def split: Option.bind_split)

theorem cmd_thread_stop_hangs_witness:
  "mm_camera_cmd_thread_stop ((calm_env 1)\<lparr>e_rc := (\<lambda>tr c. if length tr = 1 then 0 else 1)\<rparr>)
     (Some (\<lambda>c s. Some s)) (zero_cmd_thread\<lparr>ct_cb := Some Fn_mm_stream_dispatch_app_data, ct_running := True\<rparr>) () calm_world = None"
  by (rule cmd_thread_stop_hangs)
    (simp_all add: zero_cmd_thread_def malloc_def sys_def calm_env_def calm_world_def)

end
