(* ===== verification/Stream.thy ===== *)
theory Stream
  imports Threads
begin

text \<open>
  Streams (\<^verbatim>\<open>mm_camera_stream.c\<close>). A stream moves frame buffers between the driver, the client's
  callbacks and its channel. It is a state machine (acquire a device node, configure the format,
  get buffers, register them with the driver, stream), and it counts for every buffer who still
  uses it: the buffer goes back to the driver when the count reaches 0.

  An operation takes the stream (and the channel, where it uses the poll thread or the command
  queue of the channel) and the world, and returns the error code with the new states;
  \<^const>\<open>None\<close> is a fault or a call that blocks for ever.
\<close>

section \<open>Calls to the driver and to the camera server\<close>

definition mm_camera_util_s_ctrl :: "env \<Rightarrow> int \<Rightarrow> cam_priv_ctrl \<Rightarrow> world \<Rightarrow> int \<times> world" where
  "mm_camera_util_s_ctrl e fd ctrl_id w =
     (let (rc, w) = sys e (Sys_ioctl fd (VIDIOC_S_CTRL ctrl_id)) w in (if rc \<ge> 0 then 0 else -1, w))"

definition mm_camera_util_g_ctrl :: "env \<Rightarrow> int \<Rightarrow> cam_priv_ctrl \<Rightarrow> world \<Rightarrow> int \<times> world" where
  "mm_camera_util_g_ctrl e fd ctrl_id w =
     (let (rc, w) = sys e (Sys_ioctl fd (VIDIOC_G_CTRL ctrl_id)) w in (if rc \<ge> 0 then 0 else -1, w))"

text \<open>\<^const>\<open>None\<close> when the event never arrives.\<close>

definition mm_camera_util_wait_for_event :: "env \<Rightarrow> world \<Rightarrow> (uint32_t \<times> world) option" where
  "mm_camera_util_wait_for_event e w = do {
     status \<leftarrow> e_event e (w_trace w);
     Some (status, snd (sys e Sys_wait_event w))
   }"

definition MSM_CAMERA_STATUS_SUCCESS :: uint32_t where "MSM_CAMERA_STATUS_SUCCESS = 0"

definition mm_camera_util_sendmsg ::
  "env \<Rightarrow> cam_obj_ref \<Rightarrow> cam_sock_packet_t \<Rightarrow> int \<Rightarrow> world \<Rightarrow> (int \<times> world) option" where
  "mm_camera_util_sendmsg e cam msg sendfd w =
     (let (n, w) = sys e (Sys_socket_sendmsg (co_ds_fd cam) msg sendfd) w
      in if n > 0 then do {
           (status, w) \<leftarrow> mm_camera_util_wait_for_event e w;
           Some (if status = MSM_CAMERA_STATUS_SUCCESS then 0 else -1, w)
         }
         else Some (-1, w))"

section \<open>Parameters and buffers of the driver\<close>

definition mm_stream_set_parm :: "env \<Rightarrow> mm_stream_t \<Rightarrow> nat option \<Rightarrow> world \<Rightarrow> int \<times> world" where
  "mm_stream_set_parm e s in_value w =
     (if in_value \<noteq> None then mm_camera_util_s_ctrl e (s_fd s) CAM_PRIV_STREAM_PARM w else (-1, w))"

definition mm_stream_get_parm :: "env \<Rightarrow> mm_stream_t \<Rightarrow> nat option \<Rightarrow> world \<Rightarrow> int \<times> world" where
  "mm_stream_get_parm e s in_value w =
     (if in_value \<noteq> None then mm_camera_util_g_ctrl e (s_fd s) CAM_PRIV_STREAM_PARM w else (-1, w))"

definition mm_stream_do_action ::
  "env \<Rightarrow> mm_stream_t \<Rightarrow> mm_evt_paylod_do_stream_action_t option \<Rightarrow> world \<Rightarrow> int \<times> world" where
  "mm_stream_do_action e s in_value w =
     (if in_value \<noteq> None then mm_camera_util_s_ctrl e (s_fd s) CAM_PRIV_STREAM_PARM w else (-1, w))"

definition mm_stream_set_ext_mode :: "env \<Rightarrow> mm_stream_t \<Rightarrow> world \<Rightarrow> int \<times> mm_stream_t \<times> world" where
  "mm_stream_set_ext_mode e s w =
     (let extendedmode = e_extendedmode e (w_trace w);
          (rc, w) = sys e (Sys_ioctl (s_fd s) VIDIOC_S_PARM) w
      in (rc, if rc = 0 then s\<lparr>s_server_stream_id := extendedmode\<rparr> else s, w))"

definition mm_stream_qbuf ::
  "env \<Rightarrow> mm_stream_t \<Rightarrow> mm_camera_buf_def_t \<Rightarrow> world \<Rightarrow> int \<times> world" where
  "mm_stream_qbuf e s buf w =
     (let q = Sys_ioctl (s_fd s) (VIDIOC_QBUF (b_buf_idx buf) (b_planes buf) (b_num_planes buf))
      in case vt_invalidate_buf (s_mem_vtbl s) of
           None \<Rightarrow> sys e q w
         | Some f \<Rightarrow>
             (let (rc, w) = sys e (Vtbl_invalidate_buf f (vt_user_data (s_mem_vtbl s)) (b_buf_idx buf)) w
              in if rc < 0 then (rc, w) else sys e q w))"

definition mm_stream_request_buf :: "env \<Rightarrow> mm_stream_t \<Rightarrow> world \<Rightarrow> int \<times> world" where
  "mm_stream_request_buf e s w =
     (if unat (s_buf_num s) > MM_CAMERA_MAX_NUM_FRAMES then (-1, w)
      else sys e (Sys_ioctl (s_fd s) (VIDIOC_REQBUFS (unat (s_buf_num s)))) w)"

definition mm_stream_map_buf ::
  "env \<Rightarrow> mm_stream_t \<Rightarrow> mm_channel_t \<Rightarrow> cam_mapping_buf_type \<Rightarrow> uint32_t \<Rightarrow> int \<Rightarrow> int \<Rightarrow> uint32_t \<Rightarrow> world \<Rightarrow>
   (int \<times> world) option" where
  "mm_stream_map_buf e s ch buf_type frame_idx plane_idx fd sz w =
     (case (s_ch_obj s, ch_cam_obj ch) of
        (Some _, Some cam) \<Rightarrow>
          mm_camera_util_sendmsg e cam (CAM_MAPPING_TYPE_FD_MAPPING
            \<lparr>map_type = buf_type, map_stream_id = s_server_stream_id s, map_frame_idx = frame_idx,
             map_plane_idx = plane_idx, map_fd = fd, map_size = sz\<rparr>) fd w
      | _ \<Rightarrow> Some (-1, w))"

definition mm_stream_unmap_buf ::
  "env \<Rightarrow> mm_stream_t \<Rightarrow> mm_channel_t \<Rightarrow> cam_mapping_buf_type \<Rightarrow> uint32_t \<Rightarrow> int \<Rightarrow> world \<Rightarrow>
   (int \<times> world) option" where
  "mm_stream_unmap_buf e s ch buf_type frame_idx plane_idx w =
     (case (s_ch_obj s, ch_cam_obj ch) of
        (Some _, Some cam) \<Rightarrow>
          mm_camera_util_sendmsg e cam (CAM_MAPPING_TYPE_FD_UNMAPPING
            \<lparr>unmap_type = buf_type, unmap_stream_id = s_server_stream_id s, unmap_frame_idx = frame_idx,
             unmap_plane_idx = plane_idx\<rparr>) 0 w
      | _ \<Rightarrow> Some (-1, w))"

section \<open>Getting and registering buffers\<close>

text \<open>
  The allocator of the client may call back \<^verbatim>\<open>mm_stream_map_buf\<close> and \<^verbatim>\<open>mm_stream_unmap_buf\<close>, which
  do not change the stream.
\<close>

definition mm_stream_deinit_bufs :: "env \<Rightarrow> mm_stream_t \<Rightarrow> world \<Rightarrow> (int \<times> mm_stream_t \<times> world) option" where
  "mm_stream_deinit_bufs e s w =
     (if s_buf s = None then Some (0, s, w)
      else do {
        put_bufs \<leftarrow> vt_put_bufs (s_mem_vtbl s);
        let (rc, w) = sys e (Vtbl_put_bufs put_bufs (vt_user_data (s_mem_vtbl s))) w;
        Some (rc, s\<lparr>s_buf := None, s_buf_status := None\<rparr>, w)
      })"

definition init_buf_entry ::
  "bool list option \<Rightarrow> nat \<Rightarrow> mm_stream_t \<Rightarrow> mm_stream_t option" where
  "init_buf_entry reg_flags i s = do {
     flags \<leftarrow> reg_flags;
     flag \<leftarrow> nth_opt flags (int i);
     status \<leftarrow> s_buf_status s;
     st \<leftarrow> nth_opt status (int i);
     bufs \<leftarrow> s_buf s;
     b \<leftarrow> nth_opt bufs (int i);
     si \<leftarrow> s_stream_info s;
     Some (s\<lparr>s_buf_status := Some (status[i := st\<lparr>initial_reg_flag := flag\<rparr>]),
             s_buf := Some (bufs[i := b\<lparr>b_stream_id := s_my_hdl s, b_stream_type := si_stream_type si\<rparr>])\<rparr>)
   }"

definition mm_stream_init_bufs :: "env \<Rightarrow> mm_stream_t \<Rightarrow> world \<Rightarrow> (int \<times> mm_stream_t \<times> world) option" where
  "mm_stream_init_bufs e s w = do {
     (s, w) \<leftarrow> (if s_buf s \<noteq> None then map_option snd (mm_stream_deinit_bufs e s w) else Some (s, w));
     get_bufs \<leftarrow> vt_get_bufs (s_mem_vtbl s);
     let r = e_get_bufs e (w_trace w);
     let w = snd (sys e (Vtbl_get_bufs get_bufs (vt_user_data (s_mem_vtbl s)) (s_frame_offset s) (s_buf_num s)) w);
     let s = s\<lparr>s_buf_num := gb_num_bufs r, s_buf := gb_bufs r\<rparr>;
     if gb_rc r \<noteq> 0 then Some (gb_rc r, s, w)
     else do {
       let (ok, w) = malloc e w;
       if \<not> ok then do {
         (_, s, w) \<leftarrow> mm_stream_deinit_bufs e (s\<lparr>s_buf_status := None\<rparr>) w;
         Some (-1, s, w)
       }
       else do {
         let s = s\<lparr>s_buf_status := Some (replicate (unat (s_buf_num s)) zero_buf_status)\<rparr>;
         s \<leftarrow> foldM (init_buf_entry (gb_reg_flags r)) [0..<unat (s_buf_num s)] s;
         Some (0, s, w)
       }
     }
   }"

text \<open>The loop of \<^verbatim>\<open>mm_stream_reg_buf\<close> stops at the first buffer the driver refuses.\<close>

definition set_status :: "nat \<Rightarrow> uint8_t \<Rightarrow> bool \<Rightarrow> mm_stream_buf_status_t list \<Rightarrow> mm_stream_buf_status_t list" where
  "set_status i refcnt kern sts = sts[i := (sts ! i)\<lparr>buf_refcnt := refcnt, in_kernel := kern\<rparr>]"

fun reg_buf_loop ::
  "env \<Rightarrow> nat list \<Rightarrow> mm_stream_t \<Rightarrow> world \<Rightarrow> (int \<times> mm_stream_t \<times> world) option" where
  "reg_buf_loop e [] s w = Some (0, s, w)"
| "reg_buf_loop e (i # is) s w = do {
     status \<leftarrow> s_buf_status s;
     st \<leftarrow> nth_opt status (int i);
     if initial_reg_flag st then do {
       bufs \<leftarrow> s_buf s;
       b \<leftarrow> nth_opt bufs (int i);
       let (rc, w) = mm_stream_qbuf e s b w;
       if rc \<noteq> 0 then Some (rc, s, w)
       else reg_buf_loop e is (s\<lparr>s_buf_status := Some (set_status i 0 True status)\<rparr>) w
     }
     else reg_buf_loop e is (s\<lparr>s_buf_status := Some (set_status i 1 False status)\<rparr>) w
   }"

definition mm_stream_reg_buf :: "env \<Rightarrow> mm_stream_t \<Rightarrow> world \<Rightarrow> (int \<times> mm_stream_t \<times> world) option" where
  "mm_stream_reg_buf e s w =
     (let (rc, w) = mm_stream_request_buf e s w
      in if rc \<noteq> 0 then Some (rc, s, w)
         else reg_buf_loop e [0..<unat (s_buf_num s)] s w)"

definition mm_stream_unreg_buf :: "env \<Rightarrow> mm_stream_t \<Rightarrow> world \<Rightarrow> (int \<times> mm_stream_t \<times> world) option" where
  "mm_stream_unreg_buf e s w =
     (let (rc, w) = sys e (Sys_ioctl (s_fd s) (VIDIOC_REQBUFS 0)) w
      in case s_buf_status s of
           None \<Rightarrow> Some (rc, s, w)
         | Some status \<Rightarrow>
             if length status < unat (s_buf_num s) then None
             else Some (rc, s\<lparr>s_buf_status :=
               Some (fold (\<lambda>i. set_status i 0 False) [0..<unat (s_buf_num s)] status)\<rparr>, w))"


section \<open>Format\<close>

definition mm_stream_calc_offset :: "env \<Rightarrow> mm_stream_t \<Rightarrow> (int \<times> mm_stream_t) option" where
  "mm_stream_calc_offset e s = do {
     si \<leftarrow> s_stream_info s;
     let (rc, si) = calc_offset (e_build e) (s_padding_info s) si;
     Some (rc, s\<lparr>s_stream_info := Some si, s_frame_offset := si_buf_planes si\<rparr>)
   }"

text \<open>The stream information is shared with the server, which may update it when it is told to.\<close>

definition mm_stream_sync_info :: "env \<Rightarrow> mm_stream_t \<Rightarrow> world \<Rightarrow> (int \<times> mm_stream_t \<times> world) option" where
  "mm_stream_sync_info e s w = do {
     si \<leftarrow> s_stream_info s;
     (rc, s) \<leftarrow> mm_stream_calc_offset e
       (s\<lparr>s_stream_info := Some (si\<lparr>stream_svr_id := s_server_stream_id s\<rparr>)\<rparr>);
     if rc = 0 then
       (let upd = e_sync_info e (w_trace w);
            (rc, w) = mm_camera_util_s_ctrl e (s_fd s) CAM_PRIV_STREAM_INFO_SYNC w
        in Some (rc, s\<lparr>s_stream_info := map_option upd (s_stream_info s)\<rparr>, w))
     else Some (rc, s, w)
   }"

abbreviation (input) VIDEO_MAX_PLANES :: int where "VIDEO_MAX_PLANES \<equiv> 8"

definition mm_stream_set_fmt :: "env \<Rightarrow> mm_stream_t \<Rightarrow> world \<Rightarrow> (int \<times> world) option" where
  "mm_stream_set_fmt e s w = do {
     si \<leftarrow> s_stream_info s;
     if dim_width (si_dim si) = 0 \<or> dim_height (si_dim si) = 0 then Some (-1, w)
     else if fo_num_planes (s_frame_offset s) > VIDEO_MAX_PLANES then None
     else Some (sys e (Sys_ioctl (s_fd s) (VIDIOC_S_FMT
       \<lparr>mf_width = dim_width (si_dim si), mf_height = dim_height (si_dim si),
        mf_pixelformat = mm_stream_get_v4l2_fmt (si_fmt si),
        mf_num_planes = fo_num_planes (s_frame_offset s),
        mf_plane_sizes = map (\<lambda>i. mp_len (fo_mp (s_frame_offset s) i))
          [0..<nat (fo_num_planes (s_frame_offset s))]\<rparr>)) w)
   }"

definition mm_stream_config ::
  "env \<Rightarrow> mm_stream_t \<Rightarrow> mm_camera_stream_config_t \<Rightarrow> world \<Rightarrow> (int \<times> mm_stream_t \<times> world) option" where
  "mm_stream_config e s config w = do {
     let s = s\<lparr>s_stream_info := cfg_stream_info config, s_buf_num := 0,
               s_mem_vtbl := cfg_mem_vtbl config, s_padding_info := cfg_padding_info config,
               s_buf_cb := (s_buf_cb s)[0 := \<lparr>dcb_cb = cfg_stream_cb config,
                 dcb_user_data = cfg_userdata config, dcb_cb_count = -1\<rparr>]\<rparr>;
     (rc, s, w) \<leftarrow> mm_stream_sync_info e s w;
     if rc = 0 then do {
       (rc, w) \<leftarrow> mm_stream_set_fmt e s w;
       Some (rc, s, w)
     }
     else Some (rc, s, w)
   }"

definition mm_stream_release :: "env \<Rightarrow> mm_stream_t \<Rightarrow> world \<Rightarrow> int \<times> mm_stream_t \<times> world" where
  "mm_stream_release e s w =
     (let w = (if s_fd s > 0 then snd (sys e (Sys_close (s_fd s)) w) else w)
      in (0, zero_stream, w))"

section \<open>Frames\<close>

definition mm_stream_buf_done ::
  "env \<Rightarrow> mm_stream_t \<Rightarrow> mm_camera_buf_def_t \<Rightarrow> world \<Rightarrow> (int \<times> mm_stream_t \<times> world) option" where
  "mm_stream_buf_done e s frame w = do {
     status \<leftarrow> s_buf_status s;
     st \<leftarrow> nth_opt status (b_buf_idx frame);
     let i = nat (b_buf_idx frame);
     if buf_refcnt st = 0 then Some (-1, s, w)
     else do {
       let st = st\<lparr>buf_refcnt := buf_refcnt st - 1\<rparr>;
       let s = s\<lparr>s_buf_status := Some (status[i := st])\<rparr>;
       if buf_refcnt st = 0 then do {
         let (rc, w) = mm_stream_qbuf e s frame w;
         if rc < 0 then Some (rc, s, w)
         else Some (rc, s\<lparr>s_buf_status := Some (status[i := st\<lparr>in_kernel := True\<rparr>])\<rparr>, w)
       }
       else Some (0, s, w)
     }
   }"

definition mm_stream_reg_buf_cb :: "mm_stream_data_cb_t \<Rightarrow> mm_stream_t \<Rightarrow> int \<times> mm_stream_t" where
  "mm_stream_reg_buf_cb val s =
     (case find_idx (\<lambda>c. dcb_cb c = None) (s_buf_cb s) of
        Some i \<Rightarrow> (0, s\<lparr>s_buf_cb := (s_buf_cb s)[i := val]\<rparr>)
      | None \<Rightarrow> (-1, s))"

definition stream_has_cb :: "mm_stream_t \<Rightarrow> bool" where
  "stream_has_cb s \<longleftrightarrow> find_idx (\<lambda>c. dcb_cb c \<noteq> None) (s_buf_cb s) \<noteq> None"

text \<open>
  \<^verbatim>\<open>int8_t idx = vb.index\<close>: the index of the driver is cut to 8 bits and read as signed. The
  content of a metadata buffer is what the driver has put there.
\<close>

definition mm_stream_read_msm_frame ::
  "env \<Rightarrow> mm_stream_t \<Rightarrow> world \<Rightarrow> (int \<times> mm_camera_buf_info_t \<times> mm_stream_t \<times> world) option" where
  "mm_stream_read_msm_frame e s w =
     (let vb = e_dqbuf e (w_trace w);
          (rc, w) = sys e (Sys_ioctl (s_fd s) VIDIOC_DQBUF) w
      in if rc < 0 then Some (rc, zero_buf_info, s, w)
         else do {
           let idx = sint (ucast (vb_index vb) :: uint8_t);
           bufs \<leftarrow> s_buf s;
           b \<leftarrow> nth_opt bufs idx;
           let b = b\<lparr>b_stream_id := s_my_hdl s, b_buf_idx := idx, b_frame_idx := vb_sequence vb,
                     b_ts := (fst (vb_timestamp vb), snd (vb_timestamp vb) * 1000),
                     b_is_uv_subsampled := vb_uv_subsampled vb,
                     b_buffer := map_option (\<lambda>_. vb_content vb) (b_buffer b)\<rparr>;
           let s = s\<lparr>s_buf := Some (bufs[nat idx := b])\<rparr>;
           let bi = \<lparr>bi_stream_id = s_my_hdl s, bi_frame_idx = vb_sequence vb, bi_buf = Some b\<rparr>;
           _ \<leftarrow> s_stream_info s;
           case vt_clean_invalidate_buf (s_mem_vtbl s) of
             None \<Rightarrow> Some (rc, bi, s, w)
           | Some f \<Rightarrow>
               (let (rc, w) = sys e (Vtbl_clean_invalidate_buf f (vt_user_data (s_mem_vtbl s)) idx) w
                in Some (rc, bi, s, w))
         })"

definition mm_stream_handle_rcvd_buf ::
  "env \<Rightarrow> mm_camera_buf_info_t \<Rightarrow> bool \<Rightarrow> mm_stream_t \<Rightarrow> mm_channel_t \<Rightarrow> world \<Rightarrow>
   (mm_stream_t \<times> mm_channel_t \<times> world) option" where
  "mm_stream_handle_rcvd_buf e bi has_cb s ch w = do {
     (ch, w) \<leftarrow> (if s_is_bundled s then
                  (let (ok, w) = malloc e w
                   in if ok then do {
                        _ \<leftarrow> s_ch_obj s;
                        (t, w) \<leftarrow> cmd_thread_post e (MM_CAMERA_CMD_TYPE_DATA_CB bi) (ch_cmd_thread ch) w;
                        Some (ch\<lparr>ch_cmd_thread := t\<rparr>, w)
                      }
                      else Some (ch, w))
                else Some (ch, w));
     if has_cb then
       (let (ok, w) = malloc e w
        in if ok then do {
             (t, w) \<leftarrow> cmd_thread_post e (MM_CAMERA_CMD_TYPE_DATA_CB bi) (s_cmd_thread s) w;
             Some (s\<lparr>s_cmd_thread := t\<rparr>, ch, w)
           }
           else Some (s, ch, w))
     else Some (s, ch, w)
   }"

definition mm_stream_data_notify ::
  "env \<Rightarrow> mm_stream_t \<Rightarrow> mm_channel_t \<Rightarrow> world \<Rightarrow> (mm_stream_t \<times> mm_channel_t \<times> world) option" where
  "mm_stream_data_notify e s ch w =
     (if s_state s \<noteq> MM_STREAM_STATE_ACTIVE then Some (s, ch, w)
      else do {
        (rc, bi, s, w) \<leftarrow> mm_stream_read_msm_frame e s w;
        if rc \<noteq> 0 then Some (s, ch, w)
        else do {
          b \<leftarrow> bi_buf bi;
          let has_cb = stream_has_cb s;
          status \<leftarrow> s_buf_status s;
          st \<leftarrow> nth_opt status (b_buf_idx b);
          let refcnt = buf_refcnt st + (if s_is_bundled s then 1 else 0) + (if has_cb then 1 else 0);
          let s = s\<lparr>s_buf_status := Some (status[nat (b_buf_idx b) :=
                   st\<lparr>in_kernel := False, buf_refcnt := refcnt\<rparr>])\<rparr>;
          mm_stream_handle_rcvd_buf e bi has_cb s ch w
        }
      })"

text \<open>One iteration of the loop over the registered callbacks.\<close>

definition dispatch_cb ::
  "env \<Rightarrow> mm_camera_super_buf_t \<Rightarrow> mm_camera_buf_info_t \<Rightarrow> nat \<Rightarrow> mm_stream_t \<times> world \<Rightarrow>
   (mm_stream_t \<times> world) option" where
  "dispatch_cb e super_buf bi i = (\<lambda>(s, w).
     (let c = s_buf_cb s ! i
      in case dcb_cb c of
           None \<Rightarrow> Some (s, w)
         | Some f \<Rightarrow> do {
             (s, w) \<leftarrow> (if dcb_cb_count c \<noteq> 0 then do {
                          b \<leftarrow> bi_buf bi;
                          status \<leftarrow> s_buf_status s;
                          st \<leftarrow> nth_opt status (b_buf_idx b);
                          let s = s\<lparr>s_buf_status := Some (status[nat (b_buf_idx b) :=
                                   st\<lparr>buf_refcnt := buf_refcnt st + 1\<rparr>])\<rparr>;
                          Some (s, snd (sys e (Cb_buf_notify f (dcb_user_data c) super_buf) w))
                        }
                        else Some (s, w));
             let c = (if dcb_cb_count c > 0 then
                        (let c = c\<lparr>dcb_cb_count := dcb_cb_count c - 1\<rparr>
                         in if dcb_cb_count c = 0 then c\<lparr>dcb_cb := None, dcb_user_data := 0\<rparr> else c)
                      else c);
             Some (s\<lparr>s_buf_cb := (s_buf_cb s)[i := c]\<rparr>, w)
           }))"

definition mm_stream_dispatch_app_data ::
  "env \<Rightarrow> mm_channel_t \<Rightarrow> mm_camera_cmdcb_t \<Rightarrow> mm_stream_t \<times> world \<Rightarrow> (mm_stream_t \<times> world) option" where
  "mm_stream_dispatch_app_data e ch cmd_cb = (\<lambda>(s, w).
     (case cmd_cb of
        MM_CAMERA_CMD_TYPE_DATA_CB bi \<Rightarrow> do {
          _ \<leftarrow> s_ch_obj s;
          cam \<leftarrow> ch_cam_obj ch;
          let super_buf = \<lparr>sb_camera_handle = co_my_hdl cam, sb_ch_id = ch_my_hdl ch, sb_num_bufs = 1,
                           sb_bufs = [bi_buf bi]\<rparr>;
          (s, w) \<leftarrow> foldM (dispatch_cb e super_buf bi) [0..<MM_CAMERA_STREAM_BUF_CB_MAX] (s, w);
          b \<leftarrow> bi_buf bi;
          (_, s, w) \<leftarrow> mm_stream_buf_done e s b w;
          Some (s, w)
        }
      | _ \<Rightarrow> Some (s, w)))"

section \<open>Streaming\<close>

definition mm_stream_streamon ::
  "env \<Rightarrow> mm_stream_t \<Rightarrow> mm_channel_t \<Rightarrow> world \<Rightarrow> (int \<times> mm_channel_t \<times> world) option" where
  "mm_stream_streamon e s ch w = do {
     (rc, pt, w) \<leftarrow> mm_camera_poll_thread_add_poll_fd e (s_my_hdl s) (s_fd s)
       (Some Fn_mm_stream_data_notify) (s_my_hdl s) (ch_poll_thread ch) w;
     let ch = ch\<lparr>ch_poll_thread := pt\<rparr>;
     if rc < 0 then Some (rc, ch, w)
     else do {
       let (rc, w) = sys e (Sys_ioctl (s_fd s) VIDIOC_STREAMON) w;
       if rc < 0 then do {
         (_, pt, w) \<leftarrow> mm_camera_poll_thread_del_poll_fd e (s_my_hdl s) (ch_poll_thread ch) w;
         Some (rc, ch\<lparr>ch_poll_thread := pt\<rparr>, w)
       }
       else Some (rc, ch, w)
     }
   }"

definition mm_stream_streamoff ::
  "env \<Rightarrow> mm_stream_t \<Rightarrow> mm_channel_t \<Rightarrow> world \<Rightarrow> (int \<times> mm_channel_t \<times> world) option" where
  "mm_stream_streamoff e s ch w = do {
     (_, pt, w) \<leftarrow> mm_camera_poll_thread_del_poll_fd e (s_my_hdl s) (ch_poll_thread ch) w;
     let (rc, w) = sys e (Sys_ioctl (s_fd s) VIDIOC_STREAMOFF) w;
     Some (rc, ch\<lparr>ch_poll_thread := pt\<rparr>, w)
   }"

text \<open>\<^verbatim>\<open>mm_camera_cmd_thread_release(&my_obj->cmd_thread)\<close>: the queued frames are dispatched first.\<close>

definition stream_release_thread ::
  "env \<Rightarrow> mm_channel_t \<Rightarrow> mm_stream_t \<Rightarrow> world \<Rightarrow> (mm_stream_t \<times> world) option" where
  "stream_release_thread e ch s w = do {
     (_, t, s, w) \<leftarrow> mm_camera_cmd_thread_release e
       (map_option (\<lambda>_. mm_stream_dispatch_app_data e ch) (ct_cb (s_cmd_thread s))) (s_cmd_thread s) s w;
     Some (s\<lparr>s_cmd_thread := t\<rparr>, w)
   }"

section \<open>State machine\<close>

type_synonym stream_result = "(int \<times> mm_stream_t \<times> mm_channel_t \<times> world) option"

text \<open>The events that only read the stream.\<close>

definition stream_parm_evt ::
  "(env \<Rightarrow> mm_stream_t \<Rightarrow> nat option \<Rightarrow> world \<Rightarrow> int \<times> world) \<Rightarrow> env \<Rightarrow>
   mm_evt_paylod_set_get_stream_parms_t option \<Rightarrow> mm_stream_t \<Rightarrow> mm_channel_t \<Rightarrow> world \<Rightarrow> stream_result" where
  "stream_parm_evt f e payload s ch w = do {
     p \<leftarrow> payload;
     let (rc, w) = f e s (pl_parms p) w;
     Some (rc, s, ch, w)
   }"

definition mm_stream_fsm_inited ::
  "env \<Rightarrow> mm_stream_evt_type_t \<Rightarrow> mm_stream_t \<Rightarrow> mm_channel_t \<Rightarrow> world \<Rightarrow> stream_result" where
  "mm_stream_fsm_inited e evt s ch w =
     (case evt of
        MM_STREAM_EVT_ACQUIRE \<Rightarrow>
          (case (s_ch_obj s, ch_cam_obj ch) of
             (Some _, Some cam) \<Rightarrow> do {
               name \<leftarrow> mm_camera_util_get_dev_name (co_my_hdl cam) w;
               let dev_name = take (MM_CAMERA_DEV_NAME_LEN - 1) (''/dev/'' @ name);
               let (fd, w) = sys e (Sys_open dev_name) w;
               let s = s\<lparr>s_fd := fd\<rparr>;
               if fd \<le> 0 then Some (-1, s, ch, w)
               else do {
                 let (rc, s, w) = mm_stream_set_ext_mode e s w;
                 if rc = 0 then Some (rc, s\<lparr>s_state := MM_STREAM_STATE_ACQUIRED\<rparr>, ch, w)
                 else Some (rc, s\<lparr>s_fd := 0\<rparr>, ch, snd (sys e (Sys_close fd) w))
               }
             }
           | _ \<Rightarrow> Some (-1, s, ch, w))
      | _ \<Rightarrow> Some (0, s, ch, w))"

definition mm_stream_fsm_acquired ::
  "env \<Rightarrow> mm_stream_evt_type_t \<Rightarrow> mm_stream_t \<Rightarrow> mm_channel_t \<Rightarrow> world \<Rightarrow> stream_result" where
  "mm_stream_fsm_acquired e evt s ch w =
     (case evt of
        MM_STREAM_EVT_SET_FMT config \<Rightarrow> do {
          config \<leftarrow> config;
          (rc, s, w) \<leftarrow> mm_stream_config e s config w;
          Some (rc, s\<lparr>s_state := MM_STREAM_STATE_CFG\<rparr>, ch, w)
        }
      | MM_STREAM_EVT_RELEASE \<Rightarrow>
          (let (rc, s, w) = mm_stream_release e s w
           in Some (rc, s\<lparr>s_state := MM_STREAM_STATE_NOTUSED\<rparr>, ch, w))
      | MM_STREAM_EVT_SET_PARM payload \<Rightarrow> stream_parm_evt mm_stream_set_parm e payload s ch w
      | MM_STREAM_EVT_GET_PARM payload \<Rightarrow> stream_parm_evt mm_stream_get_parm e payload s ch w
      | _ \<Rightarrow> Some (0, s, ch, w))"

definition mm_stream_fsm_cfg ::
  "env \<Rightarrow> mm_stream_evt_type_t \<Rightarrow> mm_stream_t \<Rightarrow> mm_channel_t \<Rightarrow> world \<Rightarrow> stream_result" where
  "mm_stream_fsm_cfg e evt s ch w =
     (case evt of
        MM_STREAM_EVT_SET_FMT config \<Rightarrow> do {
          config \<leftarrow> config;
          (rc, s, w) \<leftarrow> mm_stream_config e s config w;
          Some (rc, s\<lparr>s_state := MM_STREAM_STATE_CFG\<rparr>, ch, w)
        }
      | MM_STREAM_EVT_RELEASE \<Rightarrow>
          (let (rc, s, w) = mm_stream_release e s w
           in Some (rc, s\<lparr>s_state := MM_STREAM_STATE_NOTUSED\<rparr>, ch, w))
      | MM_STREAM_EVT_SET_PARM payload \<Rightarrow> stream_parm_evt mm_stream_set_parm e payload s ch w
      | MM_STREAM_EVT_GET_PARM payload \<Rightarrow> stream_parm_evt mm_stream_get_parm e payload s ch w
      | MM_STREAM_EVT_GET_BUF \<Rightarrow> do {
          (rc, s, w) \<leftarrow> mm_stream_init_bufs e s w;
          Some (rc, if rc = 0 then s\<lparr>s_state := MM_STREAM_STATE_BUFFED\<rparr> else s, ch, w)
        }
      | _ \<Rightarrow> Some (0, s, ch, w))"

definition mm_stream_fsm_buffed ::
  "env \<Rightarrow> mm_stream_evt_type_t \<Rightarrow> mm_stream_t \<Rightarrow> mm_channel_t \<Rightarrow> world \<Rightarrow> stream_result" where
  "mm_stream_fsm_buffed e evt s ch w =
     (case evt of
        MM_STREAM_EVT_PUT_BUF \<Rightarrow> do {
          (rc, s, w) \<leftarrow> mm_stream_deinit_bufs e s w;
          Some (rc, s\<lparr>s_state := MM_STREAM_STATE_CFG\<rparr>, ch, w)
        }
      | MM_STREAM_EVT_REG_BUF \<Rightarrow> do {
          (rc, s, w) \<leftarrow> mm_stream_reg_buf e s w;
          Some (rc, if rc = 0 then s\<lparr>s_state := MM_STREAM_STATE_REG\<rparr> else s, ch, w)
        }
      | MM_STREAM_EVT_SET_PARM payload \<Rightarrow> stream_parm_evt mm_stream_set_parm e payload s ch w
      | MM_STREAM_EVT_GET_PARM payload \<Rightarrow> stream_parm_evt mm_stream_get_parm e payload s ch w
      | _ \<Rightarrow> Some (0, s, ch, w))"

definition mm_stream_fsm_reg ::
  "env \<Rightarrow> mm_stream_evt_type_t \<Rightarrow> mm_stream_t \<Rightarrow> mm_channel_t \<Rightarrow> world \<Rightarrow> stream_result" where
  "mm_stream_fsm_reg e evt s ch w =
     (case evt of
        MM_STREAM_EVT_UNREG_BUF \<Rightarrow> do {
          (rc, s, w) \<leftarrow> mm_stream_unreg_buf e s w;
          Some (rc, s\<lparr>s_state := MM_STREAM_STATE_BUFFED\<rparr>, ch, w)
        }
      | MM_STREAM_EVT_START \<Rightarrow> do {
          let has_cb = stream_has_cb s;
          let s = (if has_cb then s\<lparr>s_cmd_thread := mm_camera_cmd_thread_launch
                     Fn_mm_stream_dispatch_app_data (s_my_hdl s) (s_cmd_thread s)\<rparr> else s);
          let s = s\<lparr>s_state := MM_STREAM_STATE_ACTIVE\<rparr>;
          (rc, ch, w) \<leftarrow> mm_stream_streamon e s ch w;
          if rc \<noteq> 0 then do {
            (s, w) \<leftarrow> (if has_cb then stream_release_thread e ch s w else Some (s, w));
            Some (rc, s\<lparr>s_state := MM_STREAM_STATE_REG\<rparr>, ch, w)
          }
          else Some (rc, s, ch, w)
        }
      | MM_STREAM_EVT_SET_PARM payload \<Rightarrow> stream_parm_evt mm_stream_set_parm e payload s ch w
      | MM_STREAM_EVT_GET_PARM payload \<Rightarrow> stream_parm_evt mm_stream_get_parm e payload s ch w
      | _ \<Rightarrow> Some (0, s, ch, w))"

definition mm_stream_fsm_active ::
  "env \<Rightarrow> mm_stream_evt_type_t \<Rightarrow> mm_stream_t \<Rightarrow> mm_channel_t \<Rightarrow> world \<Rightarrow> stream_result" where
  "mm_stream_fsm_active e evt s ch w =
     (case evt of
        MM_STREAM_EVT_QBUF frame \<Rightarrow> do {
          frame \<leftarrow> frame;
          (rc, s, w) \<leftarrow> mm_stream_buf_done e s frame w;
          Some (rc, s, ch, w)
        }
      | MM_STREAM_EVT_STOP \<Rightarrow> do {
          (rc, ch, w) \<leftarrow> mm_stream_streamoff e s ch w;
          (s, w) \<leftarrow> (if stream_has_cb s then stream_release_thread e ch s w else Some (s, w));
          Some (rc, s\<lparr>s_state := MM_STREAM_STATE_REG\<rparr>, ch, w)
        }
      | MM_STREAM_EVT_SET_PARM payload \<Rightarrow> stream_parm_evt mm_stream_set_parm e payload s ch w
      | MM_STREAM_EVT_GET_PARM payload \<Rightarrow> stream_parm_evt mm_stream_get_parm e payload s ch w
      | MM_STREAM_EVT_DO_ACTION payload \<Rightarrow>
          (let (rc, w) = mm_stream_do_action e s payload w in Some (rc, s, ch, w))
      | _ \<Rightarrow> Some (0, s, ch, w))"

definition mm_stream_fsm_fn ::
  "env \<Rightarrow> mm_stream_evt_type_t \<Rightarrow> mm_stream_t \<Rightarrow> mm_channel_t \<Rightarrow> world \<Rightarrow> stream_result" where
  "mm_stream_fsm_fn e evt s ch w =
     (case s_state s of
        MM_STREAM_STATE_INITED \<Rightarrow> mm_stream_fsm_inited e evt s ch w
      | MM_STREAM_STATE_ACQUIRED \<Rightarrow> mm_stream_fsm_acquired e evt s ch w
      | MM_STREAM_STATE_CFG \<Rightarrow> mm_stream_fsm_cfg e evt s ch w
      | MM_STREAM_STATE_BUFFED \<Rightarrow> mm_stream_fsm_buffed e evt s ch w
      | MM_STREAM_STATE_REG \<Rightarrow> mm_stream_fsm_reg e evt s ch w
      | MM_STREAM_STATE_ACTIVE \<Rightarrow> mm_stream_fsm_active e evt s ch w
      | _ \<Rightarrow> Some (-1, s, ch, w))"

lemmas stream_fsm_defs = mm_stream_fsm_inited_def mm_stream_fsm_acquired_def mm_stream_fsm_cfg_def
  mm_stream_fsm_buffed_def mm_stream_fsm_reg_def mm_stream_fsm_active_def mm_stream_fsm_fn_def
  stream_parm_evt_def

end
