(* ===== verification/Stream_Wf.thy ===== *)
theory Stream_Wf
  imports Stream_Fsm
begin

text \<open>
  Well-formed streams and progress: on a well-formed stream of a channel whose poll thread runs,
  every event returns (no null pointer, no index out of range, no wait for ever), and the stream is
  well-formed again. The hypotheses are the contract of the client's allocator (\<open>alloc_ok\<close>), of the
  arguments (\<open>evt_ok\<close>) and that small allocations succeed (\<open>mem_ok\<close>).
\<close>

section \<open>Well-formedness\<close>

definition bufs_ok :: "mm_stream_t \<Rightarrow> bool" where
  "bufs_ok s \<longleftrightarrow> (\<exists>bs. s_buf s = Some bs \<and> length bs = unat (s_buf_num s) \<and>
     (\<forall>i < length bs. b_buf_idx (bs ! i) = int i))"

definition status_ok :: "mm_stream_t \<Rightarrow> bool" where
  "status_ok s \<longleftrightarrow> (\<exists>st. s_buf_status s = Some st \<and> length st = unat (s_buf_num s))"

definition idx_ok :: "nat \<Rightarrow> mm_camera_buf_def_t \<Rightarrow> bool" where
  "idx_ok n b \<longleftrightarrow> 0 \<le> b_buf_idx b \<and> nat (b_buf_idx b) < n"

fun frame_cmd_ok :: "nat \<Rightarrow> mm_camera_cmdcb_t \<Rightarrow> bool" where
  "frame_cmd_ok n (MM_CAMERA_CMD_TYPE_DATA_CB bi) \<longleftrightarrow> (\<exists>b. bi_buf bi = Some b \<and> idx_ok n b)"
| "frame_cmd_ok n c \<longleftrightarrow> False"

definition configured :: "mm_stream_state_type_t \<Rightarrow> bool" where
  "configured st \<longleftrightarrow> st \<in> {MM_STREAM_STATE_CFG, MM_STREAM_STATE_BUFFED, MM_STREAM_STATE_REG, MM_STREAM_STATE_ACTIVE}"

definition buffered :: "mm_stream_state_type_t \<Rightarrow> bool" where
  "buffered st \<longleftrightarrow> st \<in> {MM_STREAM_STATE_BUFFED, MM_STREAM_STATE_REG, MM_STREAM_STATE_ACTIVE}"

definition vtbl_ok :: "mm_camera_stream_mem_vtbl_t \<Rightarrow> bool" where
  "vtbl_ok v \<longleftrightarrow> vt_get_bufs v \<noteq> None \<and> vt_put_bufs v \<noteq> None"

text \<open>
  The registered callbacks are unlimited (as \<^verbatim>\<open>mm_stream_config\<close>, the only caller in the library that
  registers one, makes them): a limited one that runs out while the stream is active would leave
  the command thread behind, because STOP only releases it when a callback is still registered.
\<close>

definition cbs_inf :: "mm_stream_t \<Rightarrow> bool" where
  "cbs_inf s \<longleftrightarrow> (\<forall>c \<in> set (s_buf_cb s). dcb_cb c \<noteq> None \<longrightarrow> dcb_cb_count c < 0)"

definition thread_ok :: "nat \<Rightarrow> mm_camera_cmd_thread_t \<Rightarrow> bool" where
  "thread_ok n t \<longleftrightarrow> ct_running t \<and> ct_cb t = Some Fn_mm_stream_dispatch_app_data \<and>
     (\<forall>c \<in> set (ct_cmd_queue t). frame_cmd_ok n c)"

definition stream_wf :: "mm_stream_t \<Rightarrow> bool" where
  "stream_wf s \<longleftrightarrow> s_state s \<noteq> MM_STREAM_STATE_MAX \<and>
     length (s_buf_cb s) = MM_CAMERA_STREAM_BUF_CB_MAX \<and>
     (s_state s \<noteq> MM_STREAM_STATE_NOTUSED \<longrightarrow> s_ch_obj s \<noteq> None) \<and>
     (configured (s_state s) \<longrightarrow> s_stream_info s \<noteq> None \<and> vtbl_ok (s_mem_vtbl s)) \<and>
     (buffered (s_state s) \<longrightarrow> bufs_ok s \<and> status_ok s) \<and> cbs_inf s \<and>
     (if s_state s = MM_STREAM_STATE_ACTIVE \<and> stream_has_cb s
      then thread_ok (unat (s_buf_num s)) (s_cmd_thread s)
      else s_cmd_thread s = zero_cmd_thread)"

text \<open>The contracts of the surroundings.\<close>

definition alloc_ok :: "env \<Rightarrow> bool" where
  "alloc_ok e \<longleftrightarrow> (\<forall>tr. gb_rc (e_get_bufs e tr) = 0 \<longrightarrow>
     (\<exists>bs fl. gb_bufs (e_get_bufs e tr) = Some bs \<and> gb_reg_flags (e_get_bufs e tr) = Some fl \<and>
        length bs = unat (gb_num_bufs (e_get_bufs e tr)) \<and> length fl = unat (gb_num_bufs (e_get_bufs e tr)) \<and>
        (\<forall>i < length bs. b_buf_idx (bs ! i) = int i)))"

definition planes_ok :: "cam_stream_info_t \<Rightarrow> bool" where
  "planes_ok si \<longleftrightarrow> fo_num_planes (si_buf_planes si) \<le> VIDEO_MAX_PLANES \<and>
     (\<forall>p. si_reprocess_config si = CAM_OFFLINE_REPROCESS_TYPE p \<longrightarrow> fo_num_planes p \<le> VIDEO_MAX_PLANES)"

definition config_ok :: "mm_camera_stream_config_t \<Rightarrow> bool" where
  "config_ok c \<longleftrightarrow> vtbl_ok (cfg_mem_vtbl c) \<and> (\<exists>si. cfg_stream_info c = Some si \<and> planes_ok si)"

fun evt_ok :: "nat \<Rightarrow> mm_stream_evt_type_t \<Rightarrow> bool" where
  "evt_ok n (MM_STREAM_EVT_SET_FMT c) \<longleftrightarrow> (\<exists>c'. c = Some c' \<and> config_ok c')"
| "evt_ok n (MM_STREAM_EVT_QBUF f) \<longleftrightarrow> (\<exists>b. f = Some b \<and> idx_ok n b)"
| "evt_ok n (MM_STREAM_EVT_SET_PARM p) \<longleftrightarrow> p \<noteq> None"
| "evt_ok n (MM_STREAM_EVT_GET_PARM p) \<longleftrightarrow> p \<noteq> None"
| "evt_ok n evt \<longleftrightarrow> True"

definition poll_live :: "mm_camera_poll_thread_t \<Rightarrow> bool" where
  "poll_live pt \<longleftrightarrow> poll_wf pt \<and> pt_running pt \<and> pt_poll_type pt = MM_CAMERA_POLL_TYPE_DATA"

definition chan_live :: "mm_channel_t \<Rightarrow> world \<Rightarrow> bool" where
  "chan_live ch w \<longleftrightarrow> poll_live (ch_poll_thread ch) \<and>
     (\<exists>cam. ch_cam_obj ch = Some cam \<and> mm_camera_util_get_dev_name (co_my_hdl cam) w \<noteq> None)"

lemma wf_parts_upd [simp]:
  "cbs_inf (s\<lparr>s_state := x\<rparr>) = cbs_inf s" "cbs_inf (s\<lparr>s_fd := f\<rparr>) = cbs_inf s"
  "cbs_inf (s\<lparr>s_server_stream_id := y\<rparr>) = cbs_inf s" "cbs_inf (s\<lparr>s_cmd_thread := t\<rparr>) = cbs_inf s"
  "cbs_inf (s\<lparr>s_buf_status := b\<rparr>) = cbs_inf s"
  "bufs_ok (s\<lparr>s_state := x\<rparr>) = bufs_ok s" "bufs_ok (s\<lparr>s_cmd_thread := t\<rparr>) = bufs_ok s"
  "bufs_ok (s\<lparr>s_buf_status := b\<rparr>) = bufs_ok s"
  "status_ok (s\<lparr>s_state := x\<rparr>) = status_ok s" "status_ok (s\<lparr>s_cmd_thread := t\<rparr>) = status_ok s"
  "stream_has_cb (s\<lparr>s_state := x\<rparr>) = stream_has_cb s" "stream_has_cb (s\<lparr>s_cmd_thread := t\<rparr>) = stream_has_cb s"
  by (simp_all add: cbs_inf_def bufs_ok_def status_ok_def stream_has_cb_def)

section \<open>Reference counting\<close>

lemma buf_done_runs:
  assumes "status_ok s" and "idx_ok (unat (s_buf_num s)) b"
  shows "runs (mm_stream_buf_done e s b w) (\<lambda>(rc, s', w'). stream_core s' = stream_core s \<and>
    status_ok s' \<and> s_buf_cb s' = s_buf_cb s)"
  using assms
  by (auto simp: mm_stream_buf_done_def status_ok_def idx_ok_def Let_def split_beta)

lemma dispatch_cb_runs:
  assumes "status_ok (fst p)" and "bi_buf bi = Some b" and "idx_ok (unat (s_buf_num (fst p))) b"
    and "cbs_inf (fst p)" and "i < length (s_buf_cb (fst p))"
  shows "runs (dispatch_cb e sb bi i p) (\<lambda>p'. stream_core (fst p') = stream_core (fst p) \<and>
    status_ok (fst p') \<and> s_buf_cb (fst p') = s_buf_cb (fst p))"
proof -
  have "dcb_cb (s_buf_cb (fst p) ! i) \<noteq> None \<Longrightarrow> dcb_cb_count (s_buf_cb (fst p) ! i) < 0"
    using assms(4,5) by (auto simp: cbs_inf_def)
  then show ?thesis
    using assms(1-3)
    by (cases p) (auto simp: dispatch_cb_def status_ok_def idx_ok_def Let_def split_beta split: option.split)
qed

lemma dispatch_runs:
  assumes "status_ok (fst p)" and "frame_cmd_ok (unat (s_buf_num (fst p))) c"
    and "s_ch_obj (fst p) \<noteq> None" and "ch_cam_obj ch \<noteq> None"
    and "cbs_inf (fst p)" and "length (s_buf_cb (fst p)) = MM_CAMERA_STREAM_BUF_CB_MAX"
  shows "runs (mm_stream_dispatch_app_data e ch c p) (\<lambda>p'. stream_core (fst p') = stream_core (fst p) \<and>
    status_ok (fst p') \<and> s_buf_cb (fst p') = s_buf_cb (fst p))"
proof (cases c)
  case (MM_CAMERA_CMD_TYPE_DATA_CB bi)
  let ?I = "\<lambda>p'. stream_core (fst p') = stream_core (fst p) \<and> status_ok (fst p') \<and>
    s_buf_cb (fst p') = s_buf_cb (fst p)"
  obtain b where b: "bi_buf bi = Some b" "idx_ok (unat (s_buf_num (fst p))) b"
    using assms(2) MM_CAMERA_CMD_TYPE_DATA_CB by auto
  have loop: "runs (foldM (dispatch_cb e sb bi) [0..<MM_CAMERA_STREAM_BUF_CB_MAX] p) ?I" for sb
  proof (rule foldM_runs)
    fix i and p1 :: "mm_stream_t \<times> world"
    assume "i \<in> set [0..<MM_CAMERA_STREAM_BUF_CB_MAX]" "?I p1"
    then show "runs (dispatch_cb e sb bi i p1) ?I"
      using dispatch_cb_runs [of p1 bi b i e sb] b stream_coreD(5) [of "fst p1" "fst p"] assms(5,6)
      by (auto simp: cbs_inf_def elim: runs_mono)
  qed (use assms in simp)
  have "runs (mm_stream_buf_done e s b w) (\<lambda>r. ?I (snd r))" if "?I (s, w)" for s w
    using buf_done_runs [of s b e w] that b stream_coreD(5) [of s "fst p"] by (auto elim: runs_mono)
  then show ?thesis
    using assms b
    by (auto simp: MM_CAMERA_CMD_TYPE_DATA_CB mm_stream_dispatch_app_data_def Let_def split_beta
        intro!: runs_mono [OF loop])
qed (use assms in \<open>simp_all add: mm_stream_dispatch_app_data_def split_beta\<close>)

section \<open>Threads\<close>

lemma poll_add_runs:
  assumes "poll_live pt"
  shows "runs (mm_camera_poll_thread_add_poll_fd e h fd cb u pt w) (\<lambda>(rc, pt', w'). poll_live pt')"
  using assms poll_sig_updated [of "pt\<lparr>pt_poll_entries := (pt_poll_entries pt)[poll_idx pt h :=
      \<lparr>pe_fd = fd, pe_notify_cb = cb, pe_handler = h, pe_user_data = u\<rparr>]\<rparr>" e w]
  by (auto simp: poll_live_def poll_wf_def mm_camera_poll_thread_add_poll_fd_def Let_def elim!: runs_mono)

lemma poll_del_runs:
  assumes "poll_live pt"
  shows "runs (mm_camera_poll_thread_del_poll_fd e h pt w) (\<lambda>(rc, pt', w'). poll_live pt')"
  using assms poll_sig_updated [of "pt\<lparr>pt_poll_entries := (pt_poll_entries pt)[poll_idx pt h :=
      (pt_poll_entries pt ! poll_idx pt h)\<lparr>pe_fd := -1, pe_handler := 0, pe_notify_cb := None\<rparr>]\<rparr>" e w]
  by (auto simp: poll_live_def poll_wf_def mm_camera_poll_thread_del_poll_fd_def Let_def elim!: runs_mono)

lemma streamon_runs:
  assumes "poll_live (ch_poll_thread ch)"
  shows "runs (mm_stream_streamon e s ch w) (\<lambda>(rc, ch', w'). poll_live (ch_poll_thread ch') \<and>
    ch_cam_obj ch' = ch_cam_obj ch)"
proof -
  have del: "runs (mm_camera_poll_thread_del_poll_fd e h pt w1) (\<lambda>r. poll_live (fst (snd r)))"
    if "poll_live pt" for h pt w1
    using poll_del_runs [OF that, of e h w1] by (simp add: case_prod_unfold)
  show ?thesis
    using poll_add_runs [OF assms, of e "s_my_hdl s" "s_fd s" "Some Fn_mm_stream_data_notify" "s_my_hdl s" w] del
    by (auto simp: mm_stream_streamon_def Let_def split_beta elim!: runs_mono)
qed

lemma streamoff_runs:
  assumes "poll_live (ch_poll_thread ch)"
  shows "runs (mm_stream_streamoff e s ch w) (\<lambda>(rc, ch', w'). poll_live (ch_poll_thread ch') \<and>
    ch_cam_obj ch' = ch_cam_obj ch)"
  using poll_del_runs [OF assms, of e "s_my_hdl s" w]
  by (auto simp: mm_stream_streamoff_def Let_def split_beta elim!: runs_mono)

lemma release_thread_runs:
  assumes "mem_ok e" and "status_ok s" and "s_ch_obj s \<noteq> None" and "ch_cam_obj ch \<noteq> None"
    and "thread_ok (unat (s_buf_num s)) (s_cmd_thread s)"
    and "cbs_inf s" and "length (s_buf_cb s) = MM_CAMERA_STREAM_BUF_CB_MAX"
  shows "runs (stream_release_thread e ch s w) (\<lambda>(s', w').
    stream_core s' = (stream_core s)\<lparr>s_cmd_thread := zero_cmd_thread\<rparr> \<and> status_ok s' \<and>
    s_buf_cb s' = s_buf_cb s)"
proof -
  let ?I = "\<lambda>p. stream_core (fst p) = stream_core s \<and> status_ok (fst p) \<and> s_buf_cb (fst p) = s_buf_cb s"
  have "runs (mm_stream_dispatch_app_data e ch c p) ?I"
    if "c \<in> set (ct_cmd_queue (s_cmd_thread s))" and "?I p" for c p
    using dispatch_runs [of p c ch e] that assms stream_coreD(5,8) [of "fst p" s]
    by (auto simp: cbs_inf_def thread_ok_def elim: runs_mono)
  then have "runs (mm_camera_cmd_thread_release e (Some (mm_stream_dispatch_app_data e ch)) (s_cmd_thread s) s w)
      (\<lambda>(rc, t', s', w'). rc = 0 \<and> t' = zero_cmd_thread \<and> ?I (s', w'))"
    by (intro release_runs) (use assms in \<open>auto simp: thread_ok_def\<close>)
  then show ?thesis
    using assms(5)
    by (auto simp: stream_release_thread_def split_beta stream_core_thread status_ok_def thread_ok_def
        elim!: runs_mono)
qed

section \<open>Buffers\<close>

lemma deinit_bufs_runs:
  assumes "s_buf s \<noteq> None \<Longrightarrow> vt_put_bufs (s_mem_vtbl s) \<noteq> None"
  shows "runs (mm_stream_deinit_bufs e s w) (\<lambda>(rc, s', w'). s_buf s' = None \<and> s_state s' = s_state s \<and>
    s_stream_info s' = s_stream_info s \<and> s_mem_vtbl s' = s_mem_vtbl s \<and> s_ch_obj s' = s_ch_obj s \<and>
    s_buf_cb s' = s_buf_cb s \<and> s_cmd_thread s' = s_cmd_thread s)"
  using assms by (auto simp: mm_stream_deinit_bufs_def Let_def split_beta)

definition bufs_core :: "mm_stream_t \<Rightarrow> mm_stream_t" where
  "bufs_core s = s\<lparr>s_buf_status := None, s_buf := None\<rparr>"

lemma bufs_core_upd [simp]:
  "bufs_core (s\<lparr>s_buf_status := x\<rparr>) = bufs_core s" "bufs_core (s\<lparr>s_buf := y\<rparr>) = bufs_core s"
  by (simp_all add: bufs_core_def)

lemma bufs_coreD:
  assumes "bufs_core s' = bufs_core s"
  shows "s_state s' = s_state s" "s_stream_info s' = s_stream_info s" "s_mem_vtbl s' = s_mem_vtbl s"
    "s_ch_obj s' = s_ch_obj s" "s_buf_cb s' = s_buf_cb s" "s_buf_num s' = s_buf_num s" "s_my_hdl s' = s_my_hdl s"
    "s_cmd_thread s' = s_cmd_thread s"
  using assms by (auto simp: bufs_core_def dest: arg_cong [of _ _ s_state] arg_cong [of _ _ s_stream_info]
      arg_cong [of _ _ s_mem_vtbl] arg_cong [of _ _ s_ch_obj] arg_cong [of _ _ s_buf_cb]
      arg_cong [of _ _ s_buf_num] arg_cong [of _ _ s_my_hdl] arg_cong [of _ _ s_cmd_thread])

lemma init_buf_entry_runs:
  assumes "bufs_ok s" and "status_ok s" and "s_stream_info s \<noteq> None" and "i < unat (s_buf_num s)"
    and "length fl = unat (s_buf_num s)"
  shows "runs (init_buf_entry (Some fl) i s) (\<lambda>s'. bufs_ok s' \<and> status_ok s' \<and> bufs_core s' = bufs_core s)"
  using assms by (auto simp: init_buf_entry_def bufs_ok_def status_ok_def nth_list_update)

lemma init_buf_loop_runs:
  assumes "bufs_ok s" and "status_ok s" and "s_stream_info s \<noteq> None"
    and "length fl = unat (s_buf_num s)" and "set is \<subseteq> {..<unat (s_buf_num s)}"
  shows "runs (foldM (init_buf_entry (Some fl)) is s)
    (\<lambda>s'. bufs_ok s' \<and> status_ok s' \<and> bufs_core s' = bufs_core s)"
proof (rule foldM_runs)
  fix i s1 assume "i \<in> set is" "bufs_ok s1 \<and> status_ok s1 \<and> bufs_core s1 = bufs_core s"
  then show "runs (init_buf_entry (Some fl) i s1) (\<lambda>s'. bufs_ok s' \<and> status_ok s' \<and> bufs_core s' = bufs_core s)"
    using init_buf_entry_runs [of s1 i fl] assms bufs_coreD(2,6) [of s1 s] by (auto elim!: runs_mono)
qed (use assms in auto)

lemma init_bufs_runs:
  assumes "vtbl_ok (s_mem_vtbl s)" and "s_stream_info s \<noteq> None" and "alloc_ok e" and "mem_ok e"
  shows "runs (mm_stream_init_bufs e s w) (\<lambda>(rc, s', w'). (rc = 0 \<longrightarrow> bufs_ok s' \<and> status_ok s') \<and>
    s_state s' = s_state s \<and> s_stream_info s' = s_stream_info s \<and> s_mem_vtbl s' = s_mem_vtbl s \<and>
    s_ch_obj s' = s_ch_obj s \<and> s_buf_cb s' = s_buf_cb s \<and> s_cmd_thread s' = s_cmd_thread s)"
proof -
  let ?J = "\<lambda>s'. s_state s' = s_state s \<and> s_stream_info s' = s_stream_info s \<and> s_mem_vtbl s' = s_mem_vtbl s \<and>
    s_ch_obj s' = s_ch_obj s \<and> s_buf_cb s' = s_buf_cb s \<and> s_cmd_thread s' = s_cmd_thread s"
  have first: "runs (if s_buf s \<noteq> None then map_option snd (mm_stream_deinit_bufs e s w) else Some (s, w))
      (\<lambda>p. ?J (fst p))"
    using deinit_bufs_runs [of s e w] assms(1) by (auto simp: vtbl_ok_def runs_iff)
  have get: "\<exists>gb. vt_get_bufs (s_mem_vtbl s) = Some gb" using assms(1) by (auto simp: vtbl_ok_def)
  have loop: "runs (foldM (init_buf_entry (gb_reg_flags r)) [0..<unat (gb_num_bufs r)]
        (s1\<lparr>s_buf_num := gb_num_bufs r, s_buf := gb_bufs r,
            s_buf_status := Some (replicate (unat (gb_num_bufs r)) zero_buf_status)\<rparr>))
      (\<lambda>s'. bufs_ok s' \<and> status_ok s' \<and> ?J s')"
    if a: "?J s1" "r = e_get_bufs e tr" "gb_rc r = 0" for s1 r tr
  proof -
    obtain bs fl where r: "gb_bufs r = Some bs" "gb_reg_flags r = Some fl"
      "length bs = unat (gb_num_bufs r)" "length fl = unat (gb_num_bufs r)"
      "\<forall>i < length bs. b_buf_idx (bs ! i) = int i"
      using assms(3) a(2,3) unfolding alloc_ok_def by metis
    show ?thesis
      unfolding r(1,2)
      by (rule runs_mono [OF init_buf_loop_runs])
        (use a(1) r assms(2) in \<open>auto simp: bufs_ok_def status_ok_def dest: bufs_coreD\<close>)
  qed
  show ?thesis
    unfolding mm_stream_init_bufs_def runs_bind
    by (rule runs_mono [OF first])
      (use get assms(4) in \<open>auto simp: Let_def split_beta intro!: runs_mono [OF loop]\<close>)
qed

lemma reg_buf_loop_runs:
  assumes "status_ok s" and "bufs_ok s" and "set is \<subseteq> {..<unat (s_buf_num s)}"
  shows "runs (reg_buf_loop e is s w) (\<lambda>(rc, s', w'). stream_core s' = stream_core s \<and> status_ok s' \<and>
    s_buf_cb s' = s_buf_cb s)"
  using assms
proof (induction "is" arbitrary: s w)
  case (Cons i "is")
  obtain st where st: "s_buf_status s = Some st" "length st = unat (s_buf_num s)"
    using Cons.prems(1) by (auto simp: status_ok_def)
  have IH: "runs (reg_buf_loop e is (s\<lparr>s_buf_status := Some (set_status i r k st)\<rparr>) w1)
      (\<lambda>(rc, s', w'). stream_core s' = stream_core s \<and> status_ok s' \<and> s_buf_cb s' = s_buf_cb s)" for r k w1
    using Cons.IH [of "s\<lparr>s_buf_status := Some (set_status i r k st)\<rparr>" w1] Cons.prems st
    by (simp add: status_ok_def bufs_ok_def set_status_def)
  show ?case
    using Cons.prems st IH [unfolded case_prod_unfold]
    by (auto simp: Let_def case_prod_unfold bufs_ok_def)
qed simp

lemma reg_buf_runs:
  assumes "status_ok s" and "bufs_ok s"
  shows "runs (mm_stream_reg_buf e s w) (\<lambda>(rc, s', w'). stream_core s' = stream_core s \<and> status_ok s' \<and>
    s_buf_cb s' = s_buf_cb s)"
  using reg_buf_loop_runs [OF assms, of "[0..<unat (s_buf_num s)]"] assms
  by (simp add: mm_stream_reg_buf_def Let_def split_beta lessThan_atLeast0)

lemma length_fold_set_status [simp]:
  "length (fold (\<lambda>i. set_status i r k) is st) = length st"
  by (induction "is" arbitrary: st) (simp_all add: set_status_def)

lemma unreg_buf_runs:
  assumes "status_ok s"
  shows "runs (mm_stream_unreg_buf e s w) (\<lambda>(rc, s', w'). stream_core s' = stream_core s \<and> status_ok s' \<and>
    s_buf_cb s' = s_buf_cb s)"
  using assms by (auto simp: mm_stream_unreg_buf_def status_ok_def Let_def split_beta)

section \<open>Format\<close>

lemma preview_planes:
  "fst (mm_stream_calc_offset_preview v fmt dim bp) = 0 \<Longrightarrow>
   fo_num_planes (snd (mm_stream_calc_offset_preview v fmt dim bp)) \<le> 3"
  by (cases "(v, fmt, dim, bp)" rule: mm_stream_calc_offset_preview.cases)
    (simp_all add: preview_nv12_def preview_adreno_def preview_yv12_def preview_nv16_def preview_venus_def
      set_plane_def Let_def split: option.splits)

lemma post_view_planes:
  "fst (mm_stream_calc_offset_post_view v fmt dim bp) = 0 \<Longrightarrow>
   fo_num_planes (snd (mm_stream_calc_offset_post_view v fmt dim bp)) \<le> 3"
  by (cases "(v, fmt, dim, bp)" rule: mm_stream_calc_offset_post_view.cases)
    (simp_all add: post_view_nv12_def post_view_adreno_def post_view_yv12_def post_view_nv16_def
      post_view_venus_def set_plane_def Let_def split: option.splits)

lemma snapshot_planes:
  "fst (mm_stream_calc_offset_snapshot a fmt dim pad bp) = 0 \<Longrightarrow>
   fo_num_planes (snd (mm_stream_calc_offset_snapshot a fmt dim pad bp)) \<le> 3"
  by (cases "snapshot_base a dim pad"; cases fmt)
    (simp_all add: mm_stream_calc_offset_snapshot_def snapshot_nv12_def snapshot_yv12_def
      snapshot_nv16_def set_plane_def Let_def)

lemma other_planes:
  "fst (mm_stream_calc_offset_raw fmt dim pad bp) = 0 \<Longrightarrow>
     fo_num_planes (snd (mm_stream_calc_offset_raw fmt dim pad bp)) \<le> 3"
  "fo_num_planes (snd (mm_stream_calc_offset_video v dim bp)) \<le> 3"
  "fo_num_planes (snd (mm_stream_calc_offset_metadata dim pad bp)) \<le> 3"
  by (auto simp: mm_stream_calc_offset_raw_def raw_plane_def mm_stream_calc_offset_video_def
      mm_stream_calc_offset_video_venus_def mm_stream_calc_offset_video_plain_def
      mm_stream_calc_offset_metadata_def set_plane_def Let_def split: option.splits)

lemma calc_offset_planes:
  assumes "calc_offset bld pad si = (0, si')" and "planes_ok si"
  shows "fo_num_planes (si_buf_planes si') \<le> VIDEO_MAX_PLANES"
proof -
  have le: "x \<le> 3 \<Longrightarrow> x \<le> VIDEO_MAX_PLANES" for x :: int by simp
  note ps = preview_planes [THEN le] post_view_planes [THEN le] snapshot_planes [THEN le] other_planes [THEN le]
  have pp: "fst (mm_stream_calc_offset_postproc bld si pad (si_buf_planes si)) = 0 \<Longrightarrow>
      fo_num_planes (snd (mm_stream_calc_offset_postproc bld si pad (si_buf_planes si))) \<le> VIDEO_MAX_PLANES"
    using assms(2)
    by (auto simp: mm_stream_calc_offset_postproc_def planes_ok_def
        split: cam_stream_reproc_config_t.split_asm cam_stream_type_t.split_asm if_splits
        intro!: ps)
  show ?thesis
    using assms(1) pp
    by (cases "si_stream_type si") (auto simp: calc_offset_def Let_def split_beta intro!: ps)
qed

lemma config_runs:
  assumes "config_ok c"
  shows "runs (mm_stream_config e s c w) (\<lambda>(rc, s', w'). s_stream_info s' \<noteq> None \<and>
    s_mem_vtbl s' = cfg_mem_vtbl c \<and> s_ch_obj s' = s_ch_obj s \<and> s_state s' = s_state s \<and>
    s_cmd_thread s' = s_cmd_thread s \<and> s_buf_cb s' = (s_buf_cb s)[0 :=
      \<lparr>dcb_cb = cfg_stream_cb c, dcb_user_data = cfg_userdata c, dcb_cb_count = -1\<rparr>])"
proof -
  obtain si where si: "cfg_stream_info c = Some si" "planes_ok si"
    using assms by (auto simp: config_ok_def)
  let ?si = "si\<lparr>stream_svr_id := s_server_stream_id s\<rparr>"
  obtain rc si' where co: "calc_offset (e_build e) (cfg_padding_info c) ?si = (rc, si')"
    by fastforce
  have "rc = 0 \<Longrightarrow> fo_num_planes (si_buf_planes si') \<le> VIDEO_MAX_PLANES"
    using calc_offset_planes [of "e_build e" "cfg_padding_info c" ?si si'] co si(2)
    by (simp add: planes_ok_def)
  then show ?thesis
    by (auto simp: mm_stream_config_def mm_stream_sync_info_def mm_stream_calc_offset_def
        mm_stream_set_fmt_def si(1) co Let_def split_beta)
qed

section \<open>Every event\<close>

definition fsm_post :: "mm_channel_t \<Rightarrow> int \<times> mm_stream_t \<times> mm_channel_t \<times> world \<Rightarrow> bool" where
  "fsm_post ch = (\<lambda>(rc, s', ch', w'). stream_wf s' \<and> poll_live (ch_poll_thread ch') \<and>
     ch_cam_obj ch' = ch_cam_obj ch)"

lemma stream_parm_evt_runs:
  assumes "stream_wf s" and "poll_live (ch_poll_thread ch)" and "p \<noteq> None"
  shows "runs (stream_parm_evt f e p s ch w) (fsm_post ch)"
  using assms by (auto simp: stream_parm_evt_def fsm_post_def split_beta)

lemma same_runs:
  assumes "stream_wf s" and "poll_live (ch_poll_thread ch)"
  shows "fsm_post ch (rc, s, ch, w)"
  using assms by (simp add: fsm_post_def)

lemma stream_wf_zero: "stream_wf zero_stream"
  by (simp add: stream_wf_def zero_stream_def configured_def buffered_def cbs_inf_def zero_data_cb_def)

text \<open>A well-formed stream stays so when only counts change.\<close>

lemma stream_wf_core:
  assumes "stream_wf s" and "stream_core s' = stream_core s" and "status_ok s'"
    and "s_buf_cb s' = s_buf_cb s"
  shows "stream_wf s'"
  using assms stream_coreD [OF assms(2)] by (simp add: stream_wf_def bufs_ok_def cbs_inf_def stream_has_cb_def)

lemma fsm_inited_runs:
  assumes "stream_wf s" and "s_state s = MM_STREAM_STATE_INITED" and "chan_live ch w"
  shows "runs (mm_stream_fsm_inited e evt s ch w) (fsm_post ch)"
proof -
  have "stream_wf (s\<lparr>s_fd := x\<rparr>)" "stream_wf (s\<lparr>s_fd := x, s_server_stream_id := y, s_fd := z\<rparr>)"
    "stream_wf (s\<lparr>s_fd := x, s_server_stream_id := y, s_state := MM_STREAM_STATE_ACQUIRED\<rparr>)" for x y z
    using assms(1,2) by (auto simp: stream_wf_def configured_def buffered_def)
  then show ?thesis
    using assms
    by (cases evt) (auto simp: mm_stream_fsm_inited_def chan_live_def fsm_post_def mm_stream_set_ext_mode_def
        Let_def split_beta split: option.split)
qed

lemma config_fsm_runs:
  assumes "stream_wf s" and "s_state s \<in> {MM_STREAM_STATE_ACQUIRED, MM_STREAM_STATE_CFG}"
    and "poll_live (ch_poll_thread ch)" and "config_ok c"
  shows "runs (do {(rc, s, w) \<leftarrow> mm_stream_config e s c w;
    Some (rc, s\<lparr>s_state := MM_STREAM_STATE_CFG\<rparr>, ch, w)}) (fsm_post ch)"
proof -
  have wf: "length (s_buf_cb s) = MM_CAMERA_STREAM_BUF_CB_MAX" "s_ch_obj s \<noteq> None"
    "s_cmd_thread s = zero_cmd_thread" "vtbl_ok (cfg_mem_vtbl c)"
    using assms(1,2,4) by (auto simp: stream_wf_def config_ok_def)
  have inf: "\<forall>d \<in> set ((s_buf_cb s)[0 := \<lparr>dcb_cb = x, dcb_user_data = y, dcb_cb_count = -1\<rparr>]).
      dcb_cb d \<noteq> None \<longrightarrow> dcb_cb_count d < 0" for x y
    by (rule list_update_all) (use assms(1) in \<open>auto simp: stream_wf_def cbs_inf_def\<close>)
  have "stream_wf (s'\<lparr>s_state := MM_STREAM_STATE_CFG\<rparr>)"
    if "s_stream_info s' \<noteq> None \<and> s_mem_vtbl s' = cfg_mem_vtbl c \<and> s_ch_obj s' = s_ch_obj s \<and>
      s_state s' = s_state s \<and> s_cmd_thread s' = s_cmd_thread s \<and> s_buf_cb s' = (s_buf_cb s)[0 :=
      \<lparr>dcb_cb = cfg_stream_cb c, dcb_user_data = cfg_userdata c, dcb_cb_count = -1\<rparr>]" for s'
    using that wf inf by (simp add: stream_wf_def buffered_def cbs_inf_def)
  then show ?thesis
    unfolding runs_bind
    by (intro runs_mono [OF config_runs [OF assms(4)]]) (use assms(3) in \<open>auto simp: fsm_post_def\<close>)
qed

lemma release_fsm_runs:
  assumes "poll_live (ch_poll_thread ch)"
  shows "runs (case mm_stream_release e s w of (rc, s, w) \<Rightarrow>
    Some (rc, s\<lparr>s_state := MM_STREAM_STATE_NOTUSED\<rparr>, ch, w)) (fsm_post ch)"
  using assms stream_wf_zero by (simp add: mm_stream_release_def fsm_post_def zero_stream_def)

lemma fsm_acquired_runs:
  assumes "stream_wf s" and "s_state s = MM_STREAM_STATE_ACQUIRED" and "poll_live (ch_poll_thread ch)"
    and "evt_ok n evt"
  shows "runs (mm_stream_fsm_acquired e evt s ch w) (fsm_post ch)"
proof (cases evt)
  case (MM_STREAM_EVT_SET_FMT c)
  then show ?thesis
    using assms by (auto simp: mm_stream_fsm_acquired_def simp del: runs_bind intro!: config_fsm_runs)
qed (use assms in \<open>auto simp: mm_stream_fsm_acquired_def same_runs
  intro!: release_fsm_runs stream_parm_evt_runs\<close>)

lemma init_bufs_fsm_runs:
  assumes "stream_wf s" and "s_state s = MM_STREAM_STATE_CFG" and "poll_live (ch_poll_thread ch)"
    and "alloc_ok e" and "mem_ok e"
  shows "runs (do {(rc, s, w) \<leftarrow> mm_stream_init_bufs e s w;
    Some (rc, if rc = 0 then s\<lparr>s_state := MM_STREAM_STATE_BUFFED\<rparr> else s, ch, w)}) (fsm_post ch)"
proof -
  have wf: "vtbl_ok (s_mem_vtbl s)" "s_stream_info s \<noteq> None" "s_ch_obj s \<noteq> None"
    "length (s_buf_cb s) = MM_CAMERA_STREAM_BUF_CB_MAX" "cbs_inf s" "s_cmd_thread s = zero_cmd_thread"
    using assms(1,2) by (simp_all add: stream_wf_def configured_def)
  show ?thesis
    unfolding runs_bind
    by (rule runs_mono [OF init_bufs_runs [OF wf(1,2) assms(4,5)]])
      (use wf assms(2,3) in \<open>auto simp: fsm_post_def stream_wf_def configured_def buffered_def cbs_inf_def\<close>)
qed

lemma fsm_cfg_runs:
  assumes "stream_wf s" and "s_state s = MM_STREAM_STATE_CFG" and "poll_live (ch_poll_thread ch)"
    and "evt_ok n evt" and "alloc_ok e" and "mem_ok e"
  shows "runs (mm_stream_fsm_cfg e evt s ch w) (fsm_post ch)"
proof (cases evt)
  case (MM_STREAM_EVT_SET_FMT c)
  then show ?thesis
    using assms by (auto simp: mm_stream_fsm_cfg_def simp del: runs_bind intro!: config_fsm_runs)
next
  case MM_STREAM_EVT_GET_BUF
  then show ?thesis
    using init_bufs_fsm_runs [OF assms(1-3,5,6)] by (simp add: mm_stream_fsm_cfg_def del: runs_bind)
qed (use assms in \<open>auto simp: mm_stream_fsm_cfg_def same_runs
  intro!: release_fsm_runs stream_parm_evt_runs\<close>)

lemma fsm_buffed_runs:
  assumes "stream_wf s" and "s_state s = MM_STREAM_STATE_BUFFED" and "poll_live (ch_poll_thread ch)"
    and "evt_ok n evt"
  shows "runs (mm_stream_fsm_buffed e evt s ch w) (fsm_post ch)"
proof (cases evt)
  case MM_STREAM_EVT_PUT_BUF
  have "vt_put_bufs (s_mem_vtbl s) \<noteq> None"
    using assms(1,2) by (simp add: stream_wf_def configured_def vtbl_ok_def)
  then show ?thesis
    unfolding MM_STREAM_EVT_PUT_BUF mm_stream_fsm_buffed_def mm_stream_evt_type_t.case runs_bind
    by (intro runs_mono [OF deinit_bufs_runs])
      (use assms in \<open>auto simp: fsm_post_def stream_wf_def configured_def buffered_def vtbl_ok_def cbs_inf_def\<close>)
next
  case MM_STREAM_EVT_REG_BUF
  have ok: "status_ok s" "bufs_ok s" using assms(1,2) by (simp_all add: stream_wf_def buffered_def)
  have "stream_wf s'" "stream_wf (s'\<lparr>s_state := MM_STREAM_STATE_REG\<rparr>)"
    if "stream_core s' = stream_core s" "status_ok s'" "s_buf_cb s' = s_buf_cb s" for s'
    using stream_wf_core [OF assms(1) that] stream_coreD(3) [OF that(1)] assms(2)
    by (auto simp: stream_wf_def configured_def buffered_def)
  then show ?thesis
    unfolding MM_STREAM_EVT_REG_BUF mm_stream_fsm_buffed_def mm_stream_evt_type_t.case runs_bind
    by (intro runs_mono [OF reg_buf_runs [OF ok]]) (use assms(3) in \<open>auto simp: fsm_post_def\<close>)
qed (use assms in \<open>auto simp: mm_stream_fsm_buffed_def same_runs intro!: stream_parm_evt_runs\<close>)

lemma unreg_fsm_runs:
  assumes "stream_wf s" and "s_state s = MM_STREAM_STATE_REG" and "poll_live (ch_poll_thread ch)"
  shows "runs (do {(rc, s, w) \<leftarrow> mm_stream_unreg_buf e s w;
    Some (rc, s\<lparr>s_state := MM_STREAM_STATE_BUFFED\<rparr>, ch, w)}) (fsm_post ch)"
proof -
  have ok: "status_ok s" using assms(1,2) by (simp add: stream_wf_def buffered_def)
  have "stream_wf (s'\<lparr>s_state := MM_STREAM_STATE_BUFFED\<rparr>)"
    if "stream_core s' = stream_core s \<and> status_ok s' \<and> s_buf_cb s' = s_buf_cb s" for s'
    using stream_wf_core [OF assms(1)] that stream_coreD(3) [of s' s] assms(2)
    by (auto simp: stream_wf_def configured_def buffered_def)
  then show ?thesis
    unfolding runs_bind
    by (intro runs_mono [OF unreg_buf_runs [OF ok]]) (use assms(3) in \<open>auto simp: fsm_post_def\<close>)
qed

text \<open>The two ways out of the streaming state: a failed START and STOP.\<close>

lemma leave_active_runs:
  assumes "stream_wf s" and "s_state s = MM_STREAM_STATE_ACTIVE" and "ch_cam_obj ch \<noteq> None" and "mem_ok e"
  shows "runs (if stream_has_cb s then stream_release_thread e ch s w else Some (s, w))
    (\<lambda>p. stream_wf ((fst p)\<lparr>s_state := MM_STREAM_STATE_REG\<rparr>))"
proof (cases "stream_has_cb s")
  case True
  have wf: "status_ok s" "s_ch_obj s \<noteq> None" "thread_ok (unat (s_buf_num s)) (s_cmd_thread s)"
    "cbs_inf s" "length (s_buf_cb s) = MM_CAMERA_STREAM_BUF_CB_MAX"
    using assms(1,2) True by (simp_all add: stream_wf_def buffered_def)
  have "stream_wf (s'\<lparr>s_state := MM_STREAM_STATE_REG\<rparr>)"
    if a: "stream_core s' = (stream_core s)\<lparr>s_cmd_thread := zero_cmd_thread\<rparr> \<and> status_ok s' \<and>
      s_buf_cb s' = s_buf_cb s" for s'
  proof -
    let ?z = "s\<lparr>s_cmd_thread := zero_cmd_thread, s_state := MM_STREAM_STATE_REG\<rparr>"
    have c: "stream_core s' = stream_core (s\<lparr>s_cmd_thread := zero_cmd_thread\<rparr>)"
      using a by (simp add: stream_core_thread)
    have "stream_wf ?z"
      using assms(1,2) by (simp add: stream_wf_def configured_def buffered_def)
    moreover have "stream_core (s'\<lparr>s_state := MM_STREAM_STATE_REG\<rparr>) = stream_core ?z"
      using c by (cases s', cases s) (simp add: stream_core_def)
    ultimately show ?thesis
      by (rule stream_wf_core) (use a in simp_all)
  qed
  then show ?thesis
    using runs_mono [OF release_thread_runs [OF assms(4) wf(1,2) assms(3) wf(3-5)]] True
    by (simp add: case_prod_unfold)
next
  case False
  then show ?thesis using assms(1,2) by (simp add: stream_wf_def configured_def buffered_def)
qed

text \<open>The stream as START hands it to \<^verbatim>\<open>mm_stream_streamon\<close>.\<close>

definition start_stream :: "mm_stream_t \<Rightarrow> mm_stream_t" where
  "start_stream s = (if stream_has_cb s then s\<lparr>s_cmd_thread := mm_camera_cmd_thread_launch
     Fn_mm_stream_dispatch_app_data (s_my_hdl s) (s_cmd_thread s)\<rparr> else s)\<lparr>s_state := MM_STREAM_STATE_ACTIVE\<rparr>"

lemma fsm_reg_start:
  "mm_stream_fsm_reg e MM_STREAM_EVT_START s ch w = Option.bind (mm_stream_streamon e (start_stream s) ch w)
     (\<lambda>(rc, ch1, w1). if rc \<noteq> 0 then do {
        (s, w) \<leftarrow> (if stream_has_cb s then stream_release_thread e ch1 (start_stream s) w1 else Some (start_stream s, w1));
        Some (rc, s\<lparr>s_state := MM_STREAM_STATE_REG\<rparr>, ch1, w)
      } else Some (rc, start_stream s, ch1, w1))"
  unfolding mm_stream_fsm_reg_def start_stream_def Let_def mm_stream_evt_type_t.case ..

lemma start_fsm_runs:
  assumes "stream_wf s" and "s_state s = MM_STREAM_STATE_REG" and "poll_live (ch_poll_thread ch)"
    and "ch_cam_obj ch \<noteq> None" and "mem_ok e"
  shows "runs (mm_stream_fsm_reg e MM_STREAM_EVT_START s ch w) (fsm_post ch)"
proof -
  have s1: "stream_wf (start_stream s)" "s_state (start_stream s) = MM_STREAM_STATE_ACTIVE"
    "stream_has_cb (start_stream s) = stream_has_cb s"
    using assms(1,2)
    by (auto simp: start_stream_def stream_wf_def configured_def buffered_def thread_ok_def
        mm_camera_cmd_thread_launch_def)
  have step: "runs (if rc \<noteq> 0 then do {
        (s, w) \<leftarrow> (if stream_has_cb s then stream_release_thread e ch1 (start_stream s) w1 else Some (start_stream s, w1));
        Some (rc, s\<lparr>s_state := MM_STREAM_STATE_REG\<rparr>, ch1, w)
      } else Some (rc, start_stream s, ch1, w1)) (fsm_post ch)"
    if "poll_live (ch_poll_thread ch1)" and "ch_cam_obj ch1 = ch_cam_obj ch" for rc ch1 w1
    using leave_active_runs [OF s1(1,2), of ch1 e w1] s1 that assms(4,5)
    by (auto simp: fsm_post_def split_beta elim!: runs_mono)
  show ?thesis
    unfolding fsm_reg_start runs_bind
    by (rule runs_mono [OF streamon_runs [OF assms(3)]]) (use step in auto)
qed

lemma fsm_reg_runs:
  assumes "stream_wf s" and "s_state s = MM_STREAM_STATE_REG" and "poll_live (ch_poll_thread ch)"
    and "ch_cam_obj ch \<noteq> None" and "mem_ok e" and "evt_ok n evt"
  shows "runs (mm_stream_fsm_reg e evt s ch w) (fsm_post ch)"
proof (cases evt)
  case MM_STREAM_EVT_UNREG_BUF
  then show ?thesis
    using unreg_fsm_runs [OF assms(1-3)] by (simp add: mm_stream_fsm_reg_def del: runs_bind)
next
  case MM_STREAM_EVT_START
  then show ?thesis using start_fsm_runs [OF assms(1-5)] by simp
qed (use assms in \<open>auto simp: mm_stream_fsm_reg_def same_runs intro!: stream_parm_evt_runs\<close>)

lemma fsm_active_runs:
  assumes "stream_wf s" and "s_state s = MM_STREAM_STATE_ACTIVE" and "poll_live (ch_poll_thread ch)"
    and "ch_cam_obj ch \<noteq> None" and "mem_ok e" and "evt_ok (unat (s_buf_num s)) evt"
  shows "runs (mm_stream_fsm_active e evt s ch w) (fsm_post ch)"
proof (cases evt)
  case (MM_STREAM_EVT_QBUF f)
  have ok: "status_ok s" using assms(1,2) by (simp add: stream_wf_def buffered_def)
  obtain b where b: "f = Some b" "idx_ok (unat (s_buf_num s)) b"
    using assms(6) MM_STREAM_EVT_QBUF by auto
  show ?thesis
    unfolding MM_STREAM_EVT_QBUF mm_stream_fsm_active_def mm_stream_evt_type_t.case b(1) Option.bind.simps runs_bind
    by (rule runs_mono [OF buf_done_runs [OF ok b(2)]])
      (use stream_wf_core [OF assms(1)] assms(3) in \<open>auto simp: fsm_post_def\<close>)
next
  case MM_STREAM_EVT_STOP
  have step: "runs (do {(s, w) \<leftarrow> (if stream_has_cb s then stream_release_thread e ch1 s w1 else Some (s, w1));
        Some (rc, s\<lparr>s_state := MM_STREAM_STATE_REG\<rparr>, ch1, w)}) (fsm_post ch)"
    if "poll_live (ch_poll_thread ch1)" and "ch_cam_obj ch1 = ch_cam_obj ch" for rc ch1 w1
    using leave_active_runs [OF assms(1,2), of ch1 e w1] that assms(4,5)
    by (auto simp: fsm_post_def split_beta elim!: runs_mono)
  show ?thesis
    unfolding MM_STREAM_EVT_STOP mm_stream_fsm_active_def mm_stream_evt_type_t.case
    by (simp only: runs_bind) (rule runs_mono [OF streamoff_runs [OF assms(3)]], use step in auto)
qed (use assms in \<open>auto simp: mm_stream_fsm_active_def same_runs split_beta intro!: stream_parm_evt_runs\<close>)

text \<open>
  C5. Every event of the stream state machine returns and keeps the stream well-formed: on a
  well-formed stream of a live channel, with an allocator that meets its contract, valid arguments
  and small allocations that succeed, no handler faults or blocks for ever, whatever the driver
  and the server answer; afterwards the stream is well-formed and the poll thread is still live.
\<close>

theorem stream_fsm_total:
  assumes "stream_wf s" and "chan_live ch w" and "alloc_ok e" and "mem_ok e"
    and "evt_ok (unat (s_buf_num s)) evt"
  shows "\<exists>rc s' ch' w'. mm_stream_fsm_fn e evt s ch w = Some (rc, s', ch', w') \<and> stream_wf s' \<and>
    poll_live (ch_poll_thread ch') \<and> ch_cam_obj ch' = ch_cam_obj ch"
proof -
  have ch: "poll_live (ch_poll_thread ch)" "ch_cam_obj ch \<noteq> None"
    using assms(2) by (auto simp: chan_live_def)
  have "runs (mm_stream_fsm_fn e evt s ch w) (fsm_post ch)"
    using fsm_inited_runs [OF assms(1) _ assms(2)] fsm_acquired_runs [OF assms(1) _ ch(1) assms(5)]
      fsm_cfg_runs [OF assms(1) _ ch(1) assms(5,3,4)] fsm_buffed_runs [OF assms(1) _ ch(1) assms(5)]
      fsm_reg_runs [OF assms(1) _ ch assms(4,5)] fsm_active_runs [OF assms(1) _ ch assms(4,5)]
      same_runs [OF assms(1) ch(1)] assms(1)
    by (cases "s_state s") (simp_all add: mm_stream_fsm_fn_def stream_wf_def)
  then show ?thesis by (auto simp: runs_iff fsm_post_def)
qed

lemma sample_stream_wf: "stream_wf sample_stream"
  by (simp add: stream_wf_def sample_stream_def zero_stream_def configured_def buffered_def cbs_inf_def
      zero_data_cb_def)

lemma sample_channel_live: "chan_live sample_channel sample_world"
  by (simp add: chan_live_def poll_live_def sample_channel_def sample_world_def sample_poll_thread
      mm_camera_util_get_dev_name_def mm_camera_util_get_index_by_handler_def nth_opt_def)

lemma calm_env_ok: "mem_ok (calm_env n)" "n < 256 \<Longrightarrow> alloc_ok (calm_env n)"
  by (simp_all add: mem_ok_def alloc_ok_def calm_env_def calm_rc_def calm_buf_def unat_of_nat)

theorem stream_fsm_total_witness:
  "\<exists>rc s' ch' w'. mm_stream_fsm_fn (calm_env 2) MM_STREAM_EVT_ACQUIRE sample_stream sample_channel sample_world =
     Some (rc, s', ch', w') \<and> stream_wf s' \<and> poll_live (ch_poll_thread ch')"
  using stream_fsm_total [OF sample_stream_wf sample_channel_live, of "calm_env 2" MM_STREAM_EVT_ACQUIRE]
    calm_env_ok by fastforce

end
