(* ===== verification/Stream_Ownership.thy ===== *)
theory Stream_Ownership
  imports Stream_Wf
begin

text \<open>
  Who owns a frame buffer. While a stream is active three kinds of steps interleave: the poll
  thread takes a filled buffer from the driver, the command thread dispatches a queued frame to
  the callbacks, and a holder (the client, or the channel on behalf of a bundle) returns a buffer.
  The step relation \<open>own_step\<close> keeps, next to the stream, the ghost count \<open>held\<close> of references
  handed out for every buffer. The invariant relates it to the reference counts of the stream.
\<close>

section \<open>Steps\<close>

fun cmd_idx :: "mm_camera_cmdcb_t \<Rightarrow> nat option" where
  "cmd_idx (MM_CAMERA_CMD_TYPE_DATA_CB bi) = map_option (\<lambda>b. nat (b_buf_idx b)) (bi_buf bi)"
| "cmd_idx c = None"

definition queued :: "mm_camera_cmd_thread_t \<Rightarrow> nat \<Rightarrow> nat" where
  "queued t i = length (filter (\<lambda>c. cmd_idx c = Some i) (ct_cmd_queue t))"

text \<open>The callbacks a dispatched frame is delivered to.\<close>

definition cb_live :: "mm_stream_data_cb_t \<Rightarrow> bool" where
  "cb_live c \<longleftrightarrow> dcb_cb c \<noteq> None \<and> dcb_cb_count c \<noteq> 0"

definition fanout :: "mm_stream_t \<Rightarrow> nat" where
  "fanout s = length (filter cb_live (s_buf_cb s))"

text \<open>A driver only hands out a buffer that was queued with it.\<close>

definition dq_ok :: "env \<Rightarrow> mm_stream_t \<Rightarrow> world \<Rightarrow> bool" where
  "dq_ok e s w \<longleftrightarrow> (\<exists>st i. s_buf_status s = Some st \<and> i < length st \<and> in_kernel (st ! i) \<and>
     vb_index (e_dqbuf e (w_trace w)) = of_nat i)"

text \<open>A driver and cache operations of the client that accept every buffer.\<close>

definition drv_ok :: "env \<Rightarrow> bool" where
  "drv_ok e \<longleftrightarrow> (\<forall>tr fd i pl n. 0 \<le> e_rc e tr (Sys_ioctl fd (VIDIOC_QBUF i pl n))) \<and>
     (\<forall>tr f u i. 0 \<le> e_rc e tr (Vtbl_invalidate_buf f u i)) \<and>
     (\<forall>tr f u i. 0 \<le> e_rc e tr (Vtbl_clean_invalidate_buf f u i))"

type_synonym own_state = "mm_stream_t \<times> mm_channel_t \<times> world \<times> (nat \<Rightarrow> nat)"

inductive own_step :: "env \<Rightarrow> own_state \<Rightarrow> own_state \<Rightarrow> bool" for e where
  notify: "mm_stream_data_notify e s ch w = Some (s', ch', w') \<Longrightarrow> dq_ok e s w \<Longrightarrow>
    own_step e (s, ch, w, held)
      (s', ch', w', \<lambda>i. held i + (queued (ch_cmd_thread ch') i - queued (ch_cmd_thread ch) i))"
| dispatch: "ct_cmd_queue (s_cmd_thread s) = c # cs \<Longrightarrow>
    mm_stream_dispatch_app_data e ch c (s\<lparr>s_cmd_thread := (s_cmd_thread s)\<lparr>ct_cmd_queue := cs\<rparr>\<rparr>, w) = Some (s', w') \<Longrightarrow>
    own_step e (s, ch, w, held)
      (s', ch, w', \<lambda>i. held i + (if cmd_idx c = Some i then fanout s else 0))"
| return: "mm_stream_buf_done e s b w = Some (rc, s', w') \<Longrightarrow> held (nat (b_buf_idx b)) > 0 \<Longrightarrow>
    own_step e (s, ch, w, held) (s', ch, w', held(nat (b_buf_idx b) := held (nat (b_buf_idx b)) - 1))"

section \<open>Invariant\<close>

definition own_at :: "mm_stream_t \<Rightarrow> (nat \<Rightarrow> nat) \<Rightarrow> mm_stream_buf_status_t list \<Rightarrow> nat \<Rightarrow> bool" where
  "own_at s held st i \<longleftrightarrow> (in_kernel (st ! i) \<longrightarrow> buf_refcnt (st ! i) = 0) \<and>
     queued (s_cmd_thread s) i + held i \<le> unat (buf_refcnt (st ! i)) \<and>
     unat (buf_refcnt (st ! i)) + 4 * queued (s_cmd_thread s) i \<le> 6"

definition own_inv :: "own_state \<Rightarrow> bool" where
  "own_inv = (\<lambda>(s, ch, w, held). length (s_buf_cb s) = MM_CAMERA_STREAM_BUF_CB_MAX \<and>
     unat (s_buf_num s) \<le> MM_CAMERA_MAX_NUM_FRAMES \<and>
     (\<exists>st. s_buf_status s = Some st \<and> length st = unat (s_buf_num s) \<and>
       (\<forall>i < length st. own_at s held st i) \<and> (\<forall>i \<ge> length st. queued (s_cmd_thread s) i = 0)))"

section \<open>Effect of the steps on the counts\<close>

text \<open>Returning a reference: \<open>k\<close> tells whether the driver takes the buffer.\<close>

definition done_status :: "bool \<Rightarrow> nat \<Rightarrow> mm_stream_buf_status_t list \<Rightarrow> mm_stream_buf_status_t list" where
  "done_status k i st =
     (if buf_refcnt (st ! i) = 0 then st
      else st[i := (if buf_refcnt (st ! i) = 1 \<and> k then (st ! i)\<lparr>buf_refcnt := 0, in_kernel := True\<rparr>
                    else (st ! i)\<lparr>buf_refcnt := buf_refcnt (st ! i) - 1\<rparr>)])"

lemma length_done_status [simp]: "length (done_status k i st) = length st"
  by (simp add: done_status_def)

lemma qbuf_status [simp]: "mm_stream_qbuf e (s\<lparr>s_buf_status := x\<rparr>) b w = mm_stream_qbuf e s b w"
  by (simp add: mm_stream_qbuf_def Let_def split: option.split)

lemma drv_ok_qbuf: "drv_ok e \<Longrightarrow> 0 \<le> fst (mm_stream_qbuf e s b w)"
  by (auto simp: drv_ok_def mm_stream_qbuf_def Let_def split_beta split: option.split)

lemma buf_done_status:
  assumes "mm_stream_buf_done e s b w = Some (rc, s', w')" and "s_buf_status s = Some st"
  shows "0 \<le> b_buf_idx b" and "nat (b_buf_idx b) < length st"
    and "s' = s\<lparr>s_buf_status := Some (done_status (0 \<le> fst (mm_stream_qbuf e s b w)) (nat (b_buf_idx b)) st)\<rparr>"
  using assms
  by (auto simp: mm_stream_buf_done_def done_status_def Some_simps split: if_splits)

text \<open>Delivering a frame to the callbacks raises its count once for every live callback.\<close>

definition add_refs :: "nat \<Rightarrow> nat \<Rightarrow> mm_stream_buf_status_t list \<Rightarrow> mm_stream_buf_status_t list" where
  "add_refs n i st = st[i := (st ! i)\<lparr>buf_refcnt := buf_refcnt (st ! i) + of_nat n\<rparr>]"

lemma length_add_refs [simp]: "length (add_refs n i st) = length st"
  by (simp add: add_refs_def)

lemma add_refs_0 [simp]: "add_refs 0 i st = st"
  by (simp add: add_refs_def)

lemma add_refs_add: "i < length st \<Longrightarrow> add_refs n i (add_refs m i st) = add_refs (m + n) i st"
  by (simp add: add_refs_def algebra_simps)

lemma dispatch_cb_status:
  assumes "dispatch_cb e sb bi j (s, w) = Some (s', w')" and "s_buf_status s = Some st"
    and "bi_buf bi = Some b" and "0 \<le> b_buf_idx b" "nat (b_buf_idx b) < length st"
  shows "s_buf_status s' = Some (add_refs (if cb_live (s_buf_cb s ! j) then 1 else 0) (nat (b_buf_idx b)) st)"
    and "length (s_buf_cb s') = length (s_buf_cb s)"
    and "\<And>k. k \<noteq> j \<Longrightarrow> s_buf_cb s' ! k = s_buf_cb s ! k"
    and "stream_core s' = stream_core s"
  using assms
  by (auto simp: dispatch_cb_def cb_live_def add_refs_def Some_simps split: if_splits option.splits)

lemma dispatch_loop_status:
  assumes "foldM (dispatch_cb e sb bi) [j..<n] (s, w) = Some (s', w')" and "s_buf_status s = Some st"
    and "bi_buf bi = Some b" and "0 \<le> b_buf_idx b" "nat (b_buf_idx b) < length st"
    and "length (s_buf_cb s) = n"
  shows "s_buf_status s' = Some (add_refs (length (filter cb_live (drop j (s_buf_cb s)))) (nat (b_buf_idx b)) st) \<and>
    length (s_buf_cb s') = n \<and> stream_core s' = stream_core s"
  using assms
proof (induction "n - j" arbitrary: j s w st)
  case 0
  then show ?case by simp
next
  case (Suc m)
  then have j: "j < n" "[j..<n] = j # [Suc j..<n]" by (simp_all add: upt_conv_Cons)
  obtain s1 w1 where s1: "dispatch_cb e sb bi j (s, w) = Some (s1, w1)"
    "foldM (dispatch_cb e sb bi) [Suc j..<n] (s1, w1) = Some (s', w')"
    using Suc.prems(1) j(2) by (auto simp: Option.bind_eq_Some_conv)
  let ?i = "nat (b_buf_idx b)" and ?c = "if cb_live (s_buf_cb s ! j) then 1 else 0"
  note d = dispatch_cb_status [OF s1(1) Suc.prems(2-5)]
  have dr: "drop (Suc j) (s_buf_cb s1) = drop (Suc j) (s_buf_cb s)"
    by (rule nth_equalityI) (use d(2,3) in auto)
  have "s_buf_status s' = Some (add_refs (length (filter cb_live (drop (Suc j) (s_buf_cb s1)))) ?i (add_refs ?c ?i st)) \<and>
      length (s_buf_cb s') = n \<and> stream_core s' = stream_core s1"
    by (rule Suc.hyps(1) [OF _ s1(2) d(1) Suc.prems(3,4)]) (use Suc.hyps(2) Suc.prems d(2) in auto)
  moreover have "drop j (s_buf_cb s) = s_buf_cb s ! j # drop (Suc j) (s_buf_cb s)"
    using j(1) Suc.prems(6) by (simp add: Cons_nth_drop_Suc)
  ultimately show ?case
    using d(4) Suc.prems(5) by (simp add: dr add_refs_add)
qed

text \<open>Dispatching a frame: the callbacks take their references, the queue gives its own back.\<close>

lemma dispatch_status:
  assumes "mm_stream_dispatch_app_data e ch c (s, w) = Some (s', w')" and "s_buf_status s = Some st"
    and "cmd_idx c = Some i" and "i < length st" and "length (s_buf_cb s) = MM_CAMERA_STREAM_BUF_CB_MAX"
  shows "\<exists>k. s_buf_status s' = Some (done_status k i (add_refs (fanout s) i st)) \<and>
    length (s_buf_cb s') = length (s_buf_cb s) \<and> stream_core s' = stream_core s \<and> (drv_ok e \<longrightarrow> k)"
proof -
  obtain bi b where c: "c = MM_CAMERA_CMD_TYPE_DATA_CB bi" "bi_buf bi = Some b" "i = nat (b_buf_idx b)"
    using assms(3) by (cases c) auto
  obtain sb s1 w1 rc where d: "foldM (dispatch_cb e sb bi) [0..<MM_CAMERA_STREAM_BUF_CB_MAX] (s, w) = Some (s1, w1)"
    "mm_stream_buf_done e s1 b w1 = Some (rc, s', w')"
    using assms(1) c(1,2) by (auto simp: mm_stream_dispatch_app_data_def Some_simps)
  have "\<exists>st1. s_buf_status s1 = Some st1"
    using d(2) by (auto simp: mm_stream_buf_done_def Some_simps)
  then have pos: "0 \<le> b_buf_idx b" using buf_done_status(1) [OF d(2)] by auto
  note l = dispatch_loop_status [OF d(1) assms(2) c(2) pos _ assms(5)]
  have st1: "s_buf_status s1 = Some (add_refs (fanout s) i st)" "length (s_buf_cb s1) = length (s_buf_cb s)"
    "stream_core s1 = stream_core s"
    using l assms(4,5) c(3) by (simp_all add: fanout_def)
  show ?thesis
    using buf_done_status(3) [OF d(2) st1(1)] st1(2,3) c(3) drv_ok_qbuf [of e s1 b w1] by auto
qed

lemma dispatch_other:
  assumes "mm_stream_dispatch_app_data e ch c (s, w) = Some (s', w')" and "cmd_idx c = None"
  shows "s' = s"
  using assms by (cases c) (auto simp: mm_stream_dispatch_app_data_def Some_simps)

text \<open>A frame received from the driver.\<close>

lemma handle_rcvd_status:
  assumes "mm_stream_handle_rcvd_buf e bi has_cb s ch w = Some (s', ch', w')"
  shows "\<exists>p q t. s' = s\<lparr>s_cmd_thread := t\<rparr> \<and>
    ct_cmd_queue t = ct_cmd_queue (s_cmd_thread s) @ (if p then [MM_CAMERA_CMD_TYPE_DATA_CB bi] else []) \<and>
    ct_cmd_queue (ch_cmd_thread ch') = ct_cmd_queue (ch_cmd_thread ch) @
      (if q then [MM_CAMERA_CMD_TYPE_DATA_CB bi] else []) \<and>
    (p \<longrightarrow> has_cb) \<and> (q \<longrightarrow> s_is_bundled s) \<and> (mem_ok e \<longrightarrow> p = has_cb \<and> q = s_is_bundled s)"
proof -
  obtain ch1 w1 where 1: "(if s_is_bundled s then
        (let (ok, w) = malloc e w
         in if ok then do {
              _ \<leftarrow> s_ch_obj s;
              (t, w) \<leftarrow> cmd_thread_post e (MM_CAMERA_CMD_TYPE_DATA_CB bi) (ch_cmd_thread ch) w;
              Some (ch\<lparr>ch_cmd_thread := t\<rparr>, w)
            }
            else Some (ch, w))
      else Some (ch, w)) = Some (ch1, w1)"
    "(if has_cb then
       (let (ok, w) = malloc e w1
        in if ok then do {
             (t, w) \<leftarrow> cmd_thread_post e (MM_CAMERA_CMD_TYPE_DATA_CB bi) (s_cmd_thread s) w;
             Some (s\<lparr>s_cmd_thread := t\<rparr>, ch1, w)
           }
           else Some (s, ch1, w))
     else Some (s, ch1, w1)) = Some (s', ch', w')"
    using assms by (auto simp: mm_stream_handle_rcvd_buf_def Option.bind_eq_Some_conv)
  have "\<exists>q. ct_cmd_queue (ch_cmd_thread ch1) = ct_cmd_queue (ch_cmd_thread ch) @
      (if q then [MM_CAMERA_CMD_TYPE_DATA_CB bi] else []) \<and> (q \<longrightarrow> s_is_bundled s) \<and>
      (mem_ok e \<longrightarrow> q = s_is_bundled s)"
  proof (cases "s_is_bundled s \<and> fst (malloc e w) \<and> fst (malloc e (snd (malloc e w)))")
    case True
    then show ?thesis using 1(1) by (intro exI [of _ True]) (auto simp: cmd_thread_post_def Some_simps split: if_splits)
  next
    case False
    then show ?thesis using 1(1)
      by (intro exI [of _ False]) (auto simp: cmd_thread_post_def Some_simps split: if_splits)
  qed
  moreover have "ch' = ch1" using 1(2) by (auto simp: Some_simps split: if_splits)
  moreover have "\<exists>p t. s' = s\<lparr>s_cmd_thread := t\<rparr> \<and>
    ct_cmd_queue t = ct_cmd_queue (s_cmd_thread s) @ (if p then [MM_CAMERA_CMD_TYPE_DATA_CB bi] else []) \<and>
    (p \<longrightarrow> has_cb) \<and> (mem_ok e \<longrightarrow> p = has_cb)"
  proof (cases "has_cb \<and> fst (malloc e w1) \<and> fst (malloc e (snd (malloc e w1)))")
    case True
    then show ?thesis using 1(2)
      by (intro exI [of _ True] exI [of _ "s_cmd_thread s'"]) (auto simp: cmd_thread_post_def Some_simps split: if_splits)
  next
    case False
    then show ?thesis using 1(2)
      by (intro exI [of _ False] exI [of _ "s_cmd_thread s'"])
        (auto simp: cmd_thread_post_def Some_simps split: if_splits)
  qed
  ultimately show ?thesis by blast
qed

lemma small_index:
  assumes "i < 128"
  shows "sint (ucast (of_nat i :: uint32_t) :: uint8_t) = int i"
proof -
  have "signed_take_bit 7 (int i) = int i" using assms by (intro signed_take_bit_int_eq_self) simp_all
  then show ?thesis using assms by (simp add: sint_uint unsigned_of_nat take_bit_nat_eq_self)
qed

definition recv_status :: "uint8_t \<Rightarrow> nat \<Rightarrow> mm_stream_buf_status_t list \<Rightarrow> mm_stream_buf_status_t list" where
  "recv_status n i st = st[i := (st ! i)\<lparr>in_kernel := False, buf_refcnt := buf_refcnt (st ! i) + n\<rparr>]"

lemma read_frame_status:
  assumes "mm_stream_read_msm_frame e s w = Some (rc, bi, s', w')"
    and "vb_index (e_dqbuf e (w_trace w)) = of_nat i" and "i < 128"
  shows "s' = s\<lparr>s_buf := s_buf s'\<rparr>"
    and "rc = 0 \<Longrightarrow> \<exists>b. bi_buf bi = Some b \<and> b_buf_idx b = int i"
  using assms small_index [OF assms(3)]
  by (auto simp: mm_stream_read_msm_frame_def Some_simps split: if_splits option.splits)

lemma notify_status:
  assumes "mm_stream_data_notify e s ch w = Some (s', ch', w')" and "s_buf_status s = Some st"
    and "vb_index (e_dqbuf e (w_trace w)) = of_nat i" and "i < 128" "i < length st"
  shows "(s_buf_status s' = Some st \<and> s_cmd_thread s' = s_cmd_thread s \<and> ch_cmd_thread ch' = ch_cmd_thread ch \<or>
    (\<exists>n p q. n = (if s_is_bundled s then 1 else 0) + (if stream_has_cb s then 1 else 0) \<and>
      s_buf_status s' = Some (recv_status n i st) \<and>
      (\<forall>j. queued (s_cmd_thread s') j = queued (s_cmd_thread s) j + (if p \<and> j = i then 1 else 0)) \<and>
      (\<forall>j. queued (ch_cmd_thread ch') j = queued (ch_cmd_thread ch) j + (if q \<and> j = i then 1 else 0)) \<and>
      (p \<longrightarrow> stream_has_cb s) \<and> (q \<longrightarrow> s_is_bundled s) \<and>
      (mem_ok e \<longrightarrow> p = stream_has_cb s \<and> q = s_is_bundled s))) \<and>
    s_buf_cb s' = s_buf_cb s \<and> s_buf_num s' = s_buf_num s \<and> s_is_bundled s' = s_is_bundled s"
proof (cases "s_state s = MM_STREAM_STATE_ACTIVE")
  case True
  obtain rc bi s1 w1 where r: "mm_stream_read_msm_frame e s w = Some (rc, bi, s1, w1)"
    using assms(1) True by (auto simp: mm_stream_data_notify_def Some_simps)
  note rd = read_frame_status [OF r assms(3,4)]
  have s1: "s_buf_status s1 = Some st" "s_cmd_thread s1 = s_cmd_thread s" "s_buf_cb s1 = s_buf_cb s"
    "s_is_bundled s1 = s_is_bundled s" "s_buf_num s1 = s_buf_num s" "stream_has_cb s1 = stream_has_cb s"
    using assms(2) arg_cong [OF rd(1), of s_buf_status] arg_cong [OF rd(1), of s_cmd_thread]
      arg_cong [OF rd(1), of s_buf_cb] arg_cong [OF rd(1), of s_is_bundled] arg_cong [OF rd(1), of s_buf_num]
    by (simp_all add: stream_has_cb_def)
  show ?thesis
  proof (cases "rc = 0")
    case False
    then show ?thesis using assms(1) True r s1 by (auto simp: mm_stream_data_notify_def)
  next
    case rc: True
    obtain b where b: "bi_buf bi = Some b" "b_buf_idx b = int i" using rd(2) [OF rc] by auto
    define n :: uint8_t where "n = (if s_is_bundled s then 1 else 0) + (if stream_has_cb s then 1 else 0)"
    let ?s2 = "s1\<lparr>s_buf_status := Some (recv_status n i st)\<rparr>"
    have "mm_stream_handle_rcvd_buf e bi (stream_has_cb s) ?s2 ch w1 = Some (s', ch', w')"
      using assms(1,5) True r rc b s1
      by (simp add: mm_stream_data_notify_def Let_def recv_status_def n_def add.assoc)
    from handle_rcvd_status [OF this] obtain p q t where h: "s' = ?s2\<lparr>s_cmd_thread := t\<rparr>"
      "ct_cmd_queue t = ct_cmd_queue (s_cmd_thread s) @ (if p then [MM_CAMERA_CMD_TYPE_DATA_CB bi] else [])"
      "ct_cmd_queue (ch_cmd_thread ch') = ct_cmd_queue (ch_cmd_thread ch) @
        (if q then [MM_CAMERA_CMD_TYPE_DATA_CB bi] else [])"
      "p \<longrightarrow> stream_has_cb s" "q \<longrightarrow> s_is_bundled s" "mem_ok e \<longrightarrow> p = stream_has_cb s \<and> q = s_is_bundled s"
      using s1 by auto
    show ?thesis
      by (intro conjI disjI2 exI [of _ n] exI [of _ p] exI [of _ q]) (use h s1 b in \<open>auto simp: queued_def n_def\<close>)
  qed
next
  case False
  then show ?thesis using assms(1,2) by (auto simp: mm_stream_data_notify_def)
qed

section \<open>Preservation\<close>

text \<open>
  The count of a buffer is determined by its entry; the invariant of one buffer is a property of
  four numbers.
\<close>

definition counts_ok :: "bool \<Rightarrow> nat \<Rightarrow> nat \<Rightarrow> nat \<Rightarrow> bool" where
  "counts_ok k r q h \<longleftrightarrow> (k \<longrightarrow> r = 0) \<and> q + h \<le> r \<and> r + 4 * q \<le> 6"

lemma own_at_counts:
  "own_at s held st i \<longleftrightarrow>
   counts_ok (in_kernel (st ! i)) (unat (buf_refcnt (st ! i))) (queued (s_cmd_thread s) i) (held i)"
  by (simp add: own_at_def counts_ok_def unat_eq_0)

lemma counts_return: "counts_ok k r q h \<Longrightarrow> 0 < h \<Longrightarrow> counts_ok (k \<or> d \<and> r = 1) (r - 1) q (h - 1)"
  by (auto simp: counts_ok_def)

lemma counts_dispatch:
  "counts_ok k r (q + 1) h \<Longrightarrow> f \<le> 4 \<Longrightarrow> counts_ok (k \<or> d \<and> r + f = 1) (r + f - 1) q (h + f)"
  by (auto simp: counts_ok_def)

lemma refs_done_status:
  assumes "i < length st"
  shows "j \<noteq> i \<Longrightarrow> done_status k i st ! j = st ! j"
    and "unat (buf_refcnt (done_status k i st ! i)) = unat (buf_refcnt (st ! i)) - 1"
    and "in_kernel (done_status k i st ! i) \<longleftrightarrow>
      in_kernel (st ! i) \<or> k \<and> unat (buf_refcnt (st ! i)) = 1"
  using assms by (auto simp: done_status_def unat_minus_1 word_unat_eq_iff)

lemma refs_add_refs:
  assumes "i < length st" and "unat (buf_refcnt (st ! i)) + n < 256"
  shows "j \<noteq> i \<Longrightarrow> add_refs n i st ! j = st ! j"
    and "unat (buf_refcnt (add_refs n i st ! i)) = unat (buf_refcnt (st ! i)) + n"
    and "in_kernel (add_refs n i st ! i) \<longleftrightarrow> in_kernel (st ! i)"
  using assms by (auto simp: add_refs_def unat_word_ariths unat_of_nat)

lemma refs_recv_status:
  assumes "i < length st" and "buf_refcnt (st ! i) = 0"
  shows "j \<noteq> i \<Longrightarrow> recv_status n i st ! j = st ! j"
    and "buf_refcnt (recv_status n i st ! i) = n" and "\<not> in_kernel (recv_status n i st ! i)"
  using assms by (auto simp: recv_status_def)

lemma own_return:
  assumes "own_inv (s, ch, w, held)" and "mm_stream_buf_done e s b w = Some (rc, s', w')"
    and "held (nat (b_buf_idx b)) > 0"
  shows "own_inv (s', ch', w', held(nat (b_buf_idx b) := held (nat (b_buf_idx b)) - 1))"
proof -
  let ?i = "nat (b_buf_idx b)"
  obtain st where st: "s_buf_status s = Some st" "length st = unat (s_buf_num s)"
    "\<forall>i < length st. own_at s held st i" "\<forall>i \<ge> length st. queued (s_cmd_thread s) i = 0"
    using assms(1) by (auto simp: own_inv_def)
  note d = buf_done_status [OF assms(2) st(1)]
  define k where "k = (0 \<le> fst (mm_stream_qbuf e s b w))"
  have s': "s' = s\<lparr>s_buf_status := Some (done_status k ?i st)\<rparr>" using d(3) by (simp add: k_def)
  have "own_at s' (held(?i := held ?i - 1)) (done_status k ?i st) j" if "j < length st" for j
  proof (cases "j = ?i")
    case True
    have "counts_ok (in_kernel (st ! ?i)) (unat (buf_refcnt (st ! ?i))) (queued (s_cmd_thread s) ?i) (held ?i)"
      using st(3) d(2) by (simp add: own_at_counts)
    from counts_return [OF this assms(3), of k] show ?thesis
      using True by (simp add: own_at_counts s' refs_done_status(2,3) [OF d(2)])
  next
    case False
    then show ?thesis
      using st(3) that refs_done_status(1) [OF d(2) False, of k] by (simp add: own_at_counts s')
  qed
  then show ?thesis using assms(1) st by (simp add: own_inv_def s')
qed

lemma own_dispatch:
  assumes "own_inv (s, ch, w, held)" and "ct_cmd_queue (s_cmd_thread s) = c # cs"
    and "mm_stream_dispatch_app_data e ch c (s\<lparr>s_cmd_thread := (s_cmd_thread s)\<lparr>ct_cmd_queue := cs\<rparr>\<rparr>, w) = Some (s', w')"
  shows "own_inv (s', ch', w', \<lambda>i. held i + (if cmd_idx c = Some i then fanout s else 0))"
proof -
  let ?s = "s\<lparr>s_cmd_thread := (s_cmd_thread s)\<lparr>ct_cmd_queue := cs\<rparr>\<rparr>"
  obtain st where st: "s_buf_status s = Some st" "length st = unat (s_buf_num s)"
    "\<forall>i < length st. own_at s held st i" "\<forall>i \<ge> length st. queued (s_cmd_thread s) i = 0"
    "length (s_buf_cb s) = MM_CAMERA_STREAM_BUF_CB_MAX" "unat (s_buf_num s) \<le> MM_CAMERA_MAX_NUM_FRAMES"
    using assms(1) by (auto simp: own_inv_def)
  have q: "queued (s_cmd_thread s) j = queued (s_cmd_thread ?s) j + (if cmd_idx c = Some j then 1 else 0)" for j
    by (simp add: queued_def assms(2))
  show ?thesis
  proof (cases "cmd_idx c")
    case None
    then have "s' = ?s" using dispatch_other [OF assms(3)] by simp
    then show ?thesis using st q None by (simp add: own_inv_def own_at_def)
  next
    case (Some i)
    have i: "i < length st" using st(4) q [of i] Some by (cases "i < length st") auto
    obtain k where k: "s_buf_status s' = Some (done_status k i (add_refs (fanout s) i st))"
      "length (s_buf_cb s') = length (s_buf_cb s)" "stream_core s' = stream_core ?s"
      using dispatch_status [OF assms(3) _ Some i] st by (auto simp: fanout_def)
    have t: "s_cmd_thread s' = s_cmd_thread ?s" "s_buf_num s' = s_buf_num s"
      using stream_coreD [OF k(3)] by simp_all
    have f: "fanout s \<le> 4" using length_filter_le [of cb_live "s_buf_cb s"] st(5) by (simp add: fanout_def)
    have ci: "counts_ok (in_kernel (st ! i)) (unat (buf_refcnt (st ! i))) (queued (s_cmd_thread s) i) (held i)"
      using st(3) i by (simp add: own_at_counts)
    then have "unat (buf_refcnt (st ! i)) + fanout s < 256" using f by (simp add: counts_ok_def)
    note a = refs_add_refs [OF i this]
    have di: "i < length (add_refs (fanout s) i st)" using i by simp
    have "own_at s' (\<lambda>i. held i + (if cmd_idx c = Some i then fanout s else 0))
        (done_status k i (add_refs (fanout s) i st)) j" if "j < length st" for j
    proof (cases "j = i")
      case True
      have "counts_ok (in_kernel (st ! i)) (unat (buf_refcnt (st ! i))) (queued (s_cmd_thread ?s) i + 1) (held i)"
        using ci q [of i] Some by simp
      from counts_dispatch [OF this f, of k] show ?thesis
        using True Some t by (simp add: own_at_counts refs_done_status(2,3) [OF di] a(2,3))
    next
      case False
      then show ?thesis
        using st(3) [rule_format, OF that] refs_done_status(1) [OF di False, of k] a(1) [OF False] q [of j] Some t
        by (simp add: own_at_counts)
    qed
    then show ?thesis using k(1,2) st t q by (auto simp: own_inv_def)
  qed
qed

lemma own_notify:
  assumes "own_inv (s, ch, w, held)" and "mm_stream_data_notify e s ch w = Some (s', ch', w')" and "dq_ok e s w"
  shows "own_inv (s', ch', w', \<lambda>i. held i + (queued (ch_cmd_thread ch') i - queued (ch_cmd_thread ch) i))"
proof -
  obtain st where st: "s_buf_status s = Some st" "length st = unat (s_buf_num s)"
    "\<forall>i < length st. own_at s held st i" "\<forall>i \<ge> length st. queued (s_cmd_thread s) i = 0"
    "length (s_buf_cb s) = MM_CAMERA_STREAM_BUF_CB_MAX" "unat (s_buf_num s) \<le> MM_CAMERA_MAX_NUM_FRAMES"
    using assms(1) by (auto simp: own_inv_def)
  obtain i where i: "i < length st" "in_kernel (st ! i)" "vb_index (e_dqbuf e (w_trace w)) = of_nat i"
    using assms(3) st(1) by (auto simp: dq_ok_def)
  have ci: "counts_ok True (unat (buf_refcnt (st ! i))) (queued (s_cmd_thread s) i) (held i)"
    using own_at_counts [of s held st i] st(3) i(1,2) by simp
  then have z: "buf_refcnt (st ! i) = 0" "queued (s_cmd_thread s) i = 0" "held i = 0"
    by (auto simp: counts_ok_def unat_eq_0)
  have "i < 128" using i(1) st(2,6) by simp
  note n = notify_status [OF assms(2) st(1) i(3) this i(1)]
  then consider "s_buf_status s' = Some st" "s_cmd_thread s' = s_cmd_thread s" "ch_cmd_thread ch' = ch_cmd_thread ch"
    | (recv) n p q where "n = (if s_is_bundled s then 1 else 0) + (if stream_has_cb s then 1 else 0)"
      "s_buf_status s' = Some (recv_status n i st)"
      "\<forall>j. queued (s_cmd_thread s') j = queued (s_cmd_thread s) j + (if p \<and> j = i then 1 else 0)"
      "\<forall>j. queued (ch_cmd_thread ch') j = queued (ch_cmd_thread ch) j + (if q \<and> j = i then 1 else 0)"
      "p \<longrightarrow> stream_has_cb s" "q \<longrightarrow> s_is_bundled s"
    by blast
  then show ?thesis
  proof cases
    case 1
    then show ?thesis using st n by (simp add: own_inv_def own_at_def)
  next
    case recv
    note r = refs_recv_status [OF i(1) z(1)]
    have "own_at s' (\<lambda>i. held i + (queued (ch_cmd_thread ch') i - queued (ch_cmd_thread ch) i))
        (recv_status n i st) j" if "j < length st" for j
    proof (cases "j = i")
      case True
      then show ?thesis using recv z r(2,3) by (auto simp: own_at_counts counts_ok_def)
    next
      case False
      then show ?thesis using st(3) [rule_format, OF that] recv r(1) [OF False] by (simp add: own_at_counts)
    qed
    then show ?thesis using recv st n i(1) by (auto simp: own_inv_def recv_status_def)
  qed
qed

lemma own_step_inv: "own_step e x y \<Longrightarrow> own_inv x \<Longrightarrow> own_inv y"
  by (induction rule: own_step.induct) (blast intro: own_notify own_dispatch own_return)+

lemma own_steps_inv: "(own_step e)\<^sup>*\<^sup>* x y \<Longrightarrow> own_inv x \<Longrightarrow> own_inv y"
  by (induction rule: rtranclp_induct) (auto intro: own_step_inv)

section \<open>Registration\<close>

lemma reg_buf_cbs: "mm_stream_reg_buf e s w = Some (rc, s', w') \<Longrightarrow> s_buf_cb s' = s_buf_cb s"
proof -
  have "reg_buf_loop e is s w = Some (rc, s', w') \<Longrightarrow> s_buf_cb s' = s_buf_cb s" for "is" s w
    by (induction "is" arbitrary: s w) (fastforce simp: Some_simps split: if_splits)+
  then show "mm_stream_reg_buf e s w = Some (rc, s', w') \<Longrightarrow> s_buf_cb s' = s_buf_cb s"
    by (auto simp: mm_stream_reg_buf_def Some_simps split: if_splits)
qed

lemma reg_buf_loop_status:
  assumes "reg_buf_loop e is s w = Some (0, s', w')" and "distinct is" and "s_buf_status s = Some st"
  shows "\<exists>st'. s_buf_status s' = Some st' \<and> length st' = length st \<and> set is \<subseteq> {..<length st} \<and>
    (\<forall>i < length st. st' ! i = (if i \<in> set is
       then (st ! i)\<lparr>buf_refcnt := (if initial_reg_flag (st ! i) then 0 else 1), in_kernel := initial_reg_flag (st ! i)\<rparr>
       else st ! i))"
  using assms
proof (induction "is" arbitrary: s w st)
  case (Cons j "is")
  let ?f = "initial_reg_flag (st ! j)"
  let ?st = "set_status j (if ?f then 0 else 1) ?f st"
  obtain w1 where l: "reg_buf_loop e is (s\<lparr>s_buf_status := Some ?st\<rparr>) w1 = Some (0, s', w')" and j: "j < length st"
    using Cons.prems(1,3) by (cases ?f) (auto simp: Some_simps split: if_splits)
  from Cons.IH [OF l] Cons.prems(2) obtain st' where "s_buf_status s' = Some st'" "length st' = length st"
    "set is \<subseteq> {..<length st}"
    "\<forall>i < length st. st' ! i = (if i \<in> set is
       then (?st ! i)\<lparr>buf_refcnt := (if initial_reg_flag (?st ! i) then 0 else 1), in_kernel := initial_reg_flag (?st ! i)\<rparr>
       else ?st ! i)"
    by (auto simp: set_status_def)
  then show ?case
    using j Cons.prems(2) by (auto simp: set_status_def nth_list_update)
qed simp

lemma reg_buf_status:
  assumes "mm_stream_reg_buf e s w = Some (0, s', w')" and "s_buf_status s = Some st"
    and "length st = unat (s_buf_num s)"
  shows "unat (s_buf_num s) \<le> MM_CAMERA_MAX_NUM_FRAMES"
    and "\<exists>st'. s_buf_status s' = Some st' \<and> length st' = length st \<and> (\<forall>i < length st. st' ! i =
      (st ! i)\<lparr>buf_refcnt := (if initial_reg_flag (st ! i) then 0 else 1), in_kernel := initial_reg_flag (st ! i)\<rparr>)"
proof -
  obtain w1 where r: "mm_stream_request_buf e s w = (0, w1)"
    "reg_buf_loop e [0..<unat (s_buf_num s)] s w1 = Some (0, s', w')"
    using assms(1) by (auto simp: mm_stream_reg_buf_def Some_simps split: if_splits)
      (metis prod.collapse)+
  then show "unat (s_buf_num s) \<le> MM_CAMERA_MAX_NUM_FRAMES"
    by (auto simp: mm_stream_request_buf_def split: if_splits)
  show "\<exists>st'. s_buf_status s' = Some st' \<and> length st' = length st \<and> (\<forall>i < length st. st' ! i =
      (st ! i)\<lparr>buf_refcnt := (if initial_reg_flag (st ! i) then 0 else 1), in_kernel := initial_reg_flag (st ! i)\<rparr>)"
    using reg_buf_loop_status [OF r(2) _ assms(2)] assms(3) by fastforce
qed

text \<open>A buffer that is not registered at the start belongs to the client.\<close>

definition start_held :: "mm_stream_t \<Rightarrow> nat \<Rightarrow> nat" where
  "start_held s i = (case s_buf_status s of None \<Rightarrow> 0
     | Some st \<Rightarrow> if i < length st \<and> \<not> in_kernel (st ! i) then 1 else 0)"

lemma start_result:
  assumes "mm_stream_fsm_fn e MM_STREAM_EVT_START s ch w = Some (0, s', ch', w')"
    and "s_state s = MM_STREAM_STATE_REG"
  shows "s' = start_stream s"
proof -
  have "mm_stream_fsm_reg e MM_STREAM_EVT_START s ch w = Some (0, s', ch', w')"
    using assms by (simp add: mm_stream_fsm_fn_def)
  then show ?thesis
    unfolding fsm_reg_start
    by (auto simp: Option.bind_eq_Some_conv split: if_split_asm)
qed

lemma start_status:
  "s_buf_status (start_stream s) = s_buf_status s" "s_buf_num (start_stream s) = s_buf_num s"
  "s_buf_cb (start_stream s) = s_buf_cb s" "s_is_bundled (start_stream s) = s_is_bundled s"
  "ct_cmd_queue (s_cmd_thread (start_stream s)) = (if stream_has_cb s then [] else ct_cmd_queue (s_cmd_thread s))"
  by (simp_all add: start_stream_def mm_camera_cmd_thread_launch_def)

lemma registered_start:
  assumes "stream_wf s0" and "s_state s0 = MM_STREAM_STATE_BUFFED"
    and "mm_stream_fsm_fn e0 MM_STREAM_EVT_REG_BUF s0 ch0 w0 = Some (0, s1, ch1, w1)"
    and "mm_stream_fsm_fn e1 MM_STREAM_EVT_START s1 ch2 w2 = Some (0, s2, ch3, w3)"
  shows "own_inv (s2, ch3, w3, start_held s2)"
    and "\<exists>st. s_buf_status s2 = Some st \<and> (\<forall>i < length st. queued (s_cmd_thread s2) i = 0 \<and>
      (in_kernel (st ! i) \<longrightarrow> buf_refcnt (st ! i) = 0) \<and> (\<not> in_kernel (st ! i) \<longrightarrow> buf_refcnt (st ! i) = 1))"
    and "s_buf_cb s2 = s_buf_cb s0" and "s_is_bundled s2 = s_is_bundled s0"
proof -
  obtain st where st: "s_buf_status s0 = Some st" "length st = unat (s_buf_num s0)"
    using assms(1,2) by (auto simp: stream_wf_def buffered_def status_ok_def)
  have wf: "length (s_buf_cb s0) = MM_CAMERA_STREAM_BUF_CB_MAX" "s_cmd_thread s0 = zero_cmd_thread"
    using assms(1,2) by (auto simp: stream_wf_def)
  obtain s1' where r: "mm_stream_reg_buf e0 s0 w0 = Some (0, s1', w1)" "s1 = s1'\<lparr>s_state := MM_STREAM_STATE_REG\<rparr>"
    using assms(2,3) by (auto simp: mm_stream_fsm_fn_def mm_stream_fsm_buffed_def Some_simps)
  note rs = reg_buf_status [OF r(1) st]
  obtain st1 where st1: "s_buf_status s1 = Some st1" "length st1 = length st"
    "\<forall>i < length st. st1 ! i = (st ! i)\<lparr>buf_refcnt := (if initial_reg_flag (st ! i) then 0 else 1),
       in_kernel := initial_reg_flag (st ! i)\<rparr>"
    using rs(2) r(2) by auto
  note core = stream_coreD [OF reg_buf_core [OF r(1)]]
  have cb1: "s_buf_cb s1' = s_buf_cb s0" by (rule reg_buf_cbs [OF r(1)])
  have s1: "s_state s1 = MM_STREAM_STATE_REG" "s_buf_num s1 = s_buf_num s0" "s_cmd_thread s1 = zero_cmd_thread"
    "s_buf_cb s1 = s_buf_cb s0" "s_is_bundled s1 = s_is_bundled s0"
    using core cb1 wf r(2) by auto
  have s2_def: "s2 = start_stream s1" by (rule start_result [OF assms(4) s1(1)])
  note s2 = start_status [of s1, folded s2_def]
  have q: "queued (s_cmd_thread s2) i = 0" for i
    using s2(5) s1(3) by (simp add: queued_def zero_cmd_thread_def)
  show cb: "s_buf_cb s2 = s_buf_cb s0" "s_is_bundled s2 = s_is_bundled s0" using s2(3,4) s1 by simp_all
  have at: "(in_kernel (st1 ! i) \<longrightarrow> buf_refcnt (st1 ! i) = 0) \<and> (\<not> in_kernel (st1 ! i) \<longrightarrow> buf_refcnt (st1 ! i) = 1)"
    if "i < length st" for i
    using st1(3) that by auto
  then show "\<exists>st. s_buf_status s2 = Some st \<and> (\<forall>i < length st. queued (s_cmd_thread s2) i = 0 \<and>
      (in_kernel (st ! i) \<longrightarrow> buf_refcnt (st ! i) = 0) \<and> (\<not> in_kernel (st ! i) \<longrightarrow> buf_refcnt (st ! i) = 1))"
    using s2(1) st1(1,2) q by auto
  show "own_inv (s2, ch3, w3, start_held s2)"
    using at q s2(1,2) s1(2) st1(1,2) st(2) rs(1) wf(1) cb
    by (auto simp: own_inv_def own_at_def start_held_def)
qed

section \<open>A run\<close>

text \<open>A stream with two registered buffers and one callback.\<close>

definition sample_buffed :: mm_stream_t where
  "sample_buffed = sample_stream\<lparr>s_fd := 7, s_state := MM_STREAM_STATE_BUFFED,
     s_stream_info := Some sample_stream_info,
     s_mem_vtbl := \<lparr>vt_user_data = 0, vt_get_bufs = Some 1, vt_put_bufs = Some 2, vt_invalidate_buf = None,
       vt_clean_invalidate_buf = None\<rparr>,
     s_buf_cb := [\<lparr>dcb_cb = Some 3, dcb_user_data = 0, dcb_cb_count = -1\<rparr>, zero_data_cb, zero_data_cb, zero_data_cb],
     s_buf_num := 2, s_buf := Some [calm_buf 0, calm_buf 1],
     s_buf_status := Some [\<lparr>buf_refcnt = 0, initial_reg_flag = True, in_kernel = False\<rparr>,
       \<lparr>buf_refcnt = 0, initial_reg_flag = True, in_kernel = False\<rparr>]\<rparr>"

definition sample_registered :: mm_stream_t where
  "sample_registered = sample_buffed\<lparr>s_buf_status := Some [\<lparr>buf_refcnt = 0, initial_reg_flag = True, in_kernel = True\<rparr>,
       \<lparr>buf_refcnt = 0, initial_reg_flag = True, in_kernel = True\<rparr>], s_state := MM_STREAM_STATE_REG\<rparr>"

lemma upt_2: "[0..<2] = [0, 1::nat]" by (simp add: upt_rec)

lemma all_less_2: "(\<forall>i < (2::nat). P i) \<longleftrightarrow> P 0 \<and> P 1" by (auto simp: less_2_cases_iff)

lemma all_less_Suc2: "(\<forall>i < Suc (Suc 0). P i) \<longleftrightarrow> P 0 \<and> P (Suc 0)" by (auto simp: less_Suc_eq)

lemma sample_buffed_wf: "stream_wf sample_buffed"
  by (simp add: stream_wf_def sample_buffed_def sample_stream_def zero_stream_def configured_def buffered_def
      vtbl_ok_def bufs_ok_def status_ok_def cbs_inf_def zero_data_cb_def calm_buf_def all_less_2 all_less_Suc2)

lemmas calm_defs = sys_def calm_env_def calm_rc_def malloc_def

lemma sample_reg:
  "\<exists>w. mm_stream_fsm_fn (calm_env 2) MM_STREAM_EVT_REG_BUF sample_buffed sample_channel sample_world =
     Some (0, sample_registered, sample_channel, w)"
  by (simp add: mm_stream_fsm_fn_def mm_stream_fsm_buffed_def mm_stream_reg_buf_def mm_stream_request_buf_def
      mm_stream_qbuf_def set_status_def sample_buffed_def sample_registered_def calm_defs upt_2 nth_opt_def)

lemma sample_start:
  "\<exists>ch w. mm_stream_fsm_fn (calm_env 2) MM_STREAM_EVT_START sample_registered sample_channel sample_world =
     Some (0, start_stream sample_registered, ch, w)"
  by (simp add: mm_stream_fsm_fn_def fsm_reg_start sample_registered_def sample_buffed_def mm_stream_streamon_def
      mm_camera_poll_thread_add_poll_fd_def poll_idx_def mm_camera_poll_sig_def sample_channel_def sample_poll_thread_def
      calm_defs mm_camera_util_get_index_by_handler_def sample_stream_def start_stream_def)

definition sample_streaming :: mm_stream_t where
  "sample_streaming = (let s = start_stream sample_registered in
     s\<lparr>s_buf := Some [(calm_buf 0)\<lparr>b_stream_id := s_my_hdl s, b_frame_idx := 1\<rparr>, calm_buf 1],
       s_buf_status := Some [\<lparr>buf_refcnt = 1, initial_reg_flag = True, in_kernel = False\<rparr>,
         \<lparr>buf_refcnt = 0, initial_reg_flag = True, in_kernel = True\<rparr>],
       s_cmd_thread := (s_cmd_thread s)\<lparr>ct_cmd_queue := [MM_CAMERA_CMD_TYPE_DATA_CB
         \<lparr>bi_stream_id = s_my_hdl s, bi_frame_idx = 1,
          bi_buf = Some ((calm_buf 0)\<lparr>b_stream_id := s_my_hdl s, b_frame_idx := 1\<rparr>)\<rparr>], ct_cmd_sem := 1\<rparr>\<rparr>)"

lemma sample_notify:
  "\<exists>w'. mm_stream_data_notify (calm_env 2) (start_stream sample_registered) ch w = Some (sample_streaming, ch, w')"
  by (simp add: mm_stream_data_notify_def mm_stream_read_msm_frame_def mm_stream_handle_rcvd_buf_def
     cmd_thread_post_def sample_streaming_def
     start_stream_def sample_registered_def sample_buffed_def sample_stream_def zero_stream_def zero_cmd_thread_def
      stream_has_cb_def calm_buf_def calm_defs mm_camera_cmd_thread_launch_def nth_opt_def Let_def)

lemma sample_step:
  "\<exists>w' held. own_step (calm_env 2) (start_stream sample_registered, ch, w, start_held (start_stream sample_registered))
     (sample_streaming, ch, w', held)"
proof -
  obtain w' where "mm_stream_data_notify (calm_env 2) (start_stream sample_registered) ch w = Some (sample_streaming, ch, w')"
    using sample_notify by blast
  moreover have "dq_ok (calm_env 2) (start_stream sample_registered) w"
    by (auto simp: dq_ok_def start_status sample_registered_def calm_env_def intro: exI [of _ 0])
  ultimately show ?thesis by (blast intro: own_step.notify)
qed

lemma sample_run:
  obtains ch w w' held where
    "mm_stream_fsm_fn (calm_env 2) MM_STREAM_EVT_START sample_registered sample_channel sample_world =
       Some (0, start_stream sample_registered, ch, w)"
    "(own_step (calm_env 2))\<^sup>*\<^sup>* (start_stream sample_registered, ch, w, start_held (start_stream sample_registered))
       (sample_streaming, ch, w', held)"
  using sample_start sample_step by blast

lemma sample_buffed_state: "s_state sample_buffed = MM_STREAM_STATE_BUFFED"
  by (simp add: sample_buffed_def)

lemma sample_streaming_status: "s_buf_status sample_streaming =
    Some [\<lparr>buf_refcnt = 1, initial_reg_flag = True, in_kernel = False\<rparr>,
      \<lparr>buf_refcnt = 0, initial_reg_flag = True, in_kernel = True\<rparr>]"
  by (simp add: sample_streaming_def Let_def)

section \<open>Ownership\<close>

text \<open>
  C3. A buffer the driver owns is used by nobody else. Start from a stream whose buffers were
  registered and which was started, both with code 0, and let any sequence of steps follow: frames
  arrive from the driver (which hands out only buffers it was given), queued frames are dispatched
  to the callbacks, holders return references they have. Allocation failures, refused buffers and
  failing cache operations may happen anywhere. In every state that is reached, a buffer that is
  with the driver is in no command queue of the stream, and neither the client nor the channel
  holds a reference to it.
\<close>

theorem stream_buffer_ownership:
  assumes "stream_wf s0" and "s_state s0 = MM_STREAM_STATE_BUFFED"
    and "mm_stream_fsm_fn e0 MM_STREAM_EVT_REG_BUF s0 ch0 w0 = Some (0, s1, ch1, w1)"
    and "mm_stream_fsm_fn e1 MM_STREAM_EVT_START s1 ch2 w2 = Some (0, s2, ch3, w3)"
    and "(own_step e)\<^sup>*\<^sup>* (s2, ch3, w3, start_held s2) (s, ch, w, held)"
    and "s_buf_status s = Some st" and "i < length st" and "in_kernel (st ! i)"
  shows "held i = 0 \<and> queued (s_cmd_thread s) i = 0"
proof -
  have "own_inv (s, ch, w, held)"
    using own_steps_inv [OF assms(5)] registered_start(1) [OF assms(1-4)] by blast
  then have "own_at s held st i" using assms(6,7) by (auto simp: own_inv_def)
  then show ?thesis using assms(8) by (auto simp: own_at_def)
qed

theorem stream_buffer_ownership_witness:
  "\<exists>ch w w' held. (own_step (calm_env 2))\<^sup>*\<^sup>* (start_stream sample_registered, ch, w, start_held (start_stream sample_registered))
     (sample_streaming, ch, w', held) \<and> held 1 = 0 \<and> queued (s_cmd_thread sample_streaming) 1 = 0"
proof -
  obtain w1 where r: "mm_stream_fsm_fn (calm_env 2) MM_STREAM_EVT_REG_BUF sample_buffed sample_channel sample_world =
     Some (0, sample_registered, sample_channel, w1)"
    using sample_reg by blast
  obtain ch w w' held where s: "mm_stream_fsm_fn (calm_env 2) MM_STREAM_EVT_START sample_registered sample_channel sample_world =
       Some (0, start_stream sample_registered, ch, w)"
    "(own_step (calm_env 2))\<^sup>*\<^sup>* (start_stream sample_registered, ch, w, start_held (start_stream sample_registered))
       (sample_streaming, ch, w', held)"
    by (rule sample_run)
  show ?thesis
    using stream_buffer_ownership [OF sample_buffed_wf sample_buffed_state r s sample_streaming_status, of 1] s(2) by auto
qed

end
