(* ===== verification/Stream_Exact.thy ===== *)
theory Stream_Exact
  imports Stream_Ownership
begin

text \<open>
  No buffer is lost. With memory for the queue nodes and a driver that takes every buffer back, the counts are exact
  and a buffer without references is with the driver, provided somebody consumes the frames.
\<close>

definition exact_counts :: "bool \<Rightarrow> nat \<Rightarrow> nat \<Rightarrow> nat \<Rightarrow> bool" where
  "exact_counts k r q h \<longleftrightarrow> r = q + h \<and> (k \<longleftrightarrow> r = 0)"

definition exact_at :: "mm_stream_t \<Rightarrow> (nat \<Rightarrow> nat) \<Rightarrow> mm_stream_buf_status_t list \<Rightarrow> nat \<Rightarrow> bool" where
  "exact_at s held st i \<longleftrightarrow> exact_counts (in_kernel (st ! i)) (unat (buf_refcnt (st ! i)))
     (queued (s_cmd_thread s) i) (held i)"

lemma exact_counts_return:
  "exact_counts k r q h \<Longrightarrow> 0 < h \<Longrightarrow> exact_counts (k \<or> r = 1) (r - 1) q (h - 1)"
  by (auto simp: exact_counts_def)

lemma exact_counts_dispatch:
  "exact_counts k r (q + 1) h \<Longrightarrow> exact_counts (k \<or> r + f = 1) (r + f - 1) q (h + f)"
  by (auto simp: exact_counts_def)

definition own_exact :: "own_state \<Rightarrow> bool" where
  "own_exact = (\<lambda>(s, ch, w, held). cbs_inf s \<and> (stream_has_cb s \<or> s_is_bundled s) \<and>
     (\<forall>st i. s_buf_status s = Some st \<and> i < length st \<longrightarrow>
        exact_at s held st i))"

lemma dispatch_cb_cbs:
  assumes "dispatch_cb e sb bi j p = Some p'" and "cbs_inf (fst p)" and "j < length (s_buf_cb (fst p))"
  shows "s_buf_cb (fst p') = s_buf_cb (fst p)"
proof -
  have "dcb_cb (s_buf_cb (fst p) ! j) \<noteq> None \<Longrightarrow> dcb_cb_count (s_buf_cb (fst p) ! j) < 0"
    using assms(2,3) by (auto simp: cbs_inf_def)
  then show ?thesis
    using assms(1) by (cases p) (auto simp: dispatch_cb_def Some_simps split: if_splits option.splits)
qed

lemma buf_done_cbs: "mm_stream_buf_done e s b w = Some (rc, s', w') \<Longrightarrow> s_buf_cb s' = s_buf_cb s"
  by (auto simp: mm_stream_buf_done_def Some_simps split: if_splits)

lemma dispatch_cbs:
  assumes "mm_stream_dispatch_app_data e ch c (s, w) = Some (s', w')" and "cbs_inf s"
    and "length (s_buf_cb s) = MM_CAMERA_STREAM_BUF_CB_MAX"
  shows "s_buf_cb s' = s_buf_cb s"
proof (cases c)
  case (MM_CAMERA_CMD_TYPE_DATA_CB bi)
  have loop: "s_buf_cb (fst p) = s_buf_cb s"
    if "foldM (dispatch_cb e sb bi) [0..<MM_CAMERA_STREAM_BUF_CB_MAX] (s, w) = Some p" for sb p
  proof (rule foldM_Some [OF that])
    fix j p1 p2
    assume "j \<in> set [0..<MM_CAMERA_STREAM_BUF_CB_MAX]" "dispatch_cb e sb bi j p1 = Some p2" "s_buf_cb (fst p1) = s_buf_cb s"
    then show "s_buf_cb (fst p2) = s_buf_cb s"
      using dispatch_cb_cbs [of e sb bi j p1 p2] assms(2,3) by (auto simp: cbs_inf_def)
  qed simp
  show ?thesis
    using assms(1)
    by (auto simp: MM_CAMERA_CMD_TYPE_DATA_CB mm_stream_dispatch_app_data_def Some_simps
        dest!: loop buf_done_cbs)
qed (use assms in \<open>simp_all add: mm_stream_dispatch_app_data_def\<close>)

lemma exact_return:
  assumes "own_exact (s, ch, w, held)" and "mm_stream_buf_done e s b w = Some (rc, s', w')"
    and "held (nat (b_buf_idx b)) > 0" and "drv_ok e"
  shows "own_exact (s', ch', w', held(nat (b_buf_idx b) := held (nat (b_buf_idx b)) - 1))"
proof -
  obtain st where st: "s_buf_status s = Some st"
    using assms(2) by (auto simp: mm_stream_buf_done_def Some_simps)
  let ?i = "nat (b_buf_idx b)"
  note d = buf_done_status [OF assms(2) st]
  have s': "s' = s\<lparr>s_buf_status := Some (done_status True ?i st)\<rparr>"
    using d(3) drv_ok_qbuf [OF assms(4), of s b w] by simp
  note r = refs_done_status [OF d(2), where k = True]
  have ex: "exact_at s held st j" if "j < length st" for j
    using assms(1) st that by (simp add: own_exact_def)
  have "exact_at s' (held(?i := held ?i - 1)) (done_status True ?i st) j" if "j < length st" for j
  proof (cases "j = ?i")
    case True
    then show ?thesis
      using exact_counts_return [OF ex [OF d(2), unfolded exact_at_def] assms(3)]
      by (simp add: exact_at_def s' r(2,3))
  next
    case False
    then show ?thesis using ex [OF that] r(1) [OF False] by (simp add: exact_at_def s')
  qed
  then show ?thesis using assms(1) by (simp add: own_exact_def s' stream_has_cb_def)
qed

lemma exact_dispatch:
  assumes "own_exact (s, ch, w, held)" and "own_inv (s, ch, w, held)"
    and "ct_cmd_queue (s_cmd_thread s) = c # cs"
    and "mm_stream_dispatch_app_data e ch c (s\<lparr>s_cmd_thread := (s_cmd_thread s)\<lparr>ct_cmd_queue := cs\<rparr>\<rparr>, w) = Some (s', w')"
    and "drv_ok e"
  shows "own_exact (s', ch', w', \<lambda>i. held i + (if cmd_idx c = Some i then fanout s else 0))"
proof -
  let ?s = "s\<lparr>s_cmd_thread := (s_cmd_thread s)\<lparr>ct_cmd_queue := cs\<rparr>\<rparr>"
  obtain st where st: "s_buf_status s = Some st" "length st = unat (s_buf_num s)"
    "\<forall>i < length st. own_at s held st i" "\<forall>i \<ge> length st. queued (s_cmd_thread s) i = 0"
    "length (s_buf_cb s) = MM_CAMERA_STREAM_BUF_CB_MAX"
    using assms(2) by (auto simp: own_inv_def)
  have ex: "cbs_inf s" "stream_has_cb s \<or> s_is_bundled s"
    "\<And>i. i < length st \<Longrightarrow> exact_at s held st i"
    using assms(1) st(1) by (auto simp: own_exact_def)
  have q: "queued (s_cmd_thread s) j = queued (s_cmd_thread ?s) j + (if cmd_idx c = Some j then 1 else 0)" for j
    by (simp add: queued_def assms(3))
  have cb: "s_buf_cb s' = s_buf_cb s" using dispatch_cbs [OF assms(4)] ex(1) st(5) by simp
  show ?thesis
  proof (cases "cmd_idx c")
    case None
    then have "s' = ?s" using dispatch_other [OF assms(4)] by simp
    then show ?thesis using ex st(1) q None by (simp add: own_exact_def exact_at_def)
  next
    case (Some i)
    have i: "i < length st" using st(4) q [of i] Some by (cases "i < length st") auto
    have k: "s_buf_status s' = Some (done_status True i (add_refs (fanout s) i st))"
      "stream_core s' = stream_core ?s"
      using dispatch_status [OF assms(4) _ Some i] st assms(5) by (auto simp: fanout_def)
    have t: "s_cmd_thread s' = s_cmd_thread ?s" "s_is_bundled s' = s_is_bundled s"
      using stream_coreD [OF k(2)] by simp_all
    have f: "fanout s \<le> 4" using length_filter_le [of cb_live "s_buf_cb s"] st(5) by (simp add: fanout_def)
    have "unat (buf_refcnt (st ! i)) \<le> 6" using st(3) i by (auto simp: own_at_def)
    then have "unat (buf_refcnt (st ! i)) + fanout s < 256" using f by simp
    note a = refs_add_refs [OF i this]
    have di: "i < length (add_refs (fanout s) i st)" using i by simp
    note r = refs_done_status [OF di, where k = True]
    let ?st = "done_status True i (add_refs (fanout s) i st)"
    let ?held = "\<lambda>i. held i + (if cmd_idx c = Some i then fanout s else 0)"
    have "exact_at s' ?held ?st j" if "j < length st" for j
    proof (cases "j = i")
      case True
      have "exact_counts (in_kernel (st ! i)) (unat (buf_refcnt (st ! i))) (queued (s_cmd_thread ?s) i + 1) (held i)"
        using ex(3) [OF i] q [of i] Some by (simp add: exact_at_def)
      from exact_counts_dispatch [OF this, of "fanout s"] show ?thesis
        using True Some t(1) by (simp add: exact_at_def a(2,3) r(2,3))
    next
      case False
      then show ?thesis
        using ex(3) [OF that] r(1) [OF False] a(1) [OF False] q [of j] Some t(1) by (simp add: exact_at_def)
    qed
    then show ?thesis using k(1) ex t cb by (auto simp: own_exact_def cbs_inf_def stream_has_cb_def)
  qed
qed

lemma exact_notify:
  assumes "own_exact (s, ch, w, held)" and "own_inv (s, ch, w, held)"
    and "mm_stream_data_notify e s ch w = Some (s', ch', w')" and "dq_ok e s w" and "mem_ok e"
  shows "own_exact (s', ch', w', \<lambda>i. held i + (queued (ch_cmd_thread ch') i - queued (ch_cmd_thread ch) i))"
proof -
  obtain st where st: "s_buf_status s = Some st" "length st = unat (s_buf_num s)"
    "unat (s_buf_num s) \<le> MM_CAMERA_MAX_NUM_FRAMES"
    using assms(2) by (auto simp: own_inv_def)
  obtain i where i: "i < length st" "in_kernel (st ! i)" "vb_index (e_dqbuf e (w_trace w)) = of_nat i"
    using assms(4) st(1) by (auto simp: dq_ok_def)
  have ex: "cbs_inf s" "stream_has_cb s \<or> s_is_bundled s"
    "\<And>i. i < length st \<Longrightarrow> exact_at s held st i"
    using assms(1) st(1) by (auto simp: own_exact_def)
  have z: "buf_refcnt (st ! i) = 0" "queued (s_cmd_thread s) i = 0" "held i = 0"
    using ex(3) [OF i(1)] i(2) by (auto simp: exact_at_def exact_counts_def unat_eq_0)
  have i128: "i < 128" using i(1) st(2,3) by simp
  note n = notify_status [OF assms(3) st(1) i(3) i128 i(1)]
  have keep: "cbs_inf s'" "stream_has_cb s' = stream_has_cb s" "s_is_bundled s' = s_is_bundled s"
    using n ex(1) by (auto simp: cbs_inf_def stream_has_cb_def)
  consider "s_buf_status s' = Some st" "s_cmd_thread s' = s_cmd_thread s" "ch_cmd_thread ch' = ch_cmd_thread ch"
    | (recv) n where "n = (if s_is_bundled s then 1 else 0) + (if stream_has_cb s then 1 else 0)"
      "s_buf_status s' = Some (recv_status n i st)"
      "\<forall>j. queued (s_cmd_thread s') j = queued (s_cmd_thread s) j + (if stream_has_cb s \<and> j = i then 1 else 0)"
      "\<forall>j. queued (ch_cmd_thread ch') j = queued (ch_cmd_thread ch) j + (if s_is_bundled s \<and> j = i then 1 else 0)"
    using n assms(5) by blast
  then show ?thesis
  proof cases
    case 1
    then show ?thesis using ex keep by (simp add: own_exact_def exact_at_def)
  next
    case recv
    note r = refs_recv_status [OF i(1) z(1)]
    have "exact_at s' (\<lambda>i. held i + (queued (ch_cmd_thread ch') i - queued (ch_cmd_thread ch) i)) (recv_status n i st) j"
      if "j < length st" for j
    proof (cases "j = i")
      case True
      then show ?thesis using recv z r(2,3) ex(2) by (auto simp: exact_at_def exact_counts_def)
    next
      case False
      then show ?thesis using ex(3) [OF that] recv r(1) [OF False] by (simp add: exact_at_def)
    qed
    then show ?thesis using recv ex(2) keep by (auto simp: own_exact_def recv_status_def)
  qed
qed


section \<open>Steps\<close>

lemma exact_step:
  assumes "own_step e x y" and "mem_ok e" and "drv_ok e"
  shows "own_exact x \<and> own_inv x \<Longrightarrow> own_exact y \<and> own_inv y"
  using assms(1)
proof cases
  case notify
  then show "own_exact x \<and> own_inv x \<Longrightarrow> ?thesis"
    using exact_notify assms(2) own_step_inv [OF assms(1)] by blast
next
  case dispatch
  then show "own_exact x \<and> own_inv x \<Longrightarrow> ?thesis"
    using exact_dispatch assms(3) own_step_inv [OF assms(1)] by blast
next
  case return
  then show "own_exact x \<and> own_inv x \<Longrightarrow> ?thesis"
    using exact_return assms(3) own_step_inv [OF assms(1)] by blast
qed

lemma exact_steps:
  "(own_step e)\<^sup>*\<^sup>* x y \<Longrightarrow> mem_ok e \<Longrightarrow> drv_ok e \<Longrightarrow> own_exact x \<Longrightarrow> own_inv x \<Longrightarrow> own_exact y"
proof -
  have "(own_step e)\<^sup>*\<^sup>* x y \<Longrightarrow> mem_ok e \<Longrightarrow> drv_ok e \<Longrightarrow> own_exact x \<and> own_inv x \<Longrightarrow> own_exact y \<and> own_inv y"
    by (induction rule: rtranclp_induct) (use exact_step in blast)+
  then show "(own_step e)\<^sup>*\<^sup>* x y \<Longrightarrow> mem_ok e \<Longrightarrow> drv_ok e \<Longrightarrow> own_exact x \<Longrightarrow> own_inv x \<Longrightarrow> own_exact y"
    by blast
qed

lemma exact_start:
  assumes "stream_wf s0" and "s_state s0 = MM_STREAM_STATE_BUFFED"
    and "mm_stream_fsm_fn e0 MM_STREAM_EVT_REG_BUF s0 ch0 w0 = Some (0, s1, ch1, w1)"
    and "mm_stream_fsm_fn e1 MM_STREAM_EVT_START s1 ch2 w2 = Some (0, s2, ch3, w3)"
    and "stream_has_cb s0 \<or> s_is_bundled s0"
  shows "own_exact (s2, ch3, w3, start_held s2)"
proof -
  note r = registered_start [OF assms(1-4)]
  obtain st where st: "s_buf_status s2 = Some st" "\<forall>i < length st. queued (s_cmd_thread s2) i = 0 \<and>
      (in_kernel (st ! i) \<longrightarrow> buf_refcnt (st ! i) = 0) \<and> (\<not> in_kernel (st ! i) \<longrightarrow> buf_refcnt (st ! i) = 1)"
    using r(2) by blast
  have "exact_at s2 (start_held s2) st i" if "i < length st" for i
    using st(2) [rule_format, OF that] st(1) that
    by (cases "in_kernel (st ! i)") (simp_all add: exact_at_def exact_counts_def start_held_def)
  moreover have "cbs_inf s2" "stream_has_cb s2 = stream_has_cb s0"
    using assms(1) r(3) by (simp_all add: stream_wf_def cbs_inf_def stream_has_cb_def)
  ultimately show ?thesis using st(1) r(4) assms(5) by (simp add: own_exact_def)
qed

text \<open>
  C4. No buffer is lost. Start as before from a registered and started stream, and let somebody
  consume its frames (a callback, or the channel it is bundled in). While queue nodes can be
  allocated, the driver takes every buffer back and the cache operations succeed, the count of a
  buffer is exactly the number of its frames in the command queue plus the references that were
  handed out, and the buffer is with the driver exactly when both are zero: a client that returns
  what it was given always gets the buffer back into circulation.
\<close>

theorem stream_no_buffer_lost:
  assumes "stream_wf s0" and "s_state s0 = MM_STREAM_STATE_BUFFED" and "stream_has_cb s0 \<or> s_is_bundled s0"
    and "mm_stream_fsm_fn e0 MM_STREAM_EVT_REG_BUF s0 ch0 w0 = Some (0, s1, ch1, w1)"
    and "mm_stream_fsm_fn e1 MM_STREAM_EVT_START s1 ch2 w2 = Some (0, s2, ch3, w3)"
    and "mem_ok e" and "drv_ok e"
    and "(own_step e)\<^sup>*\<^sup>* (s2, ch3, w3, start_held s2) (s, ch, w, held)"
    and "s_buf_status s = Some st" and "i < length st"
  shows "unat (buf_refcnt (st ! i)) = queued (s_cmd_thread s) i + held i \<and>
    (in_kernel (st ! i) \<longleftrightarrow> queued (s_cmd_thread s) i = 0 \<and> held i = 0)"
proof -
  have "own_exact (s, ch, w, held)"
    using exact_steps [OF assms(8,6,7)] exact_start [OF assms(1,2,4,5,3)] registered_start(1) [OF assms(1,2,4,5)] by blast
  then show ?thesis using assms(9,10) by (auto simp: own_exact_def exact_at_def exact_counts_def)
qed

theorem stream_no_buffer_lost_witness:
  "\<exists>ch w w' held. (own_step (calm_env 2))\<^sup>*\<^sup>* (start_stream sample_registered, ch, w, start_held (start_stream sample_registered))
     (sample_streaming, ch, w', held) \<and> queued (s_cmd_thread sample_streaming) 0 + held 0 = 1"
proof -
  obtain w1 where r: "mm_stream_fsm_fn (calm_env 2) MM_STREAM_EVT_REG_BUF sample_buffed sample_channel sample_world =
     Some (0, sample_registered, sample_channel, w1)"
    using sample_reg by blast
  obtain ch w w' held where s: "mm_stream_fsm_fn (calm_env 2) MM_STREAM_EVT_START sample_registered sample_channel sample_world =
       Some (0, start_stream sample_registered, ch, w)"
    "(own_step (calm_env 2))\<^sup>*\<^sup>* (start_stream sample_registered, ch, w, start_held (start_stream sample_registered))
       (sample_streaming, ch, w', held)"
    by (rule sample_run)
  have env: "mem_ok (calm_env 2)" "drv_ok (calm_env 2)"
    by (simp_all add: mem_ok_def drv_ok_def calm_env_def calm_rc_def)
  have cb: "stream_has_cb sample_buffed \<or> s_is_bundled sample_buffed"
    by (simp add: stream_has_cb_def sample_buffed_def)
  show ?thesis
    using stream_no_buffer_lost [OF sample_buffed_wf sample_buffed_state cb r s(1) env s(2) sample_streaming_status, of 0] s(2)
    by auto
qed

end
