(* ===== verification/Superbuf.thy ===== *)
theory Superbuf
  imports Stream_Exact
begin

text \<open>
  The superbuffer queue of a channel (\<^verbatim>\<open>mm_camera_channel.c\<close>). A channel with a callback collects the
  frames of its bundled streams: frames with the same number form one superbuffer, which is
  matched once every stream has delivered its frame. Matched superbuffers are handed to the
  client on request or continuously; the others wait, and are given back to the driver when they
  are overtaken or when too many of them wait.

  The queue of nodes is a list here (theory \<^verbatim>\<open>Cam_Queue\<close> shows that the linked list behaves as one).
  A pointer into the list is the position of the node; a position that follows a deleted node
  moves down by one. The data of a node is never NULL: the only function that adds nodes sets it.
\<close>

section \<open>Streams of a channel\<close>

definition mm_channel_util_get_stream_by_handler :: "mm_channel_t \<Rightarrow> uint32_t \<Rightarrow> nat option" where
  "mm_channel_util_get_stream_by_handler ch handler =
     find_idx (\<lambda>s. s_state s \<noteq> MM_STREAM_STATE_NOTUSED \<and> handler = s_my_hdl s) (ch_streams ch)"

text \<open>An event for the stream in a slot of the channel.\<close>

definition stream_evt ::
  "env \<Rightarrow> nat \<Rightarrow> mm_stream_evt_type_t \<Rightarrow> mm_channel_t \<Rightarrow> world \<Rightarrow> (int \<times> mm_channel_t \<times> world) option" where
  "stream_evt e i evt ch w = do {
     s \<leftarrow> nth_opt (ch_streams ch) (int i);
     (rc, s, ch, w) \<leftarrow> mm_stream_fsm_fn e evt s ch w;
     Some (rc, ch\<lparr>ch_streams := (ch_streams ch)[i := s]\<rparr>, w)
   }"

definition mm_channel_qbuf ::
  "env \<Rightarrow> mm_camera_buf_def_t option \<Rightarrow> mm_channel_t \<Rightarrow> world \<Rightarrow> (int \<times> mm_channel_t \<times> world) option" where
  "mm_channel_qbuf e buf ch w = do {
     b \<leftarrow> buf;
     case mm_channel_util_get_stream_by_handler ch (b_stream_id b) of
       None \<Rightarrow> Some (-1, ch, w)
     | Some i \<Rightarrow> stream_evt e i (MM_STREAM_EVT_QBUF (Some b)) ch w
   }"

section \<open>Queue operations\<close>

abbreviation ch_queue :: "mm_channel_t \<Rightarrow> mm_channel_queue_t" where
  "ch_queue ch \<equiv> bd_superbuf_queue (ch_bundle ch)"

definition set_queue :: "mm_channel_queue_t \<Rightarrow> mm_channel_t \<Rightarrow> mm_channel_t" where
  "set_queue q ch = ch\<lparr>ch_bundle := (ch_bundle ch)\<lparr>bd_superbuf_queue := q\<rparr>\<rparr>"

definition mm_channel_util_seq_comp_w_rollover :: "uint32_t \<Rightarrow> uint32_t \<Rightarrow> int" where
  "mm_channel_util_seq_comp_w_rollover v1 v2 = (if v1 > v2 then 1 else if v1 < v2 then -1 else 0)"

definition mm_channel_superbuf_queue_init :: "mm_channel_queue_t \<Rightarrow> mm_channel_queue_t" where
  "mm_channel_superbuf_queue_init q = q\<lparr>q_que := [], q_size := 0\<rparr>"

definition mm_channel_superbuf_queue_deinit :: "mm_channel_queue_t \<Rightarrow> mm_channel_queue_t" where
  "mm_channel_superbuf_queue_deinit q = q\<lparr>q_que := [], q_size := 0\<rparr>"

definition mm_channel_superbuf_dequeue_internal ::
  "bool \<Rightarrow> mm_channel_queue_t \<Rightarrow> mm_channel_queue_node_t option \<times> mm_channel_queue_t" where
  "mm_channel_superbuf_dequeue_internal matched_only q =
     (case q_que q of
        [] \<Rightarrow> (None, q)
      | n # ns \<Rightarrow>
          if matched_only \<and> \<not> qn_matched n then (None, q)
          else (Some n, q\<lparr>q_que := ns, q_size := q_size q - 1,
                  q_match_cnt := (if qn_matched n then q_match_cnt q - 1 else q_match_cnt q)\<rparr>))"

definition mm_channel_superbuf_dequeue ::
  "mm_channel_queue_t \<Rightarrow> mm_channel_queue_node_t option \<times> mm_channel_queue_t" where
  "mm_channel_superbuf_dequeue q = mm_channel_superbuf_dequeue_internal True q"

text \<open>
  The loops that return the buffers of a node differ in the test they make: on the pointer, on
  the frame number, or none. \<open>ret\<close> returns one buffer.
\<close>

definition node_qbuf ::
  "(mm_camera_buf_def_t option \<Rightarrow> 's \<Rightarrow> 's option) \<Rightarrow> (mm_camera_buf_info_t \<Rightarrow> bool) \<Rightarrow>
   mm_channel_queue_node_t \<Rightarrow> 's \<Rightarrow> 's option" where
  "node_qbuf ret test n = foldM (\<lambda>i p. do {
     bi \<leftarrow> nth_opt (qn_super_buf n) (int i);
     if test bi then ret (bi_buf bi) p else Some p
   }) [0..<unat (qn_num_of_bufs n)]"

definition qbuf_ignore ::
  "env \<Rightarrow> mm_camera_buf_def_t option \<Rightarrow> mm_channel_t \<times> world \<Rightarrow> (mm_channel_t \<times> world) option" where
  "qbuf_ignore e buf = (\<lambda>(ch, w). do { (rc, ch, w) \<leftarrow> mm_channel_qbuf e buf ch w; Some (ch, w) })"

partial_function (option) drain_matched ::
  "env \<Rightarrow> uint8_t \<Rightarrow> mm_channel_t \<Rightarrow> world \<Rightarrow> (mm_channel_t \<times> world) option" where
  "drain_matched e limit ch w =
     (if unat (q_match_cnt (ch_queue ch)) \<le> unat limit then Some (ch, w)
      else case mm_channel_superbuf_dequeue_internal True (ch_queue ch) of
          (None, q) \<Rightarrow> drain_matched e limit (set_queue q ch) w
        | (Some n, q) \<Rightarrow> do {
            (ch, w) \<leftarrow> node_qbuf (qbuf_ignore e) (\<lambda>bi. bi_buf bi \<noteq> None) n (set_queue q ch, w);
            drain_matched e limit ch w
          })"

definition mm_channel_superbuf_bufdone_overflow ::
  "env \<Rightarrow> mm_channel_t \<Rightarrow> world \<Rightarrow> (mm_channel_t \<times> world) option" where
  "mm_channel_superbuf_bufdone_overflow e ch w =
     (if at_notify_mode (q_attr (ch_queue ch)) = MM_CAMERA_SUPER_BUF_NOTIFY_CONTINUOUS then Some (ch, w)
      else drain_matched e (water_mark (q_attr (ch_queue ch))) ch w)"

definition mm_channel_superbuf_skip ::
  "env \<Rightarrow> mm_channel_t \<Rightarrow> world \<Rightarrow> (mm_channel_t \<times> world) option" where
  "mm_channel_superbuf_skip e ch w =
     (if at_notify_mode (q_attr (ch_queue ch)) = MM_CAMERA_SUPER_BUF_NOTIFY_CONTINUOUS then Some (ch, w)
      else drain_matched e (look_back (q_attr (ch_queue ch))) ch w)"

partial_function (option) mm_channel_superbuf_flush ::
  "env \<Rightarrow> mm_channel_t \<Rightarrow> world \<Rightarrow> (mm_channel_t \<times> world) option" where
  "mm_channel_superbuf_flush e ch w =
     (case mm_channel_superbuf_dequeue_internal False (ch_queue ch) of
        (None, q) \<Rightarrow> Some (set_queue q ch, w)
      | (Some n, q) \<Rightarrow> do {
          (ch, w) \<leftarrow> node_qbuf (qbuf_ignore e) (\<lambda>bi. bi_buf bi \<noteq> None) n (set_queue q ch, w);
          mm_channel_superbuf_flush e ch w
        })"

section \<open>Metadata\<close>

definition mm_channel_handle_metadata ::
  "env \<Rightarrow> mm_camera_buf_info_t \<Rightarrow> mm_channel_t \<Rightarrow> world \<Rightarrow> (int \<times> mm_channel_t \<times> world) option" where
  "mm_channel_handle_metadata e bi ch w =
     (case mm_channel_util_get_stream_by_handler ch (bi_stream_id bi) of
        None \<Rightarrow> Some (-1, ch, w)
      | Some i \<Rightarrow> (case s_stream_info (ch_streams ch ! i) of
          None \<Rightarrow> Some (-1, ch, w)
        | Some si \<Rightarrow>
            if si_stream_type si = CAM_STREAM_TYPE_METADATA then do {
              b \<leftarrow> bi_buf bi;
              case b_buffer b of
                None \<Rightarrow> Some (-1, ch, w)
              | Some md \<Rightarrow>
                  if is_prep_snapshot_done_valid md \<and> is_good_frame_idx_range_valid md then Some (-1, ch, w)
                  else if is_prep_snapshot_done_valid md then
                    (if prep_snapshot_done_state md = NEED_FUTURE_FRAME then do {
                       let q = ch_queue ch;
                       (ch, w) \<leftarrow> mm_channel_superbuf_flush e
                         (set_queue (q\<lparr>q_expected_frame_id := q_expected_frame_id q + 100\<rparr>) ch) w;
                       Some (0, ch\<lparr>ch_needLEDFlash := True\<rparr>, w)
                     }
                     else Some (0, ch\<lparr>ch_needLEDFlash := False\<rparr>, w))
                  else if is_good_frame_idx_range_valid md then
                    Some (0, set_queue ((ch_queue ch)\<lparr>q_expected_frame_id :=
                      min_frame_idx (good_frame_idx_range md)\<rparr>) ch, w)
                  else Some (0, ch, w)
            }
            else Some (0, ch, w)))"

section \<open>Matching\<close>

text \<open>
  The search through the queue: the position of the unmatched node with the frame number, the
  number of other unmatched nodes seen (it wraps at 256), the first of them with a smaller and
  the first with a larger frame number.
\<close>

fun superbuf_scan ::
  "uint32_t \<Rightarrow> nat \<Rightarrow> mm_channel_queue_node_t list \<Rightarrow> uint8_t \<Rightarrow> nat option \<Rightarrow> nat option \<Rightarrow>
   nat option \<times> uint8_t \<times> nat option \<times> nat option" where
  "superbuf_scan f pos [] unmatched last_buf insert_before = (None, unmatched, last_buf, insert_before)"
| "superbuf_scan f pos (n # ns) unmatched last_buf insert_before =
     (if qn_matched n then superbuf_scan f (Suc pos) ns unmatched last_buf insert_before
      else if f = qn_frame_idx n then (Some pos, unmatched, last_buf, insert_before)
      else superbuf_scan f (Suc pos) ns (unmatched + 1)
             (if last_buf = None \<and> qn_frame_idx n < f then Some pos else last_buf)
             (if insert_before = None \<and> qn_frame_idx n > f then Some pos else insert_before))"

text \<open>Returning the buffers of the node at a position, and removing it.\<close>

definition remove_node :: "env \<Rightarrow> nat \<Rightarrow> mm_channel_t \<times> world \<Rightarrow> (mm_channel_t \<times> world) option" where
  "remove_node e l = (\<lambda>(ch, w). do {
     n \<leftarrow> nth_opt (q_que (ch_queue ch)) (int l);
     (ch, w) \<leftarrow> node_qbuf (qbuf_ignore e) (\<lambda>bi. bi_frame_idx bi \<noteq> 0) n (ch, w);
     let q = ch_queue ch;
     Some (set_queue (q\<lparr>q_que := take l (q_que q) @ drop (Suc l) (q_que q), q_size := q_size q - 1\<rparr>) ch, w)
   })"

definition node_complete :: "mm_channel_queue_node_t \<Rightarrow> bool" where
  "node_complete n \<longleftrightarrow> (\<forall>bi \<in> set (take (unat (qn_num_of_bufs n)) (qn_super_buf n)). bi_frame_idx bi \<noteq> 0)"

definition superbuf_found ::
  "env \<Rightarrow> nat \<Rightarrow> mm_camera_buf_info_t \<Rightarrow> nat \<Rightarrow> nat option \<Rightarrow> mm_channel_t \<Rightarrow> world \<Rightarrow>
   (mm_channel_t \<times> world) option" where
  "superbuf_found e buf_s_idx bi pos last_buf ch w = do {
     let q = ch_queue ch;
     let n = q_que q ! pos;
     let n = n\<lparr>qn_super_buf := (qn_super_buf n)[buf_s_idx := bi]\<rparr>;
     let n = n\<lparr>qn_matched := node_complete n\<rparr>;
     let q = q\<lparr>q_que := (q_que q)[pos := n]\<rparr>;
     if qn_matched n then do {
       let q = q\<lparr>q_expected_frame_id := bi_frame_idx bi + ucast (post_frame_skip (q_attr q)),
                 q_match_cnt := q_match_cnt q + 1\<rparr>;
       case last_buf of
         None \<Rightarrow> Some (set_queue q ch, w)
       | Some l \<Rightarrow> foldM (\<lambda>_. remove_node e l) [l..<pos] (set_queue q ch, w)
     }
     else Some (set_queue q ch, w)
   }"

definition new_queue_node :: "uint8_t \<Rightarrow> nat \<Rightarrow> mm_camera_buf_info_t \<Rightarrow> mm_channel_queue_node_t" where
  "new_queue_node num buf_s_idx bi = \<lparr>qn_num_of_bufs = num,
     qn_super_buf = (replicate MAX_STREAM_NUM_IN_BUNDLE zero_buf_info)[buf_s_idx := bi],
     qn_matched = (num = 1), qn_frame_idx = bi_frame_idx bi\<rparr>"

definition superbuf_insert ::
  "env \<Rightarrow> nat \<Rightarrow> mm_camera_buf_info_t \<Rightarrow> nat option \<Rightarrow> mm_channel_t \<Rightarrow> world \<Rightarrow> (mm_channel_t \<times> world) option" where
  "superbuf_insert e buf_s_idx bi insert_before ch w = do {
     let (new_buf, w) = malloc e w;
     let (new_node, w) = malloc e w;
     if new_buf \<and> new_node then do {
       let q = ch_queue ch;
       let n = new_queue_node (q_num_streams q) buf_s_idx bi;
       let q = q\<lparr>q_que := (case insert_before of
                   Some p \<Rightarrow> take p (q_que q) @ n # drop p (q_que q)
                 | None \<Rightarrow> q_que q @ [n]), q_size := q_size q + 1\<rparr>;
       let q = (if q_num_streams q = 1 then
                  q\<lparr>q_expected_frame_id := bi_frame_idx bi + ucast (post_frame_skip (q_attr q)),
                    q_match_cnt := q_match_cnt q + 1\<rparr>
                else q);
       Some (set_queue q ch, w)
     }
     else qbuf_ignore e (bi_buf bi) (ch, w)
   }"

definition superbuf_not_found ::
  "env \<Rightarrow> nat \<Rightarrow> mm_camera_buf_info_t \<Rightarrow> uint8_t \<Rightarrow> nat option \<Rightarrow> nat option \<Rightarrow> mm_channel_t \<Rightarrow> world \<Rightarrow>
   (mm_channel_t \<times> world) option" where
  "superbuf_not_found e buf_s_idx bi unmatched last_buf insert_before ch w =
     (if max_unmatched_frames (q_attr (ch_queue ch)) < unmatched then
        (case last_buf of
           None \<Rightarrow> qbuf_ignore e (bi_buf bi) (ch, w)
         | Some l \<Rightarrow> do {
             (ch, w) \<leftarrow> remove_node e l (ch, w);
             superbuf_insert e buf_s_idx bi
               (map_option (\<lambda>p. if l < p then p - 1 else p) insert_before) ch w
           })
      else superbuf_insert e buf_s_idx bi insert_before ch w)"

definition mm_channel_superbuf_comp_and_enqueue ::
  "env \<Rightarrow> mm_camera_buf_info_t \<Rightarrow> mm_channel_t \<Rightarrow> world \<Rightarrow> (int \<times> mm_channel_t \<times> world) option" where
  "mm_channel_superbuf_comp_and_enqueue e bi ch w =
     (case find_idx (\<lambda>h. bi_stream_id bi = h) (take (unat (q_num_streams (ch_queue ch))) (q_bundled_streams (ch_queue ch))) of
        None \<Rightarrow> Some (-1, ch, w)
      | Some buf_s_idx \<Rightarrow> do {
          (rc, ch, w) \<leftarrow> mm_channel_handle_metadata e bi ch w;
          if rc < 0 then Some (-1, ch, w)
          else if mm_channel_util_seq_comp_w_rollover (bi_frame_idx bi) (q_expected_frame_id (ch_queue ch)) < 0 then do {
            (ch, w) \<leftarrow> qbuf_ignore e (bi_buf bi) (ch, w);
            Some (0, ch, w)
          }
          else (case superbuf_scan (bi_frame_idx bi) 0 (q_que (ch_queue ch)) 0 None None of
              (Some pos, unmatched, last_buf, insert_before) \<Rightarrow> do {
                (ch, w) \<leftarrow> superbuf_found e buf_s_idx bi pos last_buf ch w;
                Some (0, ch, w)
              }
            | (None, unmatched, last_buf, insert_before) \<Rightarrow> do {
                (ch, w) \<leftarrow> superbuf_not_found e buf_s_idx bi unmatched last_buf insert_before ch w;
                Some (0, ch, w)
              })
        })"

section \<open>The command thread of a channel\<close>

definition mm_camera_start_zsl_snapshot :: "env \<Rightarrow> cam_obj_ref \<Rightarrow> world \<Rightarrow> int \<times> world" where
  "mm_camera_start_zsl_snapshot e cam w = mm_camera_util_s_ctrl e (co_ctrl_fd cam) CAM_PRIV_START_ZSL_SNAPSHOT w"

definition mm_camera_stop_zsl_snapshot :: "env \<Rightarrow> cam_obj_ref \<Rightarrow> world \<Rightarrow> int \<times> world" where
  "mm_camera_stop_zsl_snapshot e cam w = mm_camera_util_s_ctrl e (co_ctrl_fd cam) CAM_PRIV_STOP_ZSL_SNAPSHOT w"

definition mm_channel_dispatch_super_buf :: "env \<Rightarrow> mm_camera_cmdcb_t \<Rightarrow> mm_channel_t \<Rightarrow> world \<Rightarrow> world" where
  "mm_channel_dispatch_super_buf e cmd ch w =
     (case cmd of
        MM_CAMERA_CMD_TYPE_SUPER_BUF_DATA_CB sb \<Rightarrow>
          (case bd_super_buf_notify_cb (ch_bundle ch) of
             None \<Rightarrow> w
           | Some f \<Rightarrow> snd (sys e (Cb_buf_notify f (bd_user_data (ch_bundle ch)) sb) w))
      | _ \<Rightarrow> w)"

text \<open>Handing one matched superbuffer to the callback thread, or its buffers back.\<close>

definition node_superbuf :: "uint32_t \<Rightarrow> uint32_t \<Rightarrow> mm_channel_queue_node_t \<Rightarrow> mm_camera_super_buf_t" where
  "node_superbuf cam_hdl ch_hdl n = \<lparr>sb_camera_handle = cam_hdl, sb_ch_id = ch_hdl, sb_num_bufs = qn_num_of_bufs n,
     sb_bufs = map bi_buf (take (unat (qn_num_of_bufs n)) (qn_super_buf n))\<rparr>"

definition deliver_node ::
  "env \<Rightarrow> mm_channel_queue_node_t \<Rightarrow> mm_channel_t \<Rightarrow> world \<Rightarrow> (mm_channel_t \<times> world) option" where
  "deliver_node e n ch w =
     (if bd_super_buf_notify_cb (ch_bundle ch) \<noteq> None then do {
        let (cb_node, w) = malloc e w;
        if cb_node then do {
          cam \<leftarrow> ch_cam_obj ch;
          (t, w) \<leftarrow> cmd_thread_post e
                (MM_CAMERA_CMD_TYPE_SUPER_BUF_DATA_CB (node_superbuf (co_my_hdl cam) (ch_my_hdl ch) n)) (ch_cb_thread ch) w;
          Some (ch\<lparr>ch_cb_thread := t\<rparr>, w)
        }
        else node_qbuf (qbuf_ignore e) (\<lambda>_. True) n (ch, w)
      }
      else node_qbuf (qbuf_ignore e) (\<lambda>_. True) n (ch, w))"

text \<open>The part of a round that counts down the request.\<close>

definition count_pending ::
  "env \<Rightarrow> mm_camera_super_buf_notify_mode_t \<Rightarrow> mm_channel_t \<Rightarrow> world \<Rightarrow> (mm_channel_t \<times> world) option" where
  "count_pending e mode ch w =
     (if mode = MM_CAMERA_SUPER_BUF_NOTIFY_BURST then do {
        let ch = ch\<lparr>ch_pending_cnt := ch_pending_cnt ch - 1\<rparr>;
        if ch_pending_cnt ch = 0 \<and> ch_startZSlSnapshotCalled ch then do {
          cam \<leftarrow> ch_cam_obj ch;
          Some (ch\<lparr>ch_startZSlSnapshotCalled := False\<rparr>, snd (mm_camera_stop_zsl_snapshot e cam w))
        }
        else Some (ch, w)
      }
      else Some (ch, w))"

partial_function (option) notify_loop ::
  "env \<Rightarrow> mm_camera_super_buf_notify_mode_t \<Rightarrow> mm_channel_t \<Rightarrow> world \<Rightarrow> (mm_channel_t \<times> world) option" where
  "notify_loop e mode ch w =
     (if ch_pending_cnt ch > 0 \<or> mode = MM_CAMERA_SUPER_BUF_NOTIFY_CONTINUOUS then
        (case mm_channel_superbuf_dequeue (ch_queue ch) of
           (None, q) \<Rightarrow> Some (set_queue q ch, w)
         | (Some n, q) \<Rightarrow> do {
             (ch, w) \<leftarrow> count_pending e mode (set_queue q ch) w;
             (ch, w) \<leftarrow> deliver_node e n ch w;
             notify_loop e mode ch w
           })
      else Some (ch, w))"

declare drain_matched.simps [code] and mm_channel_superbuf_flush.simps [code] and notify_loop.simps [code]

text \<open>A request for superbuffers (0 cancels a request).\<close>

definition request_cmd :: "env \<Rightarrow> uint32_t \<Rightarrow> mm_channel_t \<Rightarrow> world \<Rightarrow> (mm_channel_t \<times> world) option" where
  "request_cmd e n ch w = do {
     (ch, w) \<leftarrow> mm_channel_superbuf_skip e (ch\<lparr>ch_pending_cnt := n\<rparr>) w;
     if ch_pending_cnt ch > 0 \<and> ch_needLEDFlash ch then do {
       cam \<leftarrow> ch_cam_obj ch;
       Some (ch\<lparr>ch_startZSlSnapshotCalled := True, ch_needLEDFlash := False\<rparr>,
         snd (mm_camera_start_zsl_snapshot e cam w))
     }
     else if ch_pending_cnt ch = 0 \<and> ch_startZSlSnapshotCalled ch then do {
       cam \<leftarrow> ch_cam_obj ch;
       Some (ch\<lparr>ch_startZSlSnapshotCalled := False, ch_needLEDFlash := False\<rparr>,
         snd (mm_camera_stop_zsl_snapshot e cam w))
     }
     else Some (ch, w)
   }"

definition overflow_and_notify :: "env \<Rightarrow> mm_channel_t \<Rightarrow> world \<Rightarrow> (mm_channel_t \<times> world) option" where
  "overflow_and_notify e ch w = do {
     let mode = at_notify_mode (q_attr (ch_queue ch));
     (ch, w) \<leftarrow> mm_channel_superbuf_bufdone_overflow e ch w;
     notify_loop e mode ch w
   }"

definition mm_channel_process_stream_buf ::
  "env \<Rightarrow> mm_camera_cmdcb_t \<Rightarrow> mm_channel_t \<times> world \<Rightarrow> (mm_channel_t \<times> world) option" where
  "mm_channel_process_stream_buf e cmd = (\<lambda>(ch, w).
     case cmd of
       MM_CAMERA_CMD_TYPE_DATA_CB bi \<Rightarrow> do {
         (rc, ch, w) \<leftarrow> mm_channel_superbuf_comp_and_enqueue e bi ch w;
         overflow_and_notify e ch w
       }
     | MM_CAMERA_CMD_TYPE_REQ_DATA_CB n \<Rightarrow> do {
         (ch, w) \<leftarrow> request_cmd e n ch w;
         overflow_and_notify e ch w
       }
     | MM_CAMERA_CMD_TYPE_CONFIG_NOTIFY mode \<Rightarrow>
         (let q = ch_queue ch
          in overflow_and_notify e (set_queue (q\<lparr>q_attr := (q_attr q)\<lparr>at_notify_mode := mode\<rparr>\<rparr>) ch) w)
     | MM_CAMERA_CMD_TYPE_FLUSH_QUEUE f \<Rightarrow>
         mm_channel_superbuf_flush e (set_queue ((ch_queue ch)\<lparr>q_expected_frame_id := f\<rparr>) ch) w
     | _ \<Rightarrow> overflow_and_notify e ch w)"

end
