(* ===== verification/Superbuf_Inv.thy ===== *)
theory Superbuf_Inv
  imports Superbuf
begin

text \<open>
  The queue keeps its shape: matched superbuffers first, then the unmatched ones in strictly
  increasing order of frame numbers, every node holding frames of one number only. From this
  follows that every command of the channel thread returns.
\<close>

section \<open>Returning buffers\<close>

text \<open>A component that takes buffers back: which states can take a buffer, and what taking a sequence of them does.\<close>

locale buf_return =
  fixes ret :: "mm_camera_buf_def_t option \<Rightarrow> 's \<Rightarrow> 's option"
    and fits :: "'s \<Rightarrow> mm_camera_buf_def_t \<Rightarrow> bool"
    and rel :: "mm_camera_buf_def_t list \<Rightarrow> 's \<Rightarrow> 's \<Rightarrow> bool"
  assumes ret_runs: "fits s b \<Longrightarrow> runs (ret (Some b) s) (rel [b] s)"
    and rel_Nil: "rel [] s s"
    and rel_append: "rel bs s s' \<Longrightarrow> rel cs s' s'' \<Longrightarrow> rel (bs @ cs) s s''"
    and rel_fits: "rel bs s s' \<Longrightarrow> fits s b \<Longrightarrow> fits s' b"
begin

lemma infos_runs:
  assumes "\<And>bi. bi \<in> set bis \<Longrightarrow> test bi \<Longrightarrow> \<exists>b. bi_buf bi = Some b \<and> fits s b"
  shows "runs (foldM (\<lambda>bi p. if test bi then ret (bi_buf bi) p else Some p) bis s)
    (rel (List.map_filter bi_buf (filter test bis)) s)"
  using assms
proof (induction bis arbitrary: s)
  case Nil
  then show ?case by (simp add: rel_Nil map_filter_simps)
next
  case (Cons bi bis)
  show ?case
  proof (cases "test bi")
    case False
    then show ?thesis using Cons by simp
  next
    case True
    then obtain b where b: "bi_buf bi = Some b" "fits s b" using Cons.prems by force
    have "runs (foldM (\<lambda>bi p. if test bi then ret (bi_buf bi) p else Some p) bis s')
        (rel (List.map_filter bi_buf (filter test (bi # bis))) s)" if "rel [b] s s'" for s'
    proof (rule runs_mono [OF Cons.IH])
      show "\<exists>b. bi_buf bi = Some b \<and> fits s' b" if "bi \<in> set bis" "test bi" for bi
        using Cons.prems [of bi] that rel_fits [OF \<open>rel [b] s s'\<close>] by auto
      show "rel (List.map_filter bi_buf (filter test (bi # bis))) s s''"
        if "rel (List.map_filter bi_buf (filter test bis)) s' s''" for s''
        using rel_append [OF \<open>rel [b] s s'\<close> that] True b(1) by (simp add: map_filter_simps)
    qed
    then show ?thesis using True b by (auto intro: runs_mono [OF ret_runs])
  qed
qed

lemma foldM_take:
  "k \<le> length xs \<Longrightarrow> foldM (\<lambda>i p. do { x \<leftarrow> nth_opt xs (int i); f x p }) [0..<k] s = foldM f (take k xs) s"
proof (induction k arbitrary: s)
  case (Suc k)
  then show ?case by (simp add: foldM_append take_Suc_conv_app_nth cong: Option.bind_cong)
qed simp

lemma node_qbuf_runs:
  assumes "unat (qn_num_of_bufs n) \<le> length (qn_super_buf n)"
    and "\<And>bi. bi \<in> set (take (unat (qn_num_of_bufs n)) (qn_super_buf n)) \<Longrightarrow> test bi \<Longrightarrow> \<exists>b. bi_buf bi = Some b \<and> fits s b"
  shows "runs (node_qbuf ret test n s)
    (rel (List.map_filter bi_buf (filter test (take (unat (qn_num_of_bufs n)) (qn_super_buf n)))) s)"
  unfolding node_qbuf_def foldM_take [OF assms(1)] by (rule infos_runs) (rule assms(2))

end

text \<open>
  The channel returns a buffer through the event QBUF of its stream. \<open>returned e bs ss ss'\<close>: the
  streams \<open>ss'\<close> result from \<open>ss\<close> by returning the buffers \<open>bs\<close>, in this order.
\<close>

inductive returned :: "env \<Rightarrow> mm_camera_buf_def_t list \<Rightarrow> mm_stream_t list \<Rightarrow> mm_stream_t list \<Rightarrow> bool" for e where
  Nil: "returned e [] ss ss"
| Cons: "mm_channel_qbuf e (Some b) ch w = Some (rc, ch', w') \<Longrightarrow> ch_streams ch = ss \<Longrightarrow>
    returned e bs (ch_streams ch') ss' \<Longrightarrow> returned e (b # bs) ss ss'"

definition buf_fits :: "mm_stream_t list \<Rightarrow> mm_camera_buf_def_t \<Rightarrow> bool" where
  "buf_fits ss b \<longleftrightarrow> (\<forall>s \<in> set ss. s_state s = MM_STREAM_STATE_ACTIVE \<and> s_my_hdl s = b_stream_id b \<longrightarrow>
     (\<exists>st. s_buf_status s = Some st \<and> idx_ok (length st) b))"

text \<open>Returning a buffer changes the counts of one stream and nothing else.\<close>

definition counts_only :: "mm_stream_t \<Rightarrow> mm_stream_t \<Rightarrow> bool" where
  "counts_only s s' \<longleftrightarrow> (\<exists>st'. s' = s\<lparr>s_buf_status := st'\<rparr> \<and> map_option length st' = map_option length (s_buf_status s))"

lemma counts_only_refl [simp]: "counts_only s s"
  by (auto simp: counts_only_def intro: exI [of _ "s_buf_status s"])

lemma counts_only_trans: "counts_only s s' \<Longrightarrow> counts_only s' s'' \<Longrightarrow> counts_only s s''"
  by (auto simp: counts_only_def)

lemma fsm_qbuf_Some:
  assumes "mm_stream_fsm_fn e (MM_STREAM_EVT_QBUF (Some b)) s ch w = Some (rc, s', ch', w')"
  shows "ch' = ch" and "counts_only s s'"
proof -
  have "ch' = ch \<and> counts_only s s'"
  proof (cases "s_state s = MM_STREAM_STATE_ACTIVE")
    case True
    then obtain "ch' = ch" "mm_stream_buf_done e s b w = Some (rc, s', w')"
      using assms by (auto simp: mm_stream_fsm_fn_def mm_stream_fsm_active_def Some_simps)
    moreover from this obtain st where "s_buf_status s = Some st"
      by (auto simp: mm_stream_buf_done_def Some_simps)
    ultimately show ?thesis using buf_done_status(3) by (fastforce simp: counts_only_def)
  next
    case False
    then show ?thesis
      using assms by (cases "s_state s") (simp_all add: stream_fsm_defs)
  qed
  then show "ch' = ch" and "counts_only s s'" by auto
qed

lemma streams_upd_inject [simp]: "ch\<lparr>ch_streams := a\<rparr> = ch\<lparr>ch_streams := b\<rparr> \<longleftrightarrow> a = b"
  by (cases ch) simp

lemma get_stream_SomeD:
  assumes "mm_channel_util_get_stream_by_handler ch h = Some i"
  shows "i < length (ch_streams ch)" and "s_my_hdl (ch_streams ch ! i) = h"
    and "s_state (ch_streams ch ! i) \<noteq> MM_STREAM_STATE_NOTUSED"
  using find_idxD [OF assms [unfolded mm_channel_util_get_stream_by_handler_def]] by auto

lemma qbuf_Some:
  assumes "mm_channel_qbuf e (Some b) ch w = Some (rc, ch', w')"
  shows "\<exists>ss. ch' = ch\<lparr>ch_streams := ss\<rparr> \<and> list_all2 counts_only (ch_streams ch) ss"
proof (cases "mm_channel_util_get_stream_by_handler ch (b_stream_id b)")
  case None
  then show ?thesis
    using assms by (auto simp: mm_channel_qbuf_def list_all2_refl intro: exI [of _ "ch_streams ch"])
next
  case (Some i)
  then obtain s' where "mm_stream_fsm_fn e (MM_STREAM_EVT_QBUF (Some b)) (ch_streams ch ! i) ch w = Some (rc, s', ch, w')"
    "ch' = ch\<lparr>ch_streams := (ch_streams ch)[i := s']\<rparr>"
    using assms by (auto simp: mm_channel_qbuf_def stream_evt_def Some_simps dest: fsm_qbuf_Some(1))
  then show ?thesis
    using get_stream_SomeD(1) [OF Some] by (auto dest: fsm_qbuf_Some(2) simp: list_all2_conv_all_nth nth_list_update)
qed

lemma list_all2_counts_trans:
  "list_all2 counts_only xs ys \<Longrightarrow> list_all2 counts_only ys zs \<Longrightarrow> list_all2 counts_only xs zs"
  by (rule list_all2_trans [of counts_only counts_only]) (auto intro: counts_only_trans)

lemma returned_counts: "returned e bs ss ss' \<Longrightarrow> list_all2 counts_only ss ss'"
proof (induction rule: returned.induct)
  case (Cons b ch w rc ch' w' ss bs ss')
  then show ?case using qbuf_Some [OF Cons.hyps(1)] by (auto intro: list_all2_counts_trans)
qed (simp add: list_all2_refl)

lemma returned_append: "returned e bs ss ss' \<Longrightarrow> returned e cs ss' ss'' \<Longrightarrow> returned e (bs @ cs) ss ss''"
  by (induction rule: returned.induct) (auto intro: returned.intros)

lemma counts_fits:
  assumes "list_all2 counts_only ss ss'" and "buf_fits ss b"
  shows "buf_fits ss' b"
  unfolding buf_fits_def
proof (intro ballI impI, elim conjE)
  fix s' assume s': "s' \<in> set ss'" "s_state s' = MM_STREAM_STATE_ACTIVE" "s_my_hdl s' = b_stream_id b"
  then obtain s where s: "s \<in> set ss" "counts_only s s'"
    using assms(1) by (metis in_set_conv_nth list_all2_conv_all_nth)
  then have "s_state s = MM_STREAM_STATE_ACTIVE" "s_my_hdl s = b_stream_id b" using s' by (auto simp: counts_only_def)
  then obtain st where "s_buf_status s = Some st" "idx_ok (length st) b"
    using assms(2) s(1) by (auto simp: buf_fits_def)
  then show "\<exists>st. s_buf_status s' = Some st \<and> idx_ok (length st) b"
    using s(2) by (auto simp: counts_only_def)
qed

lemma qbuf_runs:
  assumes "buf_fits (ch_streams ch) b"
  shows "runs (mm_channel_qbuf e (Some b) ch w) (\<lambda>_. True)"
proof (cases "mm_channel_util_get_stream_by_handler ch (b_stream_id b)")
  case None
  then show ?thesis by (simp add: mm_channel_qbuf_def)
next
  case (Some i)
  then have i: "i < length (ch_streams ch)" "s_my_hdl (ch_streams ch ! i) = b_stream_id b"
    by (auto dest: get_stream_SomeD)
  let ?s = "ch_streams ch ! i"
  have "runs (mm_stream_fsm_fn e (MM_STREAM_EVT_QBUF (Some b)) ?s ch w) (\<lambda>_. True)"
  proof (cases "s_state ?s = MM_STREAM_STATE_ACTIVE")
    case True
    then obtain st where "s_buf_status ?s = Some st" "idx_ok (length st) b"
      using assms i by (auto simp: buf_fits_def)
    then show ?thesis
      using True by (auto simp: mm_stream_fsm_fn_def mm_stream_fsm_active_def mm_stream_buf_done_def idx_ok_def
          Let_def split_beta)
  next
    case False
    then show ?thesis by (cases "s_state ?s") (simp_all add: stream_fsm_defs)
  qed
  then show ?thesis using Some i by (auto simp: mm_channel_qbuf_def stream_evt_def elim!: runs_mono)
qed

text \<open>A step of the channel that only returns buffers.\<close>

definition ch_returned :: "env \<Rightarrow> mm_camera_buf_def_t list \<Rightarrow> mm_channel_t \<times> world \<Rightarrow> mm_channel_t \<times> world \<Rightarrow> bool" where
  "ch_returned e bs p p' \<longleftrightarrow> (\<exists>ss. fst p' = (fst p)\<lparr>ch_streams := ss\<rparr> \<and> returned e bs (ch_streams (fst p)) ss)"

lemma qbuf_ignore_runs:
  assumes "buf_fits (ch_streams (fst p)) b"
  shows "runs (qbuf_ignore e (Some b) p) (ch_returned e [b] p)"
proof -
  obtain rc ch' w' where q: "mm_channel_qbuf e (Some b) (fst p) (snd p) = Some (rc, ch', w')"
    using qbuf_runs [OF assms, of e "snd p"] by (auto simp: runs_iff)
  obtain ss where "ch' = (fst p)\<lparr>ch_streams := ss\<rparr>" using qbuf_Some [OF q] by blast
  moreover have "returned e [b] (ch_streams (fst p)) (ch_streams ch')"
    by (rule returned.Cons [OF q refl returned.Nil])
  ultimately have "ch_returned e [b] p (ch', w')" by (simp add: ch_returned_def)
  then show ?thesis using q by (simp add: qbuf_ignore_def split_beta)
qed

interpretation cr: buf_return "qbuf_ignore e" "\<lambda>p. buf_fits (ch_streams (fst p))" "ch_returned e" for e
proof
  fix p b
  show "buf_fits (ch_streams (fst p)) b \<Longrightarrow> runs (qbuf_ignore e (Some b) p) (ch_returned e [b] p)"
    by (rule qbuf_ignore_runs)
next
  fix bs cs p p' p''
  assume "ch_returned e bs p p'" and "ch_returned e cs p' p''"
  then show "ch_returned e (bs @ cs) p p''"
    by (auto simp: ch_returned_def intro: returned_append)
next
  fix bs b p p'
  assume "ch_returned e bs p p'" and "buf_fits (ch_streams (fst p)) b"
  then show "buf_fits (ch_streams (fst p')) b"
    by (auto simp: ch_returned_def dest: counts_fits [OF returned_counts])
next
  fix p :: "mm_channel_t \<times> world"
  show "ch_returned e [] p p"
    unfolding ch_returned_def by (rule exI [of _ "ch_streams (fst p)"]) (simp add: returned.Nil)
qed


section \<open>The shape of the queue\<close>

definition slot_ok :: "uint32_t list \<Rightarrow> uint32_t \<Rightarrow> nat \<Rightarrow> mm_camera_buf_info_t \<Rightarrow> bool" where
  "slot_ok hs f i bi \<longleftrightarrow> bi = zero_buf_info \<or> (bi_frame_idx bi = f \<and> bi_stream_id bi = hs ! i \<and>
     (\<exists>b. bi_buf bi = Some b \<and> b_stream_id b = hs ! i \<and> b_frame_idx b = f))"

definition node_ok :: "uint8_t \<Rightarrow> uint32_t list \<Rightarrow> mm_channel_queue_node_t \<Rightarrow> bool" where
  "node_ok k hs n \<longleftrightarrow> qn_num_of_bufs n = k \<and> length (qn_super_buf n) = MAX_STREAM_NUM_IN_BUNDLE \<and>
     (\<forall>i < unat k. slot_ok hs (qn_frame_idx n) i (qn_super_buf n ! i)) \<and>
     (qn_matched n \<longrightarrow> (\<forall>i < unat k. bi_buf (qn_super_buf n ! i) \<noteq> None))"

definition queue_shape :: "mm_channel_queue_node_t list \<Rightarrow> bool" where
  "queue_shape ns \<longleftrightarrow> (\<exists>ms us. ns = ms @ us \<and> (\<forall>n \<in> set ms. qn_matched n) \<and> (\<forall>n \<in> set us. \<not> qn_matched n) \<and>
     sorted_wrt (\<lambda>a b. qn_frame_idx a < qn_frame_idx b) us)"

definition queue_ok :: "mm_channel_queue_t \<Rightarrow> bool" where
  "queue_ok q \<longleftrightarrow> unat (q_num_streams q) \<le> MAX_STREAM_NUM_IN_BUNDLE \<and>
     length (q_bundled_streams q) = MAX_STREAM_NUM_IN_BUNDLE \<and> queue_shape (q_que q) \<and>
     (\<forall>n \<in> set (q_que q). node_ok (q_num_streams q) (q_bundled_streams q) n \<and> (q_num_streams q = 1 \<longrightarrow> qn_matched n)) \<and>
     unat (q_match_cnt q) = length (filter qn_matched (q_que q)) \<and> q_size q = of_nat (length (q_que q))"

definition node_bufs :: "mm_channel_queue_node_t \<Rightarrow> mm_camera_buf_def_t list" where
  "node_bufs n = List.map_filter bi_buf (take (unat (qn_num_of_bufs n)) (qn_super_buf n))"

definition queue_bufs :: "mm_channel_queue_t \<Rightarrow> mm_camera_buf_def_t list" where
  "queue_bufs q = concat (map node_bufs (q_que q))"

definition bufs_fit :: "mm_channel_t \<Rightarrow> bool" where
  "bufs_fit ch \<longleftrightarrow> (\<forall>b \<in> set (queue_bufs (ch_queue ch)). buf_fits (ch_streams ch) b)"

lemma set_queue_simps [simp]:
  "ch_bundle (set_queue q ch) = (ch_bundle ch)\<lparr>bd_superbuf_queue := q\<rparr>"
  "set_queue q (set_queue q' ch) = set_queue q ch" "set_queue (ch_queue ch) ch = ch"
  "ch_streams (set_queue q ch) = ch_streams ch" "ch_pending_cnt (set_queue q ch) = ch_pending_cnt ch"
  "ch_cam_obj (set_queue q ch) = ch_cam_obj ch" "ch_cb_thread (set_queue q ch) = ch_cb_thread ch"
  "ch_cmd_thread (set_queue q ch) = ch_cmd_thread ch" "ch_my_hdl (set_queue q ch) = ch_my_hdl ch"
  "ch_startZSlSnapshotCalled (set_queue q ch) = ch_startZSlSnapshotCalled ch"
  "ch_needLEDFlash (set_queue q ch) = ch_needLEDFlash ch" "ch_poll_thread (set_queue q ch) = ch_poll_thread ch"
  "ch_state (set_queue q ch) = ch_state ch"
  "(set_queue q ch)\<lparr>ch_streams := ss\<rparr> = set_queue q (ch\<lparr>ch_streams := ss\<rparr>)"
  by (cases ch; cases "ch_bundle ch"; simp add: set_queue_def)+

lemma set_queue_inject [simp]:
  "set_queue q (ch\<lparr>ch_streams := a\<rparr>) = set_queue q' (ch\<lparr>ch_streams := b\<rparr>) \<longleftrightarrow> q = q' \<and> a = b"
  by (cases ch; cases "ch_bundle ch"; simp add: set_queue_def)

subsection \<open>Dropping nodes from the front\<close>

definition queue_drop :: "nat \<Rightarrow> mm_channel_queue_t \<Rightarrow> mm_channel_queue_t" where
  "queue_drop k q = q\<lparr>q_que := drop k (q_que q), q_size := q_size q - of_nat k,
     q_match_cnt := q_match_cnt q - of_nat (length (filter qn_matched (take k (q_que q))))\<rparr>"

lemma queue_drop_simps [simp]:
  "queue_drop 0 q = q" "q_que (queue_drop k q) = drop k (q_que q)" "q_attr (queue_drop k q) = q_attr q"
  "q_num_streams (queue_drop k q) = q_num_streams q" "q_bundled_streams (queue_drop k q) = q_bundled_streams q"
  "q_expected_frame_id (queue_drop k q) = q_expected_frame_id q"
  by (simp_all add: queue_drop_def)

lemma queue_drop_Suc: "q_que q = n # ns \<Longrightarrow> queue_drop k (queue_drop 1 q) = queue_drop (Suc k) q"
  by (simp add: queue_drop_def)

lemma dequeue_Cons:
  "q_que q = n # ns \<Longrightarrow> b \<longrightarrow> qn_matched n \<Longrightarrow> mm_channel_superbuf_dequeue_internal b q = (Some n, queue_drop 1 q)"
  by (auto simp: mm_channel_superbuf_dequeue_internal_def queue_drop_def)

lemma queue_shape_drop: "queue_shape ns \<Longrightarrow> queue_shape (drop k ns)"
  unfolding queue_shape_def
proof (elim exE conjE)
  fix ms us assume "ns = ms @ us" "\<forall>n \<in> set ms. qn_matched n" "\<forall>n \<in> set us. \<not> qn_matched n"
    "sorted_wrt (\<lambda>a b. qn_frame_idx a < qn_frame_idx b) us"
  then show "\<exists>ms us. drop k ns = ms @ us \<and> (\<forall>n\<in>set ms. qn_matched n) \<and> (\<forall>n\<in>set us. \<not> qn_matched n) \<and>
      sorted_wrt (\<lambda>a b. qn_frame_idx a < qn_frame_idx b) us"
    by (intro exI [of _ "drop k ms"] exI [of _ "drop (k - length ms) us"])
      (auto simp: sorted_wrt_drop dest: in_set_dropD)
qed

lemma length_filter_take_drop: "length (filter P (take k xs)) + length (filter P (drop k xs)) = length (filter P xs)"
  by (metis append_take_drop_id filter_append length_append)

lemma queue_ok_drop:
  assumes "queue_ok q" and "k \<le> length (q_que q)"
  shows "queue_ok (queue_drop k q)"
proof -
  let ?a = "length (filter qn_matched (take k (q_que q)))" and ?b = "length (filter qn_matched (drop k (q_que q)))"
  have m: "unat (q_match_cnt q) = ?a + ?b"
    using assms(1) by (simp add: queue_ok_def length_filter_take_drop)
  then have "unat (q_match_cnt q - of_nat ?a) = ?b"
    using unat_lt_2p [of "q_match_cnt q"] by (subst unat_sub) (auto simp: word_le_nat_alt unat_of_nat)
  moreover have "q_size q - of_nat k = of_nat (length (q_que q) - k)"
    using assms by (simp add: queue_ok_def of_nat_diff)
  ultimately show ?thesis
    using assms(1) by (auto simp: queue_ok_def queue_drop_def intro: queue_shape_drop dest: in_set_dropD)
qed

lemma queue_bufs_drop: "queue_bufs q = concat (map node_bufs (take k (q_que q))) @ queue_bufs (queue_drop k q)"
  by (simp add: queue_bufs_def flip: concat_append map_append)

lemma queue_ok_head:
  assumes "queue_ok q" and "q_match_cnt q \<noteq> 0"
  obtains n ns where "q_que q = n # ns" and "qn_matched n"
proof -
  obtain ms us where s: "q_que q = ms @ us" "\<forall>n \<in> set ms. qn_matched n" "\<forall>n \<in> set us. \<not> qn_matched n"
    using assms(1) by (auto simp: queue_ok_def queue_shape_def)
  have "filter qn_matched us = []" using s(3) by (simp add: filter_empty_conv)
  moreover have "filter qn_matched (q_que q) \<noteq> []"
    using assms(1) assms(2) [unfolded word_neq_0_unat] by (auto simp: queue_ok_def)
  ultimately have "ms \<noteq> []" using s(1) by auto
  then show ?thesis using s that by (cases ms) auto
qed

lemma node_return_runs:
  assumes "node_ok k hs n" and "unat k \<le> MAX_STREAM_NUM_IN_BUNDLE"
    and "\<And>b. b \<in> set (node_bufs n) \<Longrightarrow> buf_fits (ch_streams ch) b"
  shows "runs (node_qbuf (qbuf_ignore e) (\<lambda>bi. bi_buf bi \<noteq> None) n (ch, w)) (ch_returned e (node_bufs n) (ch, w))"
proof -
  let ?bis = "take (unat (qn_num_of_bufs n)) (qn_super_buf n)"
  have "List.map_filter bi_buf (filter (\<lambda>bi. bi_buf bi \<noteq> None) ?bis) = node_bufs n"
    unfolding node_bufs_def by (induction ?bis) (auto simp: List.map_filter_def)
  moreover have "\<exists>b. bi_buf bi = Some b \<and> buf_fits (ch_streams ch) b" if "bi \<in> set ?bis" "bi_buf bi \<noteq> None" for bi
    using assms(3) that by (force simp: node_bufs_def List.map_filter_def)
  ultimately show ?thesis
    using cr.node_qbuf_runs [of n "\<lambda>bi. bi_buf bi \<noteq> None" "(ch, w)" e] assms(1,2) by (simp add: node_ok_def)
qed


text \<open>The first \<open>k\<close> superbuffers are taken out and their buffers returned, in order.\<close>

definition dropped :: "env \<Rightarrow> nat \<Rightarrow> mm_channel_t \<Rightarrow> mm_channel_t \<Rightarrow> bool" where
  "dropped e k ch ch' \<longleftrightarrow> k \<le> length (q_que (ch_queue ch)) \<and>
     (\<exists>ss. ch' = set_queue (queue_drop k (ch_queue ch)) (ch\<lparr>ch_streams := ss\<rparr>) \<and>
        returned e (concat (map node_bufs (take k (q_que (ch_queue ch))))) (ch_streams ch) ss)"

lemma dropped_0: "dropped e 0 ch ch"
  unfolding dropped_def by (rule conjI [OF _ exI [of _ "ch_streams ch"]]) (simp_all add: returned.Nil)

lemma dropped_Suc:
  assumes "q_que (ch_queue ch) = n # ns" and "ch_returned e (node_bufs n) (set_queue (queue_drop 1 (ch_queue ch)) ch, w) (ch1, w1)"
    and "dropped e k ch1 ch'"
  shows "dropped e (Suc k) ch ch'"
proof -
  obtain ss where ss: "ch1 = set_queue (queue_drop 1 (ch_queue ch)) (ch\<lparr>ch_streams := ss\<rparr>)"
    "returned e (node_bufs n) (ch_streams ch) ss"
    using assms(2) by (auto simp: ch_returned_def)
  then obtain ss' where "k \<le> length ns" "ch' = set_queue (queue_drop k (queue_drop 1 (ch_queue ch))) (ch\<lparr>ch_streams := ss'\<rparr>)"
    "returned e (concat (map node_bufs (take k ns))) ss ss'"
    using assms(1,3) by (auto simp: dropped_def)
  then show ?thesis
    using assms(1) queue_drop_Suc [OF assms(1)] returned_append [OF ss(2)] by (auto simp: dropped_def)
qed

lemma node_bufs_head:
  assumes "bufs_fit ch" and "q_que (ch_queue ch) = n # ns" and "b \<in> set (node_bufs n)"
  shows "buf_fits (ch_streams ch) b"
  using assms by (auto simp: bufs_fit_def queue_bufs_def)

lemma bufs_fit_step:
  assumes "bufs_fit ch" and "list_all2 counts_only (ch_streams ch) ss" and "set (queue_bufs q) \<subseteq> set (queue_bufs (ch_queue ch))"
  shows "bufs_fit (set_queue q (ch\<lparr>ch_streams := ss\<rparr>))"
  using assms counts_fits [OF assms(2)] by (auto simp: bufs_fit_def)

lemma set_queue_bufs_drop: "set (queue_bufs (queue_drop k q)) \<subseteq> set (queue_bufs q)"
  by (subst (2) queue_bufs_drop [of _ k]) simp

lemma dropped_ok:
  assumes "dropped e k ch ch'" and "queue_ok (ch_queue ch)" and "bufs_fit ch"
  shows "queue_ok (ch_queue ch')" and "bufs_fit ch'"
proof -
  obtain ss where k: "k \<le> length (q_que (ch_queue ch))" "ch' = set_queue (queue_drop k (ch_queue ch)) (ch\<lparr>ch_streams := ss\<rparr>)"
    "returned e (concat (map node_bufs (take k (q_que (ch_queue ch))))) (ch_streams ch) ss"
    using assms(1) by (auto simp: dropped_def)
  show "queue_ok (ch_queue ch')" using queue_ok_drop [OF assms(2) k(1)] k(2) by simp
  show "bufs_fit ch'" unfolding k(2)
    by (rule bufs_fit_step [OF assms(3) returned_counts [OF k(3)] set_queue_bufs_drop])
qed

lemma take_node_runs:
  assumes "queue_ok (ch_queue ch)" and "bufs_fit ch" and "q_que (ch_queue ch) = n # ns"
    and "\<And>ch1 w1. ch_returned e (node_bufs n) (set_queue (queue_drop 1 (ch_queue ch)) ch, w) (ch1, w1) \<Longrightarrow>
      queue_ok (ch_queue ch1) \<Longrightarrow> bufs_fit ch1 \<Longrightarrow> ch_queue ch1 = queue_drop 1 (ch_queue ch) \<Longrightarrow> runs (f ch1 w1) (Q ch1 w1)"
    and "\<And>ch1 w1 r. ch_returned e (node_bufs n) (set_queue (queue_drop 1 (ch_queue ch)) ch, w) (ch1, w1) \<Longrightarrow> Q ch1 w1 r \<Longrightarrow> R r"
  shows "runs (do {
      (ch, w) \<leftarrow> node_qbuf (qbuf_ignore e) (\<lambda>bi. bi_buf bi \<noteq> None) n (set_queue (queue_drop 1 (ch_queue ch)) ch, w);
      f ch w }) R"
proof -
  let ?ch = "set_queue (queue_drop 1 (ch_queue ch)) ch"
  have k: "node_ok (q_num_streams (ch_queue ch)) (q_bundled_streams (ch_queue ch)) n"
    "unat (q_num_streams (ch_queue ch)) \<le> MAX_STREAM_NUM_IN_BUNDLE"
    using assms(1,3) by (auto simp: queue_ok_def)
  have "runs (node_qbuf (qbuf_ignore e) (\<lambda>bi. bi_buf bi \<noteq> None) n (?ch, w)) (ch_returned e (node_bufs n) (?ch, w))"
    by (rule node_return_runs [OF k]) (use node_bufs_head [OF assms(2,3)] in simp)
  moreover have "runs (f (fst p) (snd p)) R" if p: "ch_returned e (node_bufs n) (?ch, w) p" for p
  proof -
    have "dropped e 1 ch (fst p)"
      using dropped_Suc [OF assms(3), of e w "fst p" "snd p"] p dropped_0 by simp
    note ok = dropped_ok [OF this assms(1,2)]
    have "ch_queue (fst p) = queue_drop 1 (ch_queue ch)" using p by (auto simp: ch_returned_def)
    then show ?thesis using assms(4) [of "fst p" "snd p"] assms(5) [of "fst p" "snd p"] ok p by (auto elim: runs_mono)
  qed
  ultimately show ?thesis by (auto simp: case_prod_unfold elim: runs_mono)
qed

lemma drain_matched_runs:
  assumes "queue_ok (ch_queue ch)" and "bufs_fit ch"
  shows "runs (drain_matched e limit ch w)
    (\<lambda>(ch', w'). dropped e (unat (q_match_cnt (ch_queue ch)) - unat limit) ch ch')"
  using assms
proof (induction "unat (q_match_cnt (ch_queue ch)) - unat limit" arbitrary: ch w)
  case 0
  then show ?case by (subst drain_matched.simps) (simp add: dropped_0)
next
  case (Suc k)
  then have cnt: "unat (q_match_cnt (ch_queue ch)) = Suc (k + unat limit)" by simp
  then have "q_match_cnt (ch_queue ch) \<noteq> 0" by auto
  then obtain n ns where n: "q_que (ch_queue ch) = n # ns" "qn_matched n"
    using queue_ok_head [OF Suc.prems(1)] by blast
  have "unat (q_match_cnt (queue_drop 1 (ch_queue ch))) = k + unat limit"
    using n cnt by (simp add: queue_drop_def unat_minus_1 word_neq_0_unat)
  then have IH: "runs (drain_matched e limit ch1 w1) (\<lambda>(ch', w'). dropped e k ch1 ch')"
    if "queue_ok (ch_queue ch1)" "bufs_fit ch1" "ch_queue ch1 = queue_drop 1 (ch_queue ch)" for ch1 w1
    using Suc.hyps(1) [of ch1 w1] that by simp
  have "runs (do {
      (ch, w) \<leftarrow> node_qbuf (qbuf_ignore e) (\<lambda>bi. bi_buf bi \<noteq> None) n (set_queue (queue_drop 1 (ch_queue ch)) ch, w);
      drain_matched e limit ch w }) (\<lambda>(ch', w'). dropped e (Suc k) ch ch')"
    by (rule take_node_runs [OF Suc.prems n(1) IH]) (auto intro: dropped_Suc [OF n(1)])
  then show ?case
    using cnt dequeue_Cons [OF n(1), of True] n(2) by (subst drain_matched.simps) simp
qed

lemma flush_runs:
  assumes "queue_ok (ch_queue ch)" and "bufs_fit ch"
  shows "runs (mm_channel_superbuf_flush e ch w) (\<lambda>(ch', w'). dropped e (length (q_que (ch_queue ch))) ch ch')"
  using assms
proof (induction "length (q_que (ch_queue ch))" arbitrary: ch w)
  case 0
  then show ?case
    by (subst mm_channel_superbuf_flush.simps) (simp add: mm_channel_superbuf_dequeue_internal_def dropped_0)
next
  case (Suc k)
  then obtain n ns where n: "q_que (ch_queue ch) = n # ns" "length ns = k" by (cases "q_que (ch_queue ch)") auto
  have IH: "runs (mm_channel_superbuf_flush e ch1 w1) (\<lambda>(ch', w'). dropped e k ch1 ch')"
    if "queue_ok (ch_queue ch1)" "bufs_fit ch1" "ch_queue ch1 = queue_drop 1 (ch_queue ch)" for ch1 w1
    using Suc.hyps(1) [of ch1 w1] that n by simp
  have "runs (do {
      (ch, w) \<leftarrow> node_qbuf (qbuf_ignore e) (\<lambda>bi. bi_buf bi \<noteq> None) n (set_queue (queue_drop 1 (ch_queue ch)) ch, w);
      mm_channel_superbuf_flush e ch w }) (\<lambda>(ch', w'). dropped e (Suc k) ch ch')"
    by (rule take_node_runs [OF Suc.prems n(1) IH]) (auto intro: dropped_Suc [OF n(1)])
  then show ?case
    using dequeue_Cons [OF n(1), of False] n by (subst mm_channel_superbuf_flush.simps) simp
qed

end
