(* ===== verification/Superbuf_Match.thy ===== *)
theory Superbuf_Match
  imports Superbuf_Inv
begin

text \<open>
  Matching a frame against the queue: what the search finds in a queue of the right shape, and
  what the branches of \<^verbatim>\<open>mm_channel_superbuf_comp_and_enqueue\<close> do to the queue and with the buffers.
\<close>

section \<open>The search\<close>

abbreviation frame_less :: "mm_channel_queue_node_t \<Rightarrow> mm_channel_queue_node_t \<Rightarrow> bool" where
  "frame_less a b \<equiv> qn_frame_idx a < qn_frame_idx b"

lemma scan_matched:
  "\<forall>n \<in> set ms. qn_matched n \<Longrightarrow> superbuf_scan f p (ms @ us) u l b = superbuf_scan f (p + length ms) us u l b"
  by (induction ms arbitrary: p) simp_all

lemma scan_smaller:
  "\<forall>n \<in> set lo. \<not> qn_matched n \<and> qn_frame_idx n < f \<Longrightarrow> superbuf_scan f p (lo @ us) u l b =
    superbuf_scan f (p + length lo) us (u + of_nat (length lo)) (if l = None \<and> lo \<noteq> [] then Some p else l) b"
  by (induction lo arbitrary: p u l) (auto simp: algebra_simps)

lemma scan_larger:
  "\<forall>n \<in> set hi. \<not> qn_matched n \<and> f < qn_frame_idx n \<Longrightarrow> superbuf_scan f p hi u l b =
    (None, u + of_nat (length hi), l, if b = None \<and> hi \<noteq> [] then Some p else b)"
  by (induction hi arbitrary: p u b) (auto simp: algebra_simps)

lemma sorted_split:
  assumes "sorted_wrt frame_less us"
  obtains (found) lo n hi where "us = lo @ n # hi" "\<forall>x \<in> set lo. qn_frame_idx x < f" "qn_frame_idx n = f"
      "\<forall>x \<in> set hi. f < qn_frame_idx x"
  | (missing) lo hi where "us = lo @ hi" "\<forall>x \<in> set lo. qn_frame_idx x < f" "\<forall>x \<in> set hi. f < qn_frame_idx x"
proof -
  have "\<exists>lo hi. us = lo @ hi \<and> (\<forall>x \<in> set lo. qn_frame_idx x < f) \<and> (hi = [] \<or> \<not> qn_frame_idx (hd hi) < f)"
    by (rule exI [of _ "takeWhile (\<lambda>x. qn_frame_idx x < f) us"], rule exI [of _ "dropWhile (\<lambda>x. qn_frame_idx x < f) us"])
      (use hd_dropWhile [of "\<lambda>x. qn_frame_idx x < f" us] in \<open>auto dest: set_takeWhileD\<close>)
  then obtain lo hi where us: "us = lo @ hi" and lo: "\<forall>x \<in> set lo. qn_frame_idx x < f"
    and hi: "hi = [] \<or> \<not> qn_frame_idx (hd hi) < f"
    by blast
  show thesis
  proof (cases hi)
    case Nil
    then show ?thesis using missing [of lo hi] us lo by simp
  next
    case (Cons n ns)
    then have ns: "\<forall>x \<in> set ns. qn_frame_idx n < qn_frame_idx x" using assms us by (simp add: sorted_wrt_append)
    show ?thesis
    proof (cases "qn_frame_idx n = f")
      case True
      then show ?thesis using found [of lo n ns] us lo ns Cons by simp
    next
      case False
      then have "f < qn_frame_idx n" using hi Cons by simp
      then show ?thesis using missing [of lo hi] us lo ns Cons by (auto intro: less_trans)
    qed
  qed
qed

section \<open>Removing nodes\<close>

text \<open>The buffers the removal returns: those of frames with a number other than 0.\<close>

definition node_ret :: "mm_channel_queue_node_t \<Rightarrow> mm_camera_buf_def_t list" where
  "node_ret n = List.map_filter bi_buf
     (filter (\<lambda>bi. bi_frame_idx bi \<noteq> 0) (take (unat (qn_num_of_bufs n)) (qn_super_buf n)))"

lemma map_filter_subset: "set (List.map_filter g (filter P xs)) \<subseteq> set (List.map_filter g xs)"
  by (auto simp: List.map_filter_def)

lemma node_ret_subset: "set (node_ret n) \<subseteq> set (node_bufs n)"
  unfolding node_ret_def node_bufs_def by (rule map_filter_subset)

lemma in_take_nth: "x \<in> set (take k xs) \<longleftrightarrow> (\<exists>i < k. i < length xs \<and> x = xs ! i)"
  by (auto simp: in_set_conv_nth)

lemma node_ok_slots:
  assumes "node_ok k hs n" and "unat k \<le> MAX_STREAM_NUM_IN_BUNDLE"
    and "bi \<in> set (take (unat (qn_num_of_bufs n)) (qn_super_buf n))"
  shows "\<exists>i < unat k. slot_ok hs (qn_frame_idx n) i bi"
  using assms by (auto simp: node_ok_def in_take_nth)

lemma map_filter_filter: "(\<And>x. x \<in> set xs \<Longrightarrow> g x \<noteq> None \<Longrightarrow> P x) \<Longrightarrow> List.map_filter g (filter P xs) = List.map_filter g xs"
  by (induction xs) (auto simp: List.map_filter_def)

lemma node_ret_all:
  assumes "node_ok k hs n" and "unat k \<le> MAX_STREAM_NUM_IN_BUNDLE" and "qn_frame_idx n \<noteq> 0"
  shows "node_ret n = node_bufs n"
  unfolding node_ret_def node_bufs_def
proof (rule map_filter_filter)
  fix bi assume "bi \<in> set (take (unat (qn_num_of_bufs n)) (qn_super_buf n))" "bi_buf bi \<noteq> None"
  then show "bi_frame_idx bi \<noteq> 0"
    using node_ok_slots [OF assms(1,2)] assms(3) by (fastforce simp: slot_ok_def zero_buf_info_def)
qed

lemma node_ret_runs:
  assumes "node_ok k hs n" and "unat k \<le> MAX_STREAM_NUM_IN_BUNDLE"
    and "\<And>b. b \<in> set (node_bufs n) \<Longrightarrow> buf_fits (ch_streams ch) b"
  shows "runs (node_qbuf (qbuf_ignore e) (\<lambda>bi. bi_frame_idx bi \<noteq> 0) n (ch, w)) (ch_returned e (node_ret n) (ch, w))"
proof -
  let ?bis = "take (unat (qn_num_of_bufs n)) (qn_super_buf n)"
  have "\<exists>b. bi_buf bi = Some b \<and> buf_fits (ch_streams ch) b" if bi: "bi \<in> set ?bis" "bi_frame_idx bi \<noteq> 0" for bi
  proof -
    obtain b where "bi_buf bi = Some b"
      using node_ok_slots [OF assms(1,2) bi(1)] bi(2) by (auto simp: slot_ok_def zero_buf_info_def)
    then show ?thesis using assms(3) [of b] bi(1) by (force simp: node_bufs_def List.map_filter_def)
  qed
  then show ?thesis
    using cr.node_qbuf_runs [of n "\<lambda>bi. bi_frame_idx bi \<noteq> 0" "(ch, w)" e] assms(1,2)
    by (simp add: node_ok_def node_ret_def)
qed

definition queue_cut :: "mm_channel_queue_node_t list \<Rightarrow> nat \<Rightarrow> mm_channel_queue_t \<Rightarrow> mm_channel_queue_t" where
  "queue_cut ns k q = q\<lparr>q_que := ns, q_size := q_size q - of_nat k\<rparr>"

lemma queue_cut_cut [simp]: "queue_cut ns k (queue_cut ms l q) = queue_cut ns (l + k) q" "q_que (queue_cut ns k q) = ns"
  by (simp_all add: queue_cut_def algebra_simps)

lemma remove_node_runs:
  assumes "q_que (ch_queue ch) = ms @ n # ns" and "node_ok k hs n" and "unat k \<le> MAX_STREAM_NUM_IN_BUNDLE"
    and "\<And>b. b \<in> set (node_bufs n) \<Longrightarrow> buf_fits (ch_streams ch) b"
  shows "runs (remove_node e (length ms) (ch, w)) (\<lambda>(ch', w').
    \<exists>ss. ch' = set_queue (queue_cut (ms @ ns) 1 (ch_queue ch)) (ch\<lparr>ch_streams := ss\<rparr>) \<and> returned e (node_ret n) (ch_streams ch) ss)"
  using node_ret_runs [OF assms(2-4), of e w] assms(1)
  by (auto simp: remove_node_def ch_returned_def case_prod_unfold Let_def queue_cut_def elim!: runs_mono)

lemma remove_nodes_runs:
  assumes "q_que (ch_queue ch) = ms @ lo @ ns" and "\<forall>n \<in> set lo. node_ok k hs n" and "unat k \<le> MAX_STREAM_NUM_IN_BUNDLE"
    and "\<And>b. b \<in> set (concat (map node_bufs lo)) \<Longrightarrow> buf_fits (ch_streams ch) b"
    and "length xs = length lo"
  shows "runs (foldM (\<lambda>_. remove_node e (length ms)) xs (ch, w)) (\<lambda>(ch', w').
    \<exists>ss. ch' = set_queue (queue_cut (ms @ ns) (length lo) (ch_queue ch)) (ch\<lparr>ch_streams := ss\<rparr>) \<and>
      returned e (concat (map node_ret lo)) (ch_streams ch) ss)"
  using assms
proof (induction lo arbitrary: ch w xs)
  case Nil
  then have "queue_cut (ms @ ns) 0 (ch_queue ch) = ch_queue ch" by (simp add: queue_cut_def)
  then show ?case using Nil by (auto intro!: exI [of _ "ch_streams ch"] returned.Nil)
next
  case (Cons n lo)
  then obtain x xs' where xs: "xs = x # xs'" "length xs' = length lo" by (cases xs) auto
  have one: "runs (remove_node e (length ms) (ch, w)) (\<lambda>(ch', w').
    \<exists>ss. ch' = set_queue (queue_cut (ms @ lo @ ns) 1 (ch_queue ch)) (ch\<lparr>ch_streams := ss\<rparr>) \<and> returned e (node_ret n) (ch_streams ch) ss)"
    by (rule remove_node_runs) (use Cons.prems in auto)
  have "runs (foldM (\<lambda>_. remove_node e (length ms)) xs' (ch1, w1)) (\<lambda>(ch', w').
      \<exists>ss. ch' = set_queue (queue_cut (ms @ ns) (length (n # lo)) (ch_queue ch)) (ch\<lparr>ch_streams := ss\<rparr>) \<and>
      returned e (concat (map node_ret (n # lo))) (ch_streams ch) ss)"
    if ch1: "ch1 = set_queue (queue_cut (ms @ lo @ ns) 1 (ch_queue ch)) (ch\<lparr>ch_streams := ss\<rparr>)"
      and r: "returned e (node_ret n) (ch_streams ch) ss" for ch1 w1 ss
  proof -
    have "runs (foldM (\<lambda>_. remove_node e (length ms)) xs' (ch1, w1)) (\<lambda>(ch', w').
      \<exists>ss'. ch' = set_queue (queue_cut (ms @ ns) (length lo) (ch_queue ch1)) (ch1\<lparr>ch_streams := ss'\<rparr>) \<and>
        returned e (concat (map node_ret lo)) (ch_streams ch1) ss')"
      by (rule Cons.IH) (use Cons.prems xs ch1 counts_fits [OF returned_counts [OF r]] in auto)
    then show ?thesis
      by (rule runs_mono) (use ch1 in \<open>auto dest: returned_append [OF r]\<close>)
  qed
  then show ?case unfolding xs(1) foldM.simps runs_bind
    by (intro runs_mono [OF one]) auto
qed


section \<open>Specification of the enqueue\<close>

text \<open>
  A queue seen from a frame number: matched nodes, unmatched nodes with smaller numbers, and
  the rest. The outcomes of the arrival of a frame: its superbuffer is now complete, and the ones
  it overtook are given up; its superbuffer still waits for other streams; it starts a new
  superbuffer, in place of the oldest one when too many wait; or it is returned.
\<close>

definition queue_split :: "uint32_t \<Rightarrow> mm_channel_queue_node_t list \<Rightarrow> mm_channel_queue_node_t list \<Rightarrow>
    mm_channel_queue_node_t list \<Rightarrow> mm_channel_queue_node_t list \<Rightarrow> bool" where
  "queue_split f ns ms lo hi \<longleftrightarrow> ns = ms @ lo @ hi \<and> (\<forall>n \<in> set ms. qn_matched n) \<and>
     (\<forall>n \<in> set (lo @ hi). \<not> qn_matched n) \<and> sorted_wrt frame_less (lo @ hi) \<and> (\<forall>n \<in> set lo. qn_frame_idx n < f)"

definition fill_node :: "nat \<Rightarrow> mm_camera_buf_info_t \<Rightarrow> mm_channel_queue_node_t \<Rightarrow> mm_channel_queue_node_t" where
  "fill_node i bi n = (let n = n\<lparr>qn_super_buf := (qn_super_buf n)[i := bi]\<rparr> in n\<lparr>qn_matched := node_complete n\<rparr>)"

definition bump :: "mm_camera_buf_info_t \<Rightarrow> mm_channel_queue_t \<Rightarrow> mm_channel_queue_t" where
  "bump bi q = q\<lparr>q_expected_frame_id := bi_frame_idx bi + ucast (post_frame_skip (q_attr q)), q_match_cnt := q_match_cnt q + 1\<rparr>"

definition queue_ins :: "nat \<Rightarrow> mm_camera_buf_info_t \<Rightarrow> mm_channel_queue_node_t list \<Rightarrow> mm_channel_queue_node_t list \<Rightarrow>
    mm_channel_queue_t \<Rightarrow> mm_channel_queue_t" where
  "queue_ins i bi xs ys q = (let q = q\<lparr>q_que := xs @ new_queue_node (q_num_streams q) i bi # ys, q_size := q_size q + 1\<rparr>
     in if q_num_streams q = 1 then bump bi q else q)"

inductive enqueue_spec :: "nat \<Rightarrow> mm_camera_buf_info_t \<Rightarrow> mm_channel_queue_t \<Rightarrow> mm_camera_buf_def_t list \<Rightarrow> mm_channel_queue_t \<Rightarrow> bool"
  for i bi q where
  complete: "queue_split (bi_frame_idx bi) (q_que q) ms lo (n # hi) \<Longrightarrow> qn_frame_idx n = bi_frame_idx bi \<Longrightarrow>
    qn_matched (fill_node i bi n) \<Longrightarrow>
    enqueue_spec i bi q (concat (map node_ret lo)) (queue_cut (ms @ fill_node i bi n # hi) (length lo) (bump bi q))"
| partial: "queue_split (bi_frame_idx bi) (q_que q) ms lo (n # hi) \<Longrightarrow> qn_frame_idx n = bi_frame_idx bi \<Longrightarrow>
    \<not> qn_matched (fill_node i bi n) \<Longrightarrow> enqueue_spec i bi q [] (q\<lparr>q_que := ms @ lo @ fill_node i bi n # hi\<rparr>)"
| insert: "queue_split (bi_frame_idx bi) (q_que q) ms lo hi \<Longrightarrow> \<forall>n \<in> set hi. bi_frame_idx bi < qn_frame_idx n \<Longrightarrow>
    k \<le> length lo \<Longrightarrow> (if max_unmatched_frames (q_attr q) < of_nat (length (lo @ hi)) then k = 1 else k = 0) \<Longrightarrow>
    enqueue_spec i bi q (concat (map node_ret (take k lo)))
      (queue_ins i bi (ms @ drop k lo) hi (queue_cut (ms @ drop k lo @ hi) k q))"
| refuse: "queue_split (bi_frame_idx bi) (q_que q) ms lo hi \<Longrightarrow> \<forall>n \<in> set hi. bi_frame_idx bi < qn_frame_idx n \<Longrightarrow>
    k \<le> length lo \<Longrightarrow> k \<le> 1 \<Longrightarrow> bi_buf bi = Some b \<Longrightarrow>
    enqueue_spec i bi q (concat (map node_ret (take k lo)) @ [b]) (queue_cut (ms @ drop k lo @ hi) k q)"

definition ch_to :: "env \<Rightarrow> mm_camera_buf_def_t list \<Rightarrow> mm_channel_queue_t \<Rightarrow> mm_channel_t \<Rightarrow> mm_channel_t \<Rightarrow> bool" where
  "ch_to e bs q ch ch' \<longleftrightarrow> (\<exists>ss. ch' = set_queue q (ch\<lparr>ch_streams := ss\<rparr>) \<and> returned e bs (ch_streams ch) ss)"

lemma ch_to_queue: "ch_to e [] q ch (set_queue q ch)"
  unfolding ch_to_def by (rule exI [of _ "ch_streams ch"]) (simp add: returned.Nil)

lemma ch_to_trans:
  assumes "ch_to e bs q ch ch1" and "ch_to e cs q' ch1 ch2"
  shows "ch_to e (bs @ cs) q' ch ch2"
proof -
  obtain ss ss' where "ch1 = set_queue q (ch\<lparr>ch_streams := ss\<rparr>)" "returned e bs (ch_streams ch) ss"
    "ch2 = set_queue q' (ch1\<lparr>ch_streams := ss'\<rparr>)" "returned e cs (ch_streams ch1) ss'"
    using assms by (auto simp: ch_to_def)
  then show ?thesis by (auto simp: ch_to_def intro: returned_append)
qed

lemma ch_returned_to: "ch_returned e bs (ch, w) p \<Longrightarrow> ch_to e bs (ch_queue ch) ch (fst p)"
proof -
  assume "ch_returned e bs (ch, w) p"
  then obtain ss where "fst p = ch\<lparr>ch_streams := ss\<rparr>" "returned e bs (ch_streams ch) ss"
    by (auto simp: ch_returned_def)
  moreover have "set_queue (ch_queue ch) (ch\<lparr>ch_streams := ss\<rparr>) = ch\<lparr>ch_streams := ss\<rparr>"
    by (cases ch; cases "ch_bundle ch"; simp add: set_queue_def)
  ultimately show ?thesis by (metis ch_to_def)
qed

lemma superbuf_found_alt:
  "superbuf_found e i bi pos last_buf ch w = (let n = fill_node i bi (q_que (ch_queue ch) ! pos);
      q = (ch_queue ch)\<lparr>q_que := (q_que (ch_queue ch))[pos := n]\<rparr>
    in if qn_matched n then (case last_buf of
           None \<Rightarrow> Some (set_queue (bump bi q) ch, w)
         | Some l \<Rightarrow> foldM (\<lambda>_. remove_node e l) [l..<pos] (set_queue (bump bi q) ch, w))
       else Some (set_queue q ch, w))"
  by (simp add: superbuf_found_def fill_node_def bump_def Let_def split: option.split)

lemmas remove_node_to = remove_node_runs [folded ch_to_def]
lemmas remove_nodes_to = remove_nodes_runs [folded ch_to_def]

lemma found_runs:
  assumes "q_que (ch_queue ch) = ms @ lo @ n # hi" and "\<forall>n \<in> set lo. node_ok k hs n" and "unat k \<le> MAX_STREAM_NUM_IN_BUNDLE"
    and "\<And>b. b \<in> set (concat (map node_bufs lo)) \<Longrightarrow> buf_fits (ch_streams ch) b"
  shows "runs (superbuf_found e i bi (length ms + length lo) (if lo = [] then None else Some (length ms)) ch w) (\<lambda>(ch', w').
    if qn_matched (fill_node i bi n)
    then ch_to e (concat (map node_ret lo)) (queue_cut (ms @ fill_node i bi n # hi) (length lo) (bump bi (ch_queue ch))) ch ch'
    else ch_to e [] ((ch_queue ch)\<lparr>q_que := ms @ lo @ fill_node i bi n # hi\<rparr>) ch ch')"
proof -
  let ?n = "fill_node i bi n" and ?p = "length ms + length lo"
  let ?q = "bump bi ((ch_queue ch)\<lparr>q_que := ms @ lo @ ?n # hi\<rparr>)"
  have at: "q_que (ch_queue ch) ! ?p = n" "(q_que (ch_queue ch))[?p := m] = ms @ lo @ m # hi" for m
    using assms(1) by (simp_all add: nth_append list_update_append)
  have cut: "queue_cut x y ?q = queue_cut x y (bump bi (ch_queue ch))" for x y
    by (simp add: queue_cut_def bump_def)
  have q: "q_que ?q = ms @ lo @ ?n # hi" by (simp add: bump_def)
  show ?thesis
  proof (cases "qn_matched ?n \<and> lo \<noteq> []")
    case True
    have "runs (foldM (\<lambda>_. remove_node e (length ms)) [length ms..<?p] (set_queue ?q ch, w)) (\<lambda>(ch', w').
        ch_to e (concat (map node_ret lo)) (queue_cut (ms @ ?n # hi) (length lo) ?q) (set_queue ?q ch) ch')"
      using remove_nodes_to [of "set_queue ?q ch" ms lo "?n # hi" k hs "[length ms..<?p]" e w] q assms(2-4) by simp
    then show ?thesis
      using True by (auto simp: superbuf_found_alt Let_def at cut elim!: runs_mono dest: ch_to_trans [OF ch_to_queue])
  next
    case False
    have "queue_cut (ms @ ?n # hi) 0 (bump bi (ch_queue ch)) = bump bi ((ch_queue ch)\<lparr>q_que := ms @ ?n # hi\<rparr>)"
      by (simp add: queue_cut_def bump_def)
    then show ?thesis
      using False by (auto simp: superbuf_found_alt Let_def at cut intro: ch_to_queue)
  qed
qed


lemma qbuf_to_runs:
  assumes "buf_fits (ch_streams ch) b"
  shows "runs (qbuf_ignore e (Some b) (ch, w)) (\<lambda>(ch', w'). ch_to e [b] (ch_queue ch) ch ch')"
  using qbuf_ignore_runs [of "(ch, w)" b e] assms ch_returned_to [of e "[b]" ch w]
  by (auto elim!: runs_mono)

lemma insert_runs:
  assumes "q_que (ch_queue ch) = xs @ ys" and "bi_buf bi = Some b" and "buf_fits (ch_streams ch) b"
  shows "runs (superbuf_insert e i bi (if ys = [] then None else Some (length xs)) ch w) (\<lambda>(ch', w').
    ch_to e [] (queue_ins i bi xs ys (ch_queue ch)) ch ch' \<or> ch_to e [b] (ch_queue ch) ch ch')"
proof -
  have "superbuf_insert e i bi (if ys = [] then None else Some (length xs)) ch w =
      (let (a, w) = malloc e w; (c, w) = malloc e w in
       if a \<and> c then Some (set_queue (queue_ins i bi xs ys (ch_queue ch)) ch, w) else qbuf_ignore e (Some b) (ch, w))"
    using assms(1,2) by (simp add: superbuf_insert_def queue_ins_def bump_def Let_def case_prod_unfold)
  moreover have "runs (qbuf_ignore e (Some b) (ch, w))
      (\<lambda>p. ch_to e [] (queue_ins i bi xs ys (ch_queue ch)) ch (fst p) \<or> ch_to e [b] (ch_queue ch) ch (fst p))" for w
    using qbuf_ignore_runs [of "(ch, w)" b e] assms(3) by (auto elim!: runs_mono intro: ch_returned_to)
  ultimately show ?thesis
    by (simp add: Let_def case_prod_unfold ch_to_queue)
qed

lemma not_found_runs:
  assumes "q_que (ch_queue ch) = ms @ lo @ hi" and "\<forall>n \<in> set lo. node_ok k hs n" and "unat k \<le> MAX_STREAM_NUM_IN_BUNDLE"
    and "\<And>b. b \<in> set (concat (map node_bufs lo)) \<Longrightarrow> buf_fits (ch_streams ch) b"
    and "bi_buf bi = Some b" and "buf_fits (ch_streams ch) b"
    and over_def: "over \<longleftrightarrow> max_unmatched_frames (q_attr (ch_queue ch)) < u"
  shows "runs (superbuf_not_found e i bi u (if lo = [] then None else Some (length ms))
      (if hi = [] then None else Some (length ms + length lo)) ch w) (\<lambda>(ch', w').
    (\<exists>j \<le> length lo. (if over then j = 1 else j = 0) \<and> ch_to e (concat (map node_ret (take j lo)))
       (queue_ins i bi (ms @ drop j lo) hi (queue_cut (ms @ drop j lo @ hi) j (ch_queue ch))) ch ch') \<or>
    (\<exists>j \<le> length lo. j \<le> 1 \<and> ch_to e (concat (map node_ret (take j lo)) @ [b]) (queue_cut (ms @ drop j lo @ hi) j (ch_queue ch)) ch ch'))"
    (is "runs _ ?Q")
proof -
  have q0: "queue_cut (ms @ lo @ hi) 0 (ch_queue ch) = ch_queue ch"
    using assms(1) by (simp add: queue_cut_def)
  have Q0: "?Q (ch', w')" if "\<not> over" "ch_to e [] (queue_ins i bi (ms @ lo) hi (ch_queue ch)) ch ch'" for ch' w'
    unfolding prod.case using that q0 by (intro disjI1 exI [of _ 0]) simp
  have Q1: "?Q (ch', w')" if "ch_to e [b] (ch_queue ch) ch ch'" for ch' w'
    unfolding prod.case using that q0 by (intro disjI2 exI [of _ 0]) simp
  consider "\<not> over" | "over" "lo = []" | x lo' where "over" "lo = x # lo'" by (cases lo) auto
  then show ?thesis
  proof cases
    case 1
    have "runs (superbuf_insert e i bi (if hi = [] then None else Some (length (ms @ lo))) ch w) (\<lambda>(ch', w').
        ch_to e [] (queue_ins i bi (ms @ lo) hi (ch_queue ch)) ch ch' \<or> ch_to e [b] (ch_queue ch) ch ch')"
      by (rule insert_runs) (use assms in auto)
    then have "runs (superbuf_insert e i bi (if hi = [] then None else Some (length (ms @ lo))) ch w) ?Q"
      by (rule runs_mono) (use Q0 [OF 1] Q1 in blast)
    then show ?thesis by (simp only: superbuf_not_found_def over_def [symmetric] 1 if_False length_append)
  next
    case 2
    have "runs (qbuf_ignore e (Some b) (ch, w)) ?Q"
      by (rule runs_mono [OF qbuf_to_runs [OF assms(6)]]) (use Q1 in blast)
    then show ?thesis
      by (simp only: superbuf_not_found_def over_def [symmetric] 2 if_True option.case assms(5) simp_thms)
  next
    case 3
    let ?q = "queue_cut (ms @ lo' @ hi) 1 (ch_queue ch)"
    have rm: "runs (remove_node e (length ms) (ch, w)) (\<lambda>(ch', w'). ch_to e (node_ret x) ?q ch ch')"
      by (rule remove_node_to) (use assms 3 in auto)
    have ins: "runs (superbuf_insert e i bi (if hi = [] then None else Some (length (ms @ lo'))) ch1 w1) ?Q"
      if to: "ch_to e (node_ret x) ?q ch ch1" for ch1 w1
    proof -
      obtain ss where ss: "ch1 = set_queue ?q (ch\<lparr>ch_streams := ss\<rparr>)" "returned e (node_ret x) (ch_streams ch) ss"
        using to by (auto simp: ch_to_def)
      have "buf_fits (ch_streams ch1) b" using ss counts_fits [OF returned_counts assms(6)] by simp
      then have "runs (superbuf_insert e i bi (if hi = [] then None else Some (length (ms @ lo'))) ch1 w1) (\<lambda>(ch', w').
          ch_to e [] (queue_ins i bi (ms @ lo') hi ?q) ch1 ch' \<or> ch_to e [b] ?q ch1 ch')"
        using insert_runs [of ch1 "ms @ lo'" hi bi b e i w1] ss(1) assms(5) by simp
      then show ?thesis
        using 3 ch_to_trans [OF to] by (fastforce elim!: runs_mono intro!: exI [of _ 1])
    qed
    have eq: "superbuf_not_found e i bi u (if lo = [] then None else Some (length ms))
        (if hi = [] then None else Some (length ms + length lo)) ch w =
        do { (ch, w) \<leftarrow> remove_node e (length ms) (ch, w);
             superbuf_insert e i bi (if hi = [] then None else Some (length (ms @ lo'))) ch w }"
      using 3 by (simp add: superbuf_not_found_def over_def)
    show ?thesis
      unfolding eq runs_bind
      by (rule runs_mono [OF rm]) (use ins in \<open>auto simp only: split: prod.splits\<close>)
  qed
qed


section \<open>The code implements the specification\<close>

text \<open>A frame as the streams post it: the number and the stream are those of its buffer.\<close>

definition frame_ok :: "mm_camera_buf_info_t \<Rightarrow> mm_camera_buf_def_t \<Rightarrow> bool" where
  "frame_ok bi b \<longleftrightarrow> bi_buf bi = Some b \<and> b_stream_id b = bi_stream_id bi \<and> b_frame_idx b = bi_frame_idx bi"

lemma queue_ok_split:
  assumes "queue_ok q"
  obtains (found) ms lo n hi where "queue_split f (q_que q) ms lo (n # hi)" "qn_frame_idx n = f" "\<forall>x \<in> set hi. f < qn_frame_idx x"
  | (missing) ms lo hi where "queue_split f (q_que q) ms lo hi" "\<forall>x \<in> set hi. f < qn_frame_idx x"
proof -
  obtain ms us where s: "q_que q = ms @ us" "\<forall>n \<in> set ms. qn_matched n" "\<forall>n \<in> set us. \<not> qn_matched n" "sorted_wrt frame_less us"
    using assms by (auto simp: queue_ok_def queue_shape_def)
  from s(4) show thesis
  proof (cases rule: sorted_split [where f = f])
    case (found lo n hi)
    then show ?thesis using that(1) [of ms lo n hi] s by (simp add: queue_split_def)
  next
    case (missing lo hi)
    then show ?thesis using that(2) [of ms lo hi] s by (simp add: queue_split_def)
  qed
qed

lemma scan_split:
  assumes "queue_split f ns ms lo hi"
  shows "superbuf_scan f 0 ns 0 None None = superbuf_scan f (length ms + length lo) hi (of_nat (length lo))
    (if lo = [] then None else Some (length ms)) None"
  using assms scan_matched [of ms f 0 "lo @ hi" 0 None None] scan_smaller [of lo f "length ms" hi 0 None None]
  by (auto simp: queue_split_def)

lemma enqueue_runs:
  assumes "queue_ok (ch_queue ch)" and "bufs_fit ch" and "frame_ok bi b" and "buf_fits (ch_streams ch) b"
  shows "runs (case superbuf_scan (bi_frame_idx bi) 0 (q_que (ch_queue ch)) 0 None None of
      (Some pos, unmatched, last_buf, insert_before) \<Rightarrow> superbuf_found e i bi pos last_buf ch w
    | (None, unmatched, last_buf, insert_before) \<Rightarrow> superbuf_not_found e i bi unmatched last_buf insert_before ch w)
    (\<lambda>(ch', w'). \<exists>bs. ch_to e bs (ch_queue ch') ch ch' \<and> enqueue_spec i bi (ch_queue ch) bs (ch_queue ch'))"
    (is "runs _ ?Q")
proof -
  let ?q = "ch_queue ch" and ?f = "bi_frame_idx bi"
  have k: "unat (q_num_streams ?q) \<le> MAX_STREAM_NUM_IN_BUNDLE" using assms(1) by (simp add: queue_ok_def)
  have lo: "\<forall>n \<in> set lo. node_ok (q_num_streams ?q) (q_bundled_streams ?q) n"
    "\<And>b. b \<in> set (concat (map node_bufs lo)) \<Longrightarrow> buf_fits (ch_streams ch) b"
    if "queue_split ?f (q_que ?q) ms lo hi" for ms lo hi
    using that assms(1,2) by (auto simp: queue_split_def queue_ok_def bufs_fit_def queue_bufs_def)
  have Q: "?Q (ch', w')" if "ch_to e bs q' ch ch'" "enqueue_spec i bi ?q bs q'" for ch' w' bs q'
  proof -
    have "ch_queue ch' = q'" using that(1) by (auto simp: ch_to_def)
    then show ?thesis using that by auto
  qed
  from assms(1) show ?thesis
  proof (cases rule: queue_ok_split [where f = ?f])
    case (found ms lo n hi)
    have q: "q_que ?q = ms @ lo @ n # hi" and u: "\<not> qn_matched n" using found(1) by (auto simp: queue_split_def)
    have "runs (superbuf_found e i bi (length ms + length lo) (if lo = [] then None else Some (length ms)) ch w) ?Q"
      by (rule runs_mono [OF found_runs [OF q lo(1) [OF found(1)] k lo(2) [OF found(1)]]])
        (use Q enqueue_spec.complete [OF found(1,2)] enqueue_spec.partial [OF found(1,2)] in \<open>auto split: if_splits\<close>)
    then show ?thesis using found(2) u by (simp add: scan_split [OF found(1)])
  next
    case (missing ms lo hi)
    let ?over = "max_unmatched_frames (q_attr ?q) < of_nat (length (lo @ hi))"
    have q: "q_que ?q = ms @ lo @ hi" using missing(1) by (simp add: queue_split_def)
    have u: "\<forall>n \<in> set hi. \<not> qn_matched n \<and> ?f < qn_frame_idx n" using missing by (auto simp: queue_split_def)
    have b: "bi_buf bi = Some b" using assms(3) by (simp add: frame_ok_def)
    have "runs (superbuf_not_found e i bi (of_nat (length (lo @ hi))) (if lo = [] then None else Some (length ms))
        (if hi = [] then None else Some (length ms + length lo)) ch w) ?Q"
      by (rule runs_mono [OF not_found_runs [OF q lo(1) [OF missing(1)] k lo(2) [OF missing(1)] b assms(4) refl]])
        (use Q enqueue_spec.insert [OF missing] enqueue_spec.refuse [OF missing _ _ b] in \<open>auto split: if_splits\<close>)
    moreover have "superbuf_scan ?f 0 (q_que ?q) 0 None None = (None, of_nat (length (lo @ hi)),
        if lo = [] then None else Some (length ms), if hi = [] then None else Some (length ms + length lo))"
      by (simp add: scan_split [OF missing(1)] scan_larger [OF u])
    ultimately show ?thesis by (simp only: prod.case option.case)
  qed
qed


text \<open>
  The whole arrival of a frame: the metadata may move the expected frame number, or empty the
  queue; then a late frame is returned, and any other one is enqueued.
\<close>

definition metadata_spec :: "mm_channel_queue_t \<Rightarrow> mm_camera_buf_def_t list \<Rightarrow> mm_channel_queue_t \<Rightarrow> bool" where
  "metadata_spec q bs q0 \<longleftrightarrow> (\<exists>x. bs = [] \<and> q0 = q\<lparr>q_expected_frame_id := x\<rparr> \<or>
     bs = queue_bufs q \<and> q0 = queue_drop (length (q_que q)) (q\<lparr>q_expected_frame_id := x\<rparr>))"

definition frame_spec :: "mm_camera_buf_info_t \<Rightarrow> mm_channel_queue_t \<Rightarrow> mm_camera_buf_def_t list \<Rightarrow> mm_channel_queue_t \<Rightarrow> bool" where
  "frame_spec bi q bs q' \<longleftrightarrow>
     (bi_frame_idx bi < q_expected_frame_id q \<and> q' = q \<and> (\<exists>b. bi_buf bi = Some b \<and> bs = [b])) \<or>
     (q_expected_frame_id q \<le> bi_frame_idx bi \<and>
      (\<exists>i < unat (q_num_streams q). bi_stream_id bi = q_bundled_streams q ! i \<and> enqueue_spec i bi q bs q'))"

text \<open>A step that returns buffers, and changes the queue and the flash flag of the channel.\<close>

definition ch_step :: "env \<Rightarrow> mm_camera_buf_def_t list \<Rightarrow> mm_channel_t \<Rightarrow> mm_channel_t \<Rightarrow> bool" where
  "ch_step e bs ch ch' \<longleftrightarrow> (\<exists>ss led q. ch' = set_queue q (ch\<lparr>ch_streams := ss, ch_needLEDFlash := led\<rparr>) \<and>
     returned e bs (ch_streams ch) ss)"

lemma ch_stepI: "returned e bs (ch_streams ch) ss \<Longrightarrow>
    ch_step e bs ch (set_queue q (ch\<lparr>ch_streams := ss, ch_needLEDFlash := led\<rparr>))"
  by (auto simp: ch_step_def)

lemma ch_step_refl: "ch_step e [] ch (set_queue q (ch\<lparr>ch_needLEDFlash := led\<rparr>))"
  using ch_stepI [OF returned.Nil, where ch = ch] by simp

lemma ch_step_same: "ch_step e [] ch ch" "ch_step e [] ch (set_queue q ch)" "ch_step e [] ch (ch\<lparr>ch_needLEDFlash := led\<rparr>)"
  using ch_step_refl [of e ch "ch_queue ch" "ch_needLEDFlash ch"] ch_step_refl [of e ch q "ch_needLEDFlash ch"]
    ch_step_refl [of e ch "ch_queue ch" led]
  by (simp_all add: set_queue_def)

lemma ch_step_trans:
  assumes "ch_step e bs ch ch1" and "ch_step e cs ch1 ch2"
  shows "ch_step e (bs @ cs) ch ch2"
proof -
  obtain ss led q ss' led' q' where s: "ch1 = set_queue q (ch\<lparr>ch_streams := ss, ch_needLEDFlash := led\<rparr>)"
    "returned e bs (ch_streams ch) ss" "ch2 = set_queue q' (ch1\<lparr>ch_streams := ss', ch_needLEDFlash := led'\<rparr>)"
    "returned e cs (ch_streams ch1) ss'"
    using assms unfolding ch_step_def by blast
  then have "ch2 = set_queue q' (ch\<lparr>ch_streams := ss', ch_needLEDFlash := led'\<rparr>)"
    by (cases ch; simp add: set_queue_def)
  then show ?thesis using s ch_stepI returned_append by simp
qed

lemma ch_to_step: "ch_to e bs q ch ch' \<Longrightarrow> ch_step e bs ch ch' \<and> ch_queue ch' = q"
proof -
  assume "ch_to e bs q ch ch'"
  then obtain ss where "ch' = set_queue q (ch\<lparr>ch_streams := ss\<rparr>)" "returned e bs (ch_streams ch) ss"
    by (auto simp: ch_to_def)
  then show ?thesis using ch_stepI [of e bs ch ss q "ch_needLEDFlash ch"] by simp
qed

lemma dropped_step: "dropped e k ch ch' \<Longrightarrow>
    ch_step e (concat (map node_bufs (take k (q_que (ch_queue ch))))) ch ch' \<and> ch_queue ch' = queue_drop k (ch_queue ch)"
  using ch_to_step [of e _ "queue_drop k (ch_queue ch)" ch ch'] by (auto simp: dropped_def ch_to_def)

lemma ch_step_fits: "ch_step e bs ch ch' \<Longrightarrow> buf_fits (ch_streams ch) b \<Longrightarrow> buf_fits (ch_streams ch') b"
  by (auto simp: ch_step_def dest: counts_fits [OF returned_counts])

lemma queue_ok_expected [simp]: "queue_ok (q\<lparr>q_expected_frame_id := x\<rparr>) = queue_ok q"
  by (simp add: queue_ok_def)

lemma queue_bufs_expected [simp]: "queue_bufs (q\<lparr>q_expected_frame_id := x\<rparr>) = queue_bufs q"
  by (simp add: queue_bufs_def)

lemma flush_expected_runs:
  assumes "queue_ok (ch_queue ch)" and "bufs_fit ch"
  shows "runs (mm_channel_superbuf_flush e (set_queue ((ch_queue ch)\<lparr>q_expected_frame_id := x\<rparr>) ch) w) (\<lambda>(ch', w').
    ch_step e (queue_bufs (ch_queue ch)) ch ch' \<and>
    ch_queue ch' = queue_drop (length (q_que (ch_queue ch))) ((ch_queue ch)\<lparr>q_expected_frame_id := x\<rparr>))"
proof -
  let ?ch = "set_queue ((ch_queue ch)\<lparr>q_expected_frame_id := x\<rparr>) ch"
  have r: "runs (mm_channel_superbuf_flush e ?ch w) (\<lambda>(ch', w'). dropped e (length (q_que (ch_queue ?ch))) ?ch ch')"
    by (rule flush_runs) (use assms in \<open>simp_all add: bufs_fit_def\<close>)
  have q: "ch_step e (queue_bufs (ch_queue ch)) ch ch' \<and>
      ch_queue ch' = queue_drop (length (q_que (ch_queue ch))) ((ch_queue ch)\<lparr>q_expected_frame_id := x\<rparr>)"
    if "dropped e (length (q_que (ch_queue ?ch))) ?ch ch'" for ch'
  proof -
    note d = dropped_step [OF that]
    then show ?thesis
      using ch_step_trans [OF ch_step_same(2) [of e ch "(ch_queue ch)\<lparr>q_expected_frame_id := x\<rparr>"] conjunct1 [OF d]]
      by (simp add: queue_bufs_def)
  qed
  show ?thesis by (rule runs_mono [OF r]) (use q in blast)
qed

lemma metadata_runs:
  assumes "queue_ok (ch_queue ch)" and "bufs_fit ch" and "bi_buf bi = Some b"
  shows "runs (mm_channel_handle_metadata e bi ch w) (\<lambda>(rc, ch', w'). rc = -1 \<and> ch' = ch \<or>
    rc = 0 \<and> (\<exists>bs. ch_step e bs ch ch' \<and> metadata_spec (ch_queue ch) bs (ch_queue ch')))"
proof -
  have x: "metadata_spec (ch_queue ch) [] ((ch_queue ch)\<lparr>q_expected_frame_id := x\<rparr>)" for x
    unfolding metadata_spec_def by (rule exI [of _ x]) simp
  have same: "metadata_spec (ch_queue ch) [] (ch_queue ch)"
    using x [of "q_expected_frame_id (ch_queue ch)"] by simp
  have flush: "runs (mm_channel_superbuf_flush e (set_queue ((ch_queue ch)\<lparr>q_expected_frame_id := x\<rparr>) ch) w)
      (\<lambda>(ch', w'). \<exists>bs. ch_step e bs ch (ch'\<lparr>ch_needLEDFlash := True\<rparr>) \<and> metadata_spec (ch_queue ch) bs (ch_queue ch'))" for x
    by (rule runs_mono [OF flush_expected_runs [OF assms(1,2)]])
      (use ch_step_trans [OF _ ch_step_same(3)] in \<open>fastforce simp: metadata_spec_def\<close>)
  have ex: "\<exists>bs. ch_step e bs ch ch \<and> metadata_spec (ch_queue ch) bs (ch_queue ch)"
    "\<exists>bs. ch_step e bs ch (ch\<lparr>ch_needLEDFlash := led\<rparr>) \<and> metadata_spec (ch_queue ch) bs (ch_queue ch)"
    "\<exists>bs. ch_step e bs ch (set_queue ((ch_queue ch)\<lparr>q_expected_frame_id := y\<rparr>) ch) \<and>
      metadata_spec (ch_queue ch) bs ((ch_queue ch)\<lparr>q_expected_frame_id := y\<rparr>)" for led y
    using same x ch_step_same by blast+
  show ?thesis
    using assms(3) ex flush [of "q_expected_frame_id (ch_queue ch) + 100"]
    by (auto simp: mm_channel_handle_metadata_def Let_def case_prod_unfold split: option.split)
qed


lemma metadata_spec_ok:
  assumes "metadata_spec q bs q0" and "queue_ok q"
  shows "queue_ok q0" and "queue_bufs q = bs @ queue_bufs q0" and "q_num_streams q0 = q_num_streams q"
    and "q_bundled_streams q0 = q_bundled_streams q" and "q_attr q0 = q_attr q" and "set (q_que q0) \<subseteq> set (q_que q)"
    and "unat (q_match_cnt q0) \<le> unat (q_match_cnt q)"
proof -
  obtain x where x: "bs = [] \<and> q0 = q\<lparr>q_expected_frame_id := x\<rparr> \<or>
     bs = queue_bufs q \<and> q0 = queue_drop (length (q_que q)) (q\<lparr>q_expected_frame_id := x\<rparr>)"
    using assms(1) by (auto simp: metadata_spec_def)
  then show ok: "queue_ok q0" using assms(2) queue_ok_drop [of "q\<lparr>q_expected_frame_id := x\<rparr>" "length (q_que q)"] by auto
  show "queue_bufs q = bs @ queue_bufs q0" "q_num_streams q0 = q_num_streams q"
    "q_bundled_streams q0 = q_bundled_streams q" "q_attr q0 = q_attr q" "set (q_que q0) \<subseteq> set (q_que q)"
    using x by (auto simp: queue_bufs_def)
  have "length (filter qn_matched (q_que q0)) \<le> length (filter qn_matched (q_que q))"
    using x by auto
  then show "unat (q_match_cnt q0) \<le> unat (q_match_cnt q)" using ok assms(2) by (simp add: queue_ok_def)
qed

definition arrival_spec :: "mm_camera_buf_info_t \<Rightarrow> mm_channel_queue_t \<Rightarrow> mm_camera_buf_def_t list \<Rightarrow> mm_channel_queue_t \<Rightarrow> bool" where
  "arrival_spec bi q bs q' \<longleftrightarrow> (\<exists>bs0 q0 bs1. bs = bs0 @ bs1 \<and> metadata_spec q bs0 q0 \<and> frame_spec bi q0 bs1 q')"

lemma seq_comp_late: "mm_channel_util_seq_comp_w_rollover a b < 0 \<longleftrightarrow> a < b"
  by (auto simp: mm_channel_util_seq_comp_w_rollover_def)

definition frame_step :: "env \<Rightarrow> nat \<Rightarrow> mm_camera_buf_info_t \<Rightarrow> mm_channel_t \<Rightarrow> world \<Rightarrow> (mm_channel_t \<times> world) option" where
  "frame_step e i bi ch w = (if bi_frame_idx bi < q_expected_frame_id (ch_queue ch) then qbuf_ignore e (bi_buf bi) (ch, w)
     else (case superbuf_scan (bi_frame_idx bi) 0 (q_que (ch_queue ch)) 0 None None of
      (Some pos, unmatched, last_buf, insert_before) \<Rightarrow> superbuf_found e i bi pos last_buf ch w
    | (None, unmatched, last_buf, insert_before) \<Rightarrow> superbuf_not_found e i bi unmatched last_buf insert_before ch w))"

lemma comp_and_enqueue_alt:
  "mm_channel_superbuf_comp_and_enqueue e bi ch w =
     (case find_idx (\<lambda>h. bi_stream_id bi = h) (take (unat (q_num_streams (ch_queue ch))) (q_bundled_streams (ch_queue ch))) of
        None \<Rightarrow> Some (-1, ch, w)
      | Some i \<Rightarrow> do {
          (rc, ch, w) \<leftarrow> mm_channel_handle_metadata e bi ch w;
          if rc < 0 then Some (-1, ch, w) else do { (ch, w) \<leftarrow> frame_step e i bi ch w; Some (0, ch, w) }
        })"
  by (auto simp: mm_channel_superbuf_comp_and_enqueue_def frame_step_def seq_comp_late split_beta
      split: option.split intro!: Option.bind_cong)

lemma frame_runs:
  assumes "queue_ok (ch_queue ch)" and "bufs_fit ch" and "frame_ok bi b" and "buf_fits (ch_streams ch) b"
    and "i < unat (q_num_streams (ch_queue ch))" and "bi_stream_id bi = q_bundled_streams (ch_queue ch) ! i"
  shows "runs (frame_step e i bi ch w)
    (\<lambda>(ch', w'). \<exists>bs. ch_step e bs ch ch' \<and> frame_spec bi (ch_queue ch) bs (ch_queue ch'))"
proof (cases "bi_frame_idx bi < q_expected_frame_id (ch_queue ch)")
  case True
  have b: "bi_buf bi = Some b" using assms(3) by (simp add: frame_ok_def)
  then have ex: "\<exists>bs. ch_step e bs ch ch' \<and> frame_spec bi (ch_queue ch) bs (ch_queue ch')" if "ch_to e [b] (ch_queue ch) ch ch'" for ch'
    using ch_to_step [OF that] True by (auto simp: frame_spec_def)
  show ?thesis
    by (simp only: frame_step_def True if_True b) (rule runs_mono [OF qbuf_to_runs [OF assms(4)]], use ex in blast)
next
  case False
  have ex: "\<exists>bs. ch_step e bs ch ch' \<and> frame_spec bi (ch_queue ch) bs (ch_queue ch')"
    if to: "\<exists>bs. ch_to e bs (ch_queue ch') ch ch' \<and> enqueue_spec i bi (ch_queue ch) bs (ch_queue ch')" for ch'
  proof -
    obtain bs where bs: "ch_to e bs (ch_queue ch') ch ch'" "enqueue_spec i bi (ch_queue ch) bs (ch_queue ch')"
      using to by blast
    have "frame_spec bi (ch_queue ch) bs (ch_queue ch')"
      unfolding frame_spec_def using bs(2) False assms(5,6) by (intro disjI2) (auto simp: not_less)
    then show ?thesis using ch_to_step [OF bs(1)] by blast
  qed
  show ?thesis
    by (simp only: frame_step_def False if_False) (rule runs_mono [OF enqueue_runs [OF assms(1-4)]], use ex in blast)
qed

lemma comp_and_enqueue_runs:
  assumes "queue_ok (ch_queue ch)" and "bufs_fit ch" and "frame_ok bi b" and "buf_fits (ch_streams ch) b"
  shows "runs (mm_channel_superbuf_comp_and_enqueue e bi ch w) (\<lambda>(rc, ch', w'). rc = -1 \<and> ch' = ch \<or>
    rc = 0 \<and> (\<exists>bs. ch_step e bs ch ch' \<and> arrival_spec bi (ch_queue ch) bs (ch_queue ch')))"
proof -
  let ?find = "find_idx (\<lambda>h. bi_stream_id bi = h) (take (unat (q_num_streams (ch_queue ch))) (q_bundled_streams (ch_queue ch)))"
  show ?thesis
  proof (cases ?find)
    case None
    then show ?thesis by (simp add: mm_channel_superbuf_comp_and_enqueue_def)
  next
    case (Some i)
    then have i: "i < unat (q_num_streams (ch_queue ch))" "bi_stream_id bi = q_bundled_streams (ch_queue ch) ! i"
      using find_idxD [OF Some] by auto
    have b: "bi_buf bi = Some b" using assms(3) by (simp add: frame_ok_def)
    have step: "\<exists>bs. ch_step e bs ch ch' \<and> arrival_spec bi (ch_queue ch) bs (ch_queue ch')"
      if "ch_step e bs0 ch ch1" "metadata_spec (ch_queue ch) bs0 (ch_queue ch1)"
        "\<exists>bs. ch_step e bs ch1 ch' \<and> frame_spec bi (ch_queue ch1) bs (ch_queue ch')" for bs0 ch1 ch'
      using that ch_step_trans unfolding arrival_spec_def by blast
    have fr: "runs (frame_step e i bi ch1 w1)
        (\<lambda>(ch', w'). \<exists>bs. ch_step e bs ch ch' \<and> arrival_spec bi (ch_queue ch) bs (ch_queue ch'))"
      if m: "ch_step e bs0 ch ch1" "metadata_spec (ch_queue ch) bs0 (ch_queue ch1)" for bs0 ch1 w1
    proof (rule runs_mono [OF frame_runs])
      note ok = metadata_spec_ok [OF m(2) assms(1)]
      show "queue_ok (ch_queue ch1)" "frame_ok bi b" "buf_fits (ch_streams ch1) b"
        "i < unat (q_num_streams (ch_queue ch1))" "bi_stream_id bi = q_bundled_streams (ch_queue ch1) ! i"
        using ok ch_step_fits [OF m(1) assms(4)] assms(3) i by simp_all
      show "bufs_fit ch1" using assms(2) ok(2) ch_step_fits [OF m(1)] by (simp add: bufs_fit_def)
    qed (use step [OF m] in blast)
    show ?thesis
      unfolding comp_and_enqueue_alt Some option.case runs_bind [of "mm_channel_handle_metadata e bi ch w"]
      by (intro runs_mono [OF metadata_runs [OF assms(1,2) b]]) (auto intro: fr)
  qed
qed

end
