(* ===== verification/Superbuf_Spec.thy ===== *)
theory Superbuf_Spec
  imports Superbuf_Match "HOL-Library.Multiset"
begin

text \<open>
  What the arrival of a frame keeps: the shape of the queue, the number of waiting
  superbuffers, and every buffer, which is either in the queue or has been returned.
\<close>

section \<open>Nodes\<close>

lemma mset_map_filter_update:
  assumes "i < length xs" and "g (xs ! i) = None" and "g x = Some b"
  shows "mset (List.map_filter g (xs[i := x])) = add_mset b (mset (List.map_filter g xs))"
  using assms
proof (induction xs arbitrary: i)
  case (Cons y ys)
  then show ?case by (cases i) (auto simp: List.map_filter_def split: option.split)
qed simp

lemma set_map_filter_update: "set (List.map_filter g (xs[i := x])) \<subseteq> set_option (g x) \<union> set (List.map_filter g xs)"
  using set_update_subset_insert [of xs i x] by (force simp: List.map_filter_def)

lemma map_filter_replicate_None: "g x = None \<Longrightarrow> List.map_filter g (replicate n x) = []"
  by (induction n) (simp_all add: map_filter_simps)

lemma fill_node_simps [simp]:
  "qn_frame_idx (fill_node i bi n) = qn_frame_idx n" "qn_num_of_bufs (fill_node i bi n) = qn_num_of_bufs n"
  "qn_super_buf (fill_node i bi n) = (qn_super_buf n)[i := bi]"
  by (simp_all add: fill_node_def Let_def)

lemma new_node_simps [simp]:
  "qn_frame_idx (new_queue_node k i bi) = bi_frame_idx bi" "qn_num_of_bufs (new_queue_node k i bi) = k"
  "qn_matched (new_queue_node k i bi) = (k = 1)"
  by (simp_all add: new_queue_node_def)

lemma node_bufs_fill:
  assumes "node_ok k hs n" and "i < unat k" and "unat k \<le> MAX_STREAM_NUM_IN_BUNDLE" and "bi_buf bi = Some b"
  shows "set (node_bufs (fill_node i bi n)) \<subseteq> insert b (set (node_bufs n))"
    and "bi_buf (qn_super_buf n ! i) = None \<Longrightarrow> mset (node_bufs (fill_node i bi n)) = add_mset b (mset (node_bufs n))"
proof -
  have t: "take (unat k) ((qn_super_buf n)[i := bi]) = (take (unat k) (qn_super_buf n))[i := bi]"
    by (simp add: take_update_swap)
  show "set (node_bufs (fill_node i bi n)) \<subseteq> insert b (set (node_bufs n))"
    using set_map_filter_update [of bi_buf "take (unat k) (qn_super_buf n)" i bi] assms(1,4)
    by (simp add: node_bufs_def node_ok_def t)
  show "mset (node_bufs (fill_node i bi n)) = add_mset b (mset (node_bufs n))" if "bi_buf (qn_super_buf n ! i) = None"
    using mset_map_filter_update [of i "take (unat k) (qn_super_buf n)" bi_buf bi b] assms that
    by (simp add: node_bufs_def node_ok_def t)
qed

lemma node_bufs_new:
  assumes "i < unat k" and "unat k \<le> MAX_STREAM_NUM_IN_BUNDLE" and "bi_buf bi = Some b"
  shows "node_bufs (new_queue_node k i bi) = [b]"
proof -
  let ?zs = "replicate (unat k) zero_buf_info"
  have "take (unat k) ((replicate MAX_STREAM_NUM_IN_BUNDLE zero_buf_info)[i := bi]) = ?zs[i := bi]"
    using assms(2) by (simp add: take_update_swap)
  moreover have "mset (List.map_filter bi_buf (?zs[i := bi])) = {#b#}"
    using mset_map_filter_update [of i ?zs bi_buf bi b] assms(1,3)
    by (simp add: map_filter_replicate_None zero_buf_info_def)
  ultimately show ?thesis by (simp add: node_bufs_def new_queue_node_def)
qed

lemma node_ok_fill:
  assumes "node_ok k hs n" and "i < unat k" and "unat k \<le> MAX_STREAM_NUM_IN_BUNDLE" and "slot_ok hs (qn_frame_idx n) i bi"
  shows "node_ok k hs (fill_node i bi n)"
proof -
  have s: "slot_ok hs (qn_frame_idx n) j ((qn_super_buf n)[i := bi] ! j)" if "j < unat k" for j
    using assms that by (cases "j = i") (auto simp: node_ok_def)
  have "bi_buf ((qn_super_buf n)[i := bi] ! j) \<noteq> None" if "qn_matched (fill_node i bi n)" "j < unat k" for j
  proof -
    have "(qn_super_buf n)[i := bi] ! j \<in> set (take (unat k) ((qn_super_buf n)[i := bi]))"
      using that(2) assms(1,3) by (auto simp: in_take_nth node_ok_def)
    then have "bi_frame_idx ((qn_super_buf n)[i := bi] ! j) \<noteq> 0"
      using that(1) assms(1) by (auto simp: fill_node_def node_complete_def node_ok_def Let_def)
    then show ?thesis using s [OF that(2)] by (auto simp: slot_ok_def zero_buf_info_def)
  qed
  then show ?thesis using s assms(1) by (simp add: node_ok_def)
qed

lemma node_ok_new:
  assumes "i < unat k" and "unat k \<le> MAX_STREAM_NUM_IN_BUNDLE" and "slot_ok hs (bi_frame_idx bi) i bi" and "bi_buf bi \<noteq> None"
  shows "node_ok k hs (new_queue_node k i bi)"
proof -
  have "j = i" if "k = 1" "j < unat k" for j using that assms(1) by simp
  then show ?thesis
    using assms by (auto simp: node_ok_def new_queue_node_def nth_list_update slot_ok_def)
qed


section \<open>The queue\<close>

lemma queue_okI:
  assumes "unat (q_num_streams q) \<le> MAX_STREAM_NUM_IN_BUNDLE" and "length (q_bundled_streams q) = MAX_STREAM_NUM_IN_BUNDLE"
    and "q_que q = ms @ us" and "\<forall>n \<in> set ms. qn_matched n" and "\<forall>n \<in> set us. \<not> qn_matched n" and "sorted_wrt frame_less us"
    and "\<forall>n \<in> set (ms @ us). node_ok (q_num_streams q) (q_bundled_streams q) n" and "q_num_streams q = 1 \<longrightarrow> us = []"
    and "unat (q_match_cnt q) = length ms" and "q_size q = of_nat (length ms + length us)"
  shows "queue_ok q"
proof -
  have "filter qn_matched ms = ms" "filter qn_matched us = []" using assms(4,5) by (simp_all add: filter_id_conv filter_empty_conv)
  moreover have "queue_shape (q_que q)" unfolding queue_shape_def using assms(3-6) by blast
  ultimately show ?thesis using assms by (auto simp: queue_ok_def)
qed

lemma split_facts:
  assumes "queue_split f (q_que q) ms lo hi" and "queue_ok q"
  shows "q_que q = ms @ lo @ hi" and "\<forall>n \<in> set ms. qn_matched n" and "\<forall>n \<in> set (lo @ hi). \<not> qn_matched n"
    and "sorted_wrt frame_less (lo @ hi)" and "\<forall>n \<in> set lo. qn_frame_idx n < f"
    and "unat (q_match_cnt q) = length ms" and "q_size q = of_nat (length ms) + of_nat (length lo) + of_nat (length hi)"
    and "q_num_streams q = 1 \<Longrightarrow> lo @ hi = []"
    and "\<forall>n \<in> set (ms @ lo @ hi). node_ok (q_num_streams q) (q_bundled_streams q) n"
    and "unat (q_num_streams q) \<le> MAX_STREAM_NUM_IN_BUNDLE" and "length (q_bundled_streams q) = MAX_STREAM_NUM_IN_BUNDLE"
proof -
  show s: "q_que q = ms @ lo @ hi" "\<forall>n \<in> set ms. qn_matched n" "\<forall>n \<in> set (lo @ hi). \<not> qn_matched n"
    "sorted_wrt frame_less (lo @ hi)" "\<forall>n \<in> set lo. qn_frame_idx n < f"
    using assms(1) by (auto simp: queue_split_def)
  have "filter qn_matched (ms @ lo @ hi) = ms" using s(2,3) by (simp add: filter_id_conv filter_empty_conv)
  then show "unat (q_match_cnt q) = length ms" using assms(2) s(1) by (simp add: queue_ok_def)
  show "q_size q = of_nat (length ms) + of_nat (length lo) + of_nat (length hi)"
    using assms(2) s(1) by (simp add: queue_ok_def)
  show "q_num_streams q = 1 \<Longrightarrow> lo @ hi = []"
    using assms(2) s(1,3) by (cases "lo @ hi") (auto simp: queue_ok_def Cons_eq_append_conv)
  show "\<forall>n \<in> set (ms @ lo @ hi). node_ok (q_num_streams q) (q_bundled_streams q) n"
    "unat (q_num_streams q) \<le> MAX_STREAM_NUM_IN_BUNDLE" "length (q_bundled_streams q) = MAX_STREAM_NUM_IN_BUNDLE"
    using assms(2) s(1) by (auto simp: queue_ok_def)
qed

lemma cut_simps [simp]:
  "q_num_streams (queue_cut ns k q) = q_num_streams q" "q_bundled_streams (queue_cut ns k q) = q_bundled_streams q"
  "q_attr (queue_cut ns k q) = q_attr q" "q_match_cnt (queue_cut ns k q) = q_match_cnt q"
  "q_size (queue_cut ns k q) = q_size q - of_nat k" "q_expected_frame_id (queue_cut ns k q) = q_expected_frame_id q"
  by (simp_all add: queue_cut_def)

lemma bump_simps [simp]:
  "q_num_streams (bump bi q) = q_num_streams q" "q_bundled_streams (bump bi q) = q_bundled_streams q"
  "q_attr (bump bi q) = q_attr q" "q_que (bump bi q) = q_que q" "q_size (bump bi q) = q_size q"
  "q_match_cnt (bump bi q) = q_match_cnt q + 1"
  by (simp_all add: bump_def)

lemma ins_simps [simp]:
  "q_num_streams (queue_ins i bi xs ys q) = q_num_streams q" "q_bundled_streams (queue_ins i bi xs ys q) = q_bundled_streams q"
  "q_attr (queue_ins i bi xs ys q) = q_attr q" "q_que (queue_ins i bi xs ys q) = xs @ new_queue_node (q_num_streams q) i bi # ys"
  "q_size (queue_ins i bi xs ys q) = q_size q + 1"
  "q_match_cnt (queue_ins i bi xs ys q) = (if q_num_streams q = 1 then q_match_cnt q + 1 else q_match_cnt q)"
  by (simp_all add: queue_ins_def Let_def)

lemma sorted_insert:
  assumes "sorted_wrt frame_less (lo @ hi)" and "\<forall>n \<in> set lo. qn_frame_idx n < qn_frame_idx x" and "\<forall>n \<in> set hi. qn_frame_idx x < qn_frame_idx n"
  shows "sorted_wrt frame_less (drop k lo @ x # hi)"
  using assms by (auto simp: sorted_wrt_append sorted_wrt_drop dest: in_set_dropD)

lemma frame_slot_ok: "frame_ok bi b \<Longrightarrow> bi_stream_id bi = hs ! i \<Longrightarrow> slot_ok hs (bi_frame_idx bi) i bi"
  by (auto simp: slot_ok_def frame_ok_def)

lemma enqueue_spec_ok:
  assumes "enqueue_spec i bi q bs q'" and "queue_ok q" and "frame_ok bi b" and "i < unat (q_num_streams q)"
    and "bi_stream_id bi = q_bundled_streams q ! i" and "unat (q_match_cnt q) + 1 < 2 ^ 32"
  shows "queue_ok q'"
  using assms(1)
proof cases
  case (complete ms lo n hi)
  note s = split_facts [OF complete(3) assms(2)]
  have "\<not> qn_matched n" using s(3) by simp
  then have "q_num_streams q \<noteq> 1" using s(8) by auto
  moreover have "node_ok (q_num_streams q) (q_bundled_streams q) (fill_node i bi n)"
    by (rule node_ok_fill) (use s(9,10) assms(4) frame_slot_ok [OF assms(3,5)] complete(4) in auto)
  ultimately show ?thesis
    using s complete(2,5) assms(6) unat_plus_1 [of "q_match_cnt q"]
    by (intro queue_okI [of _ "ms @ [fill_node i bi n]" hi]) (auto simp: sorted_wrt_append)
next
  case (partial ms lo n hi)
  note s = split_facts [OF partial(3) assms(2)]
  have "node_ok (q_num_streams q) (q_bundled_streams q) (fill_node i bi n)"
    by (rule node_ok_fill) (use s(9,10) assms(4) frame_slot_ok [OF assms(3,5)] partial(4) in auto)
  then show ?thesis
    using s partial(2,5) by (intro queue_okI [of _ ms "lo @ fill_node i bi n # hi"]) (auto simp: sorted_wrt_append)
next
  case (insert ms lo hi k)
  note s = split_facts [OF insert(3) assms(2)]
  let ?n = "new_queue_node (q_num_streams q) i bi"
  have n: "node_ok (q_num_streams q) (q_bundled_streams q) ?n"
    by (rule node_ok_new) (use s(10) assms(3,4) frame_slot_ok [OF assms(3,5)] in \<open>auto simp: frame_ok_def\<close>)
  have sz: "(of_nat (length lo) :: 32 word) - of_nat k = of_nat (length (drop k lo))"
    using insert(5) by (simp add: of_nat_diff)
  show ?thesis
  proof (cases "q_num_streams q = 1")
    case True
    then show ?thesis
      using s(1-7) s(8) [OF True] s(9-11) n insert(2,5) assms(6) unat_plus_1 [of "q_match_cnt q"]
      by (intro queue_okI [of _ "ms @ [?n]" "[]"]) auto
  next
    case False
    have "sorted_wrt frame_less (drop k lo @ ?n # hi)"
      by (rule sorted_insert) (use s(4,5) insert(4) in auto)
    then show ?thesis
      using False s n sz insert(2) by (intro queue_okI [of _ ms "drop k lo @ ?n # hi"])
        (auto simp: algebra_simps dest: in_set_dropD)
  qed
next
  case (refuse ms lo hi k b')
  note s = split_facts [OF refuse(3) assms(2)]
  have sz: "(of_nat (length lo) :: 32 word) - of_nat k = of_nat (length (drop k lo))"
    using refuse(5) by (simp add: of_nat_diff)
  have "sorted_wrt frame_less (drop k lo @ hi)" using s(4) by (auto simp: sorted_wrt_append sorted_wrt_drop dest: in_set_dropD)
  then show ?thesis
    using s sz refuse(2) by (intro queue_okI [of _ ms "drop k lo @ hi"]) (auto simp: algebra_simps dest: in_set_dropD)
qed


lemma enqueue_spec_keeps:
  assumes "enqueue_spec i bi q bs q'"
  shows "q_num_streams q' = q_num_streams q" and "q_bundled_streams q' = q_bundled_streams q" and "q_attr q' = q_attr q"
    and "q_match_cnt q' = q_match_cnt q \<or> q_match_cnt q' = q_match_cnt q + 1"
  using assms by (cases; auto)+

subsection \<open>Every buffer is accounted for\<close>

text \<open>The frame numbers in the queue are not 0, and no frame of the stream with this number waits already.\<close>

definition frames_nz :: "mm_channel_queue_t \<Rightarrow> bool" where
  "frames_nz q \<longleftrightarrow> (\<forall>n \<in> set (q_que q). qn_frame_idx n \<noteq> 0)"

definition frame_fresh :: "mm_camera_buf_info_t \<Rightarrow> mm_channel_queue_t \<Rightarrow> bool" where
  "frame_fresh bi q \<longleftrightarrow> (\<forall>b \<in> set (queue_bufs q). \<not> (b_stream_id b = bi_stream_id bi \<and> b_frame_idx b = bi_frame_idx bi))"

lemma concat_node_ret:
  assumes "\<forall>n \<in> set ns. node_ok k hs n \<and> qn_frame_idx n \<noteq> 0" and "unat k \<le> MAX_STREAM_NUM_IN_BUNDLE"
  shows "concat (map node_ret ns) = concat (map node_bufs ns)"
  using assms node_ret_all by (induction ns) auto

lemma slot_empty:
  assumes "node_ok k hs n" and "i < unat k" and "unat k \<le> MAX_STREAM_NUM_IN_BUNDLE" and "qn_frame_idx n = f"
    and "\<And>b. b \<in> set (node_bufs n) \<Longrightarrow> \<not> (b_stream_id b = hs ! i \<and> b_frame_idx b = f)"
  shows "bi_buf (qn_super_buf n ! i) = None"
proof (rule ccontr)
  assume "bi_buf (qn_super_buf n ! i) \<noteq> None"
  then obtain b where b: "bi_buf (qn_super_buf n ! i) = Some b" by auto
  have "slot_ok hs f i (qn_super_buf n ! i)" using assms(1,2,4) by (auto simp: node_ok_def)
  then have "b_stream_id b = hs ! i \<and> b_frame_idx b = f" using b by (auto simp: slot_ok_def zero_buf_info_def)
  moreover have "qn_super_buf n ! i \<in> set (take (unat (qn_num_of_bufs n)) (qn_super_buf n))"
    using assms(1-3) by (auto simp: in_take_nth node_ok_def)
  then have "b \<in> set (node_bufs n)" using b by (force simp: node_bufs_def List.map_filter_def)
  ultimately show False using assms(5) by blast
qed

lemma concat_take_drop: "concat (map g xs) = concat (map g (take k xs)) @ concat (map g (drop k xs))"
  by (simp flip: concat_append map_append)

lemma enqueue_spec_conserves:
  assumes "enqueue_spec i bi q bs q'" and "queue_ok q" and "frame_ok bi b" and "i < unat (q_num_streams q)"
    and "bi_stream_id bi = q_bundled_streams q ! i" and "frames_nz q" and "frame_fresh bi q"
  shows "mset bs + mset (queue_bufs q') = add_mset b (mset (queue_bufs q))"
  using assms(1)
proof cases
  case (complete ms lo n hi)
  note s = split_facts [OF complete(3) assms(2)]
  have lo: "concat (map node_ret lo) = concat (map node_bufs lo)"
    by (rule concat_node_ret [where k = "q_num_streams q" and hs = "q_bundled_streams q"]) (use s(1,9,10) assms(6) in \<open>auto simp: frames_nz_def\<close>)
  have "mset (node_bufs (fill_node i bi n)) = add_mset b (mset (node_bufs n))"
    by (rule node_bufs_fill(2) [where k = "q_num_streams q" and hs = "q_bundled_streams q"], goal_cases)
      (use s(1,9,10) assms(3-5,7) complete(4) in
        \<open>auto simp: frame_ok_def frame_fresh_def queue_bufs_def intro!: slot_empty [where f = "bi_frame_idx bi"]\<close>)
  then show ?thesis using complete(1,2) s(1) lo by (simp add: queue_bufs_def)
next
  case (partial ms lo n hi)
  note s = split_facts [OF partial(3) assms(2)]
  have "mset (node_bufs (fill_node i bi n)) = add_mset b (mset (node_bufs n))"
    by (rule node_bufs_fill(2) [where k = "q_num_streams q" and hs = "q_bundled_streams q"], goal_cases)
      (use s(1,9,10) assms(3-5,7) partial(4) in
        \<open>auto simp: frame_ok_def frame_fresh_def queue_bufs_def intro!: slot_empty [where f = "bi_frame_idx bi"]\<close>)
  then show ?thesis using partial(1,2) s(1) by (simp add: queue_bufs_def)
next
  case (insert ms lo hi k)
  note s = split_facts [OF insert(3) assms(2)]
  have lo: "concat (map node_ret (take k lo)) = concat (map node_bufs (take k lo))"
    by (rule concat_node_ret [where k = "q_num_streams q" and hs = "q_bundled_streams q"])
      (use s(1,9,10) assms(6) in \<open>auto simp: frames_nz_def dest: in_set_takeD\<close>)
  have "node_bufs (new_queue_node (q_num_streams q) i bi) = [b]"
    by (rule node_bufs_new) (use s(10) assms(3,4) in \<open>auto simp: frame_ok_def\<close>)
  then show ?thesis
    using insert(1,2) s(1) lo concat_take_drop [of node_bufs lo k] by (simp add: queue_bufs_def)
next
  case (refuse ms lo hi k b')
  note s = split_facts [OF refuse(3) assms(2)]
  have lo: "concat (map node_ret (take k lo)) = concat (map node_bufs (take k lo))"
    by (rule concat_node_ret [where k = "q_num_streams q" and hs = "q_bundled_streams q"])
      (use s(1,9,10) assms(6) in \<open>auto simp: frames_nz_def dest: in_set_takeD\<close>)
  then show ?thesis
    using refuse(1,2,7) s(1) assms(3) concat_take_drop [of node_bufs lo k] by (simp add: queue_bufs_def frame_ok_def)
qed

lemma enqueue_spec_subset:
  assumes "enqueue_spec i bi q bs q'" and "queue_ok q" and "frame_ok bi b" and "i < unat (q_num_streams q)"
  shows "set (queue_bufs q') \<subseteq> insert b (set (queue_bufs q))"
  using assms(1)
proof cases
  case (complete ms lo n hi)
  note s = split_facts [OF complete(3) assms(2)]
  have "set (node_bufs (fill_node i bi n)) \<subseteq> insert b (set (node_bufs n))"
    by (rule node_bufs_fill(1)) (use s(9,10) assms(3,4) in \<open>auto simp: frame_ok_def\<close>)
  then show ?thesis using complete(2) s(1) by (auto simp: queue_bufs_def)
next
  case (partial ms lo n hi)
  note s = split_facts [OF partial(3) assms(2)]
  have "set (node_bufs (fill_node i bi n)) \<subseteq> insert b (set (node_bufs n))"
    by (rule node_bufs_fill(1)) (use s(9,10) assms(3,4) in \<open>auto simp: frame_ok_def\<close>)
  then show ?thesis using partial(2) s(1) by (auto simp: queue_bufs_def)
next
  case (insert ms lo hi k)
  note s = split_facts [OF insert(3) assms(2)]
  have "node_bufs (new_queue_node (q_num_streams q) i bi) = [b]"
    by (rule node_bufs_new) (use s(10) assms(3,4) in \<open>auto simp: frame_ok_def\<close>)
  then show ?thesis using insert(2) s(1) by (auto simp: queue_bufs_def dest: in_set_dropD)
next
  case (refuse ms lo hi k b')
  note s = split_facts [OF refuse(3) assms(2)]
  then show ?thesis using refuse(2) by (auto simp: queue_bufs_def dest: in_set_dropD)
qed

subsection \<open>Few superbuffers wait\<close>

definition waiting :: "mm_channel_queue_t \<Rightarrow> nat" where
  "waiting q = length (filter (\<lambda>n. \<not> qn_matched n) (q_que q))"

lemma waiting_split:
  assumes "\<forall>n \<in> set ms. qn_matched n" and "\<forall>n \<in> set us. \<not> qn_matched n" and "q_que q = ms @ us"
  shows "waiting q = length us"
  using assms by (simp add: waiting_def filter_id_conv filter_empty_conv)

lemma enqueue_spec_waiting:
  assumes "enqueue_spec i bi q bs q'" and "queue_ok q"
    and "waiting q \<le> unat (max_unmatched_frames (q_attr q)) + 1" and "unat (max_unmatched_frames (q_attr q)) < 255"
  shows "waiting q' \<le> unat (max_unmatched_frames (q_attr q)) + 1"
  using assms(1)
proof cases
  case (complete ms lo n hi)
  note s = split_facts [OF complete(3) assms(2)]
  have "waiting q = length (lo @ n # hi)" by (rule waiting_split) (use s(1-3) in auto)
  moreover have "waiting q' = length hi"
    by (rule waiting_split [of "ms @ [fill_node i bi n]"]) (use s(1-3) complete in auto)
  ultimately show ?thesis using assms(3) by simp
next
  case (partial ms lo n hi)
  note s = split_facts [OF partial(3) assms(2)]
  have "waiting q = length (lo @ n # hi)" by (rule waiting_split) (use s(1-3) in auto)
  moreover have "waiting q' = length (lo @ fill_node i bi n # hi)" by (rule waiting_split) (use s(1-3) partial in auto)
  ultimately show ?thesis using assms(3) by simp
next
  case (insert ms lo hi k)
  note s = split_facts [OF insert(3) assms(2)]
  have w: "waiting q = length (lo @ hi)" by (rule waiting_split) (use s(1-3) in auto)
  then have u: "unat (of_nat (length (lo @ hi)) :: 8 word) = length (lo @ hi)"
    unfolding unat_of_nat using assms(3,4) by simp
  have "max_unmatched_frames (q_attr q) < of_nat (length (lo @ hi)) \<longleftrightarrow> unat (max_unmatched_frames (q_attr q)) < length (lo @ hi)"
    unfolding word_less_nat_alt u ..
  moreover have "waiting q' \<le> length (drop k lo @ hi) + 1"
    using s(2,3) insert(2) by (auto simp: waiting_def filter_empty_conv intro: le_trans [OF length_filter_le])
  ultimately show ?thesis using w assms(3) insert(5,6) by (auto split: if_splits)
next
  case (refuse ms lo hi k b')
  note s = split_facts [OF refuse(3) assms(2)]
  have "waiting q = length (lo @ hi)" by (rule waiting_split) (use s(1-3) in auto)
  moreover have "waiting q' = length (drop k lo @ hi)"
    by (rule waiting_split) (use s(1-3) refuse in \<open>auto dest: in_set_dropD\<close>)
  ultimately show ?thesis using assms(3) by simp
qed


lemma enqueue_spec_nz:
  assumes "enqueue_spec i bi q bs q'" and "frames_nz q" and "bi_frame_idx bi \<noteq> 0"
  shows "frames_nz q'"
  using assms by (cases) (auto simp: frames_nz_def queue_split_def dest: in_set_dropD)

section \<open>The arrival of a frame\<close>

lemma frame_spec_cases:
  assumes "frame_spec bi q bs q'" and "frame_ok bi b"
  obtains (late) "bs = [b]" and "q' = q"
  | (enq) i where "i < unat (q_num_streams q)" and "bi_stream_id bi = q_bundled_streams q ! i" and "enqueue_spec i bi q bs q'"
  using assms by (auto simp: frame_spec_def frame_ok_def)

lemma arrival_spec_ok:
  assumes "arrival_spec bi q bs q'" and "queue_ok q" and "frame_ok bi b" and "unat (q_match_cnt q) + 1 < 2 ^ 32"
  shows "queue_ok q'" and "set (queue_bufs q') \<subseteq> insert b (set (queue_bufs q))" and "q_attr q' = q_attr q"
    and "unat (q_match_cnt q') \<le> unat (q_match_cnt q) + 1" and "q_num_streams q' = q_num_streams q"
    and "q_bundled_streams q' = q_bundled_streams q"
proof -
  obtain bs0 q0 bs1 where s: "metadata_spec q bs0 q0" "frame_spec bi q0 bs1 q'"
    using assms(1) by (auto simp: arrival_spec_def)
  note m = metadata_spec_ok [OF s(1) assms(2)]
  have "queue_ok q' \<and> set (queue_bufs q') \<subseteq> insert b (set (queue_bufs q)) \<and> q_attr q' = q_attr q \<and>
      unat (q_match_cnt q') \<le> unat (q_match_cnt q) + 1 \<and> q_num_streams q' = q_num_streams q \<and>
      q_bundled_streams q' = q_bundled_streams q"
    using s(2) assms(3)
  proof (cases rule: frame_spec_cases)
    case late
    then show ?thesis using m by auto
  next
    case (enq i)
    have lt: "unat (q_match_cnt q0) + 1 < 2 ^ 32" using m(7) assms(4) by simp
    have "unat (q_match_cnt q0 + 1) = unat (q_match_cnt q0) + 1" by (rule unat_plus_1) (use lt in simp)
    then show ?thesis
      using enqueue_spec_keeps [OF enq(3)] enqueue_spec_ok [OF enq(3) m(1) assms(3) enq(1,2) lt]
        enqueue_spec_subset [OF enq(3) m(1) assms(3) enq(1)] m by auto
  qed
  then show "queue_ok q'" "set (queue_bufs q') \<subseteq> insert b (set (queue_bufs q))" "q_attr q' = q_attr q"
    "unat (q_match_cnt q') \<le> unat (q_match_cnt q) + 1" "q_num_streams q' = q_num_streams q"
    "q_bundled_streams q' = q_bundled_streams q"
    by auto
qed

lemma arrival_spec_conserves:
  assumes "arrival_spec bi q bs q'" and "queue_ok q" and "frame_ok bi b" and "frames_nz q" and "frame_fresh bi q"
  shows "mset bs + mset (queue_bufs q') = add_mset b (mset (queue_bufs q))"
proof -
  obtain bs0 q0 bs1 where s: "metadata_spec q bs0 q0" "frame_spec bi q0 bs1 q'" "bs = bs0 @ bs1"
    using assms(1) by (auto simp: arrival_spec_def)
  note m = metadata_spec_ok [OF s(1) assms(2)]
  have "mset bs1 + mset (queue_bufs q') = add_mset b (mset (queue_bufs q0))"
    using s(2) assms(3)
  proof (cases rule: frame_spec_cases)
    case (enq i)
    have "frames_nz q0" "frame_fresh bi q0" using assms(4,5) m(2,6) by (auto simp: frames_nz_def frame_fresh_def)
    then show ?thesis by (rule enqueue_spec_conserves [OF enq(3) m(1) assms(3) enq(1,2)])
  qed simp
  then show ?thesis using m(2) s(3) by simp
qed

lemma arrival_spec_nz:
  assumes "arrival_spec bi q bs q'" and "queue_ok q" and "frame_ok bi b" and "frames_nz q" and "bi_frame_idx bi \<noteq> 0"
  shows "frames_nz q'"
proof -
  obtain bs0 q0 bs1 where s: "metadata_spec q bs0 q0" "frame_spec bi q0 bs1 q'"
    using assms(1) by (auto simp: arrival_spec_def)
  have "frames_nz q0" using metadata_spec_ok(6) [OF s(1) assms(2)] assms(4) by (auto simp: frames_nz_def)
  then show ?thesis
    by - (rule frame_spec_cases [OF s(2) assms(3)], use assms(5) in \<open>auto dest: enqueue_spec_nz\<close>)
qed

lemma arrival_spec_waiting:
  assumes "arrival_spec bi q bs q'" and "queue_ok q" and "frame_ok bi b"
    and "waiting q \<le> unat (max_unmatched_frames (q_attr q)) + 1" and "unat (max_unmatched_frames (q_attr q)) < 255"
  shows "waiting q' \<le> unat (max_unmatched_frames (q_attr q)) + 1"
proof -
  obtain bs0 q0 bs1 where s: "metadata_spec q bs0 q0" "frame_spec bi q0 bs1 q'"
    using assms(1) by (auto simp: arrival_spec_def)
  note m = metadata_spec_ok [OF s(1) assms(2)]
  have "waiting q0 \<le> waiting q" using s(1) by (auto simp: metadata_spec_def waiting_def)
  then show ?thesis
    by - (rule frame_spec_cases [OF s(2) assms(3)], use assms(4,5) enqueue_spec_waiting [OF _ m(1), of _ bi bs1 q'] m(5) in auto)
qed

end
