(* ===== verification/Superbuf_Notify.thy ===== *)
theory Superbuf_Notify
  imports Superbuf_Spec
begin

text \<open>
  Delivering superbuffers, and the commands of the channel thread as a whole: every command
  returns, keeps the invariant of the channel, and hands out only complete superbuffers.
\<close>

section \<open>Delivery\<close>

text \<open>The part of a channel its queue operations leave alone.\<close>

definition chan_core :: "mm_channel_t \<Rightarrow> uint32_t \<times> mm_channel_state_type_t \<times> bool \<times> mm_camera_cmd_thread_t \<times>
    mm_camera_poll_thread_t \<times> cam_obj_ref option \<times> bool \<times> nat option \<times> nat \<times> mm_camera_cmd_cb_t option" where
  "chan_core ch = (ch_my_hdl ch, ch_state ch, ch_lock ch, ch_cmd_thread ch, ch_poll_thread ch, ch_cam_obj ch,
     bd_is_active (ch_bundle ch), bd_super_buf_notify_cb (ch_bundle ch), bd_user_data (ch_bundle ch), ct_cb (ch_cb_thread ch))"

lemma chan_core_simps [simp]:
  "chan_core (set_queue q ch) = chan_core ch" "chan_core (ch\<lparr>ch_streams := ss\<rparr>) = chan_core ch"
  "chan_core (ch\<lparr>ch_pending_cnt := n\<rparr>) = chan_core ch"
  "ct_cb t = ct_cb (ch_cb_thread ch) \<Longrightarrow> chan_core (ch\<lparr>ch_cb_thread := t\<rparr>) = chan_core ch"
  "chan_core (ch\<lparr>ch_startZSlSnapshotCalled := z\<rparr>) = chan_core ch" "chan_core (ch\<lparr>ch_needLEDFlash := l\<rparr>) = chan_core ch"
  by (simp_all add: chan_core_def set_queue_def)

text \<open>The channel belongs to a camera and its callback thread has been launched.\<close>

abbreviation chan_up :: "mm_channel_t \<Rightarrow> bool" where
  "chan_up ch \<equiv> ch_cam_obj ch \<noteq> None \<and> ct_cb (ch_cb_thread ch) \<noteq> None"

lemma ch_step_core:
  assumes "ch_step e bs ch ch'"
  shows "chan_core ch' = chan_core ch" and "ch_cb_thread ch' = ch_cb_thread ch" and "ch_pending_cnt ch' = ch_pending_cnt ch"
    and "ch_startZSlSnapshotCalled ch' = ch_startZSlSnapshotCalled ch"
    and "returned e bs (ch_streams ch) (ch_streams ch')"
  using assms by (auto simp: ch_step_def)

definition ch_superbuf :: "mm_channel_t \<Rightarrow> mm_channel_queue_node_t \<Rightarrow> mm_camera_super_buf_t" where
  "ch_superbuf ch n = node_superbuf (case ch_cam_obj ch of Some cam \<Rightarrow> co_my_hdl cam | None \<Rightarrow> 0) (ch_my_hdl ch) n"

lemma ch_superbuf_core: "chan_core ch' = chan_core ch \<Longrightarrow> ch_superbuf ch' = ch_superbuf ch"
  by (simp add: ch_superbuf_def chan_core_def fun_eq_iff)

text \<open>
  The nodes \<open>ns\<close> were delivered: some of them are posted to the callback thread, in order, and the
  buffers of others are returned; with memory and a callback all of them are posted.
\<close>

definition handed :: "env \<Rightarrow> mm_channel_queue_node_t list \<Rightarrow> mm_channel_t \<Rightarrow> mm_channel_t \<Rightarrow> bool" where
  "handed e ns ch ch' \<longleftrightarrow> chan_core ch' = chan_core ch \<and>
     (\<exists>bs sbs. returned e bs (ch_streams ch) (ch_streams ch') \<and> set bs \<subseteq> set (concat (map node_bufs ns)) \<and>
        ct_cmd_queue (ch_cb_thread ch') = ct_cmd_queue (ch_cb_thread ch) @ map MM_CAMERA_CMD_TYPE_SUPER_BUF_DATA_CB sbs \<and>
        set sbs \<subseteq> ch_superbuf ch ` set ns \<and>
        (mem_ok e \<and> bd_super_buf_notify_cb (ch_bundle ch) \<noteq> None \<longrightarrow> bs = [] \<and> sbs = map (ch_superbuf ch) ns))"

lemma handed_Nil:
  assumes "chan_core ch' = chan_core ch" and "ch_streams ch' = ch_streams ch" and "ch_cb_thread ch' = ch_cb_thread ch"
  shows "handed e [] ch ch'"
  unfolding handed_def by (rule conjI [OF assms(1) exI [of _ "[]"]]) (auto simp: assms(2,3) returned.Nil)

lemma handed_append:
  assumes "handed e ns ch ch1" and "handed e ms ch1 ch2"
  shows "handed e (ns @ ms) ch ch2"
proof -
  obtain bs sbs where a: "chan_core ch1 = chan_core ch" "returned e bs (ch_streams ch) (ch_streams ch1)"
    "set bs \<subseteq> set (concat (map node_bufs ns))"
    "ct_cmd_queue (ch_cb_thread ch1) = ct_cmd_queue (ch_cb_thread ch) @ map MM_CAMERA_CMD_TYPE_SUPER_BUF_DATA_CB sbs"
    "set sbs \<subseteq> ch_superbuf ch ` set ns"
    "mem_ok e \<and> bd_super_buf_notify_cb (ch_bundle ch) \<noteq> None \<longrightarrow> bs = [] \<and> sbs = map (ch_superbuf ch) ns"
    using assms(1) unfolding handed_def by blast
  obtain cs tbs where b: "chan_core ch2 = chan_core ch1" "returned e cs (ch_streams ch1) (ch_streams ch2)"
    "set cs \<subseteq> set (concat (map node_bufs ms))"
    "ct_cmd_queue (ch_cb_thread ch2) = ct_cmd_queue (ch_cb_thread ch1) @ map MM_CAMERA_CMD_TYPE_SUPER_BUF_DATA_CB tbs"
    "set tbs \<subseteq> ch_superbuf ch1 ` set ms"
    "mem_ok e \<and> bd_super_buf_notify_cb (ch_bundle ch1) \<noteq> None \<longrightarrow> cs = [] \<and> tbs = map (ch_superbuf ch1) ms"
    using assms(2) unfolding handed_def by blast
  have "bd_super_buf_notify_cb (ch_bundle ch1) = bd_super_buf_notify_cb (ch_bundle ch)"
    using a(1) by (simp add: chan_core_def)
  then show ?thesis
    unfolding handed_def using a b returned_append [OF a(2) b(2)] ch_superbuf_core [OF a(1)]
    by (intro conjI exI [of _ "bs @ cs"] exI [of _ "sbs @ tbs"]) auto
qed

lemma node_return_all_runs:
  assumes "node_ok k hs n" and "unat k \<le> MAX_STREAM_NUM_IN_BUNDLE" and "qn_matched n"
    and "\<And>b. b \<in> set (node_bufs n) \<Longrightarrow> buf_fits (ch_streams ch) b"
  shows "runs (node_qbuf (qbuf_ignore e) (\<lambda>_. True) n (ch, w)) (ch_returned e (node_bufs n) (ch, w))"
proof -
  have "\<exists>b. bi_buf bi = Some b \<and> buf_fits (ch_streams ch) b"
    if "bi \<in> set (take (unat (qn_num_of_bufs n)) (qn_super_buf n))" for bi
  proof -
    have "bi_buf bi \<noteq> None" using \<open>bi \<in> _\<close> assms(1,3) by (auto simp: node_ok_def in_take_nth)
    then show ?thesis using \<open>bi \<in> _\<close> assms(4) by (force simp: node_bufs_def List.map_filter_def)
  qed
  then show ?thesis
    using cr.node_qbuf_runs [of n "\<lambda>_. True" "(ch, w)" e] assms(1,2) by (simp add: node_ok_def node_bufs_def)
qed

lemma deliver_runs:
  assumes "node_ok k hs n" and "unat k \<le> MAX_STREAM_NUM_IN_BUNDLE" and "qn_matched n"
    and "\<And>b. b \<in> set (node_bufs n) \<Longrightarrow> buf_fits (ch_streams ch) b" and "ch_cam_obj ch = Some cam"
    and "ct_cb (ch_cb_thread ch) \<noteq> None"
  shows "runs (deliver_node e n ch w) (\<lambda>(ch', w'). handed e [n] ch ch' \<and> ch_queue ch' = ch_queue ch \<and>
    ch_pending_cnt ch' = ch_pending_cnt ch \<and> ch_cam_obj ch' = ch_cam_obj ch)" (is "runs _ ?Q")
proof -
  have ret: "runs (node_qbuf (qbuf_ignore e) (\<lambda>_. True) n (ch, w)) ?Q"
    if "\<not> (mem_ok e \<and> bd_super_buf_notify_cb (ch_bundle ch) \<noteq> None)" for w
  proof (rule runs_mono [OF node_return_all_runs [OF assms(1-4)]])
    fix p assume "ch_returned e (node_bufs n) (ch, w) p"
    then obtain ss where ss: "fst p = ch\<lparr>ch_streams := ss\<rparr>" "returned e (node_bufs n) (ch_streams ch) ss"
      by (auto simp: ch_returned_def)
    then have "handed e [n] ch (fst p)"
      unfolding handed_def using that by (intro conjI exI [of _ "node_bufs n"] exI [of _ "[]"]) auto
    then show "?Q p" using ss by (simp add: split_beta)
  qed
  have post: "?Q (ch\<lparr>ch_cb_thread := t\<rparr>, w')"
    if "cmd_thread_post e (MM_CAMERA_CMD_TYPE_SUPER_BUF_DATA_CB (node_superbuf (co_my_hdl cam) (ch_my_hdl ch) n)) (ch_cb_thread ch) w = Some (t, w')"
    for t w w'
  proof -
    have cb: "ct_cb t = ct_cb (ch_cb_thread ch)"
      using that by (auto simp: cmd_thread_post_def Let_def split_beta split: if_splits)
    have "handed e [n] ch (ch\<lparr>ch_cb_thread := t\<rparr>)"
    proof (cases "fst (malloc e w)")
      case True
      then have t: "ct_cmd_queue t = ct_cmd_queue (ch_cb_thread ch) @ [MM_CAMERA_CMD_TYPE_SUPER_BUF_DATA_CB (ch_superbuf ch n)]"
        using that assms(5) by (auto simp: cmd_thread_post_def Let_def split_beta ch_superbuf_def split: if_splits)
      show ?thesis unfolding handed_def
        by (intro conjI exI [of _ "[]"] exI [of _ "[ch_superbuf ch n]"]) (auto simp: t cb returned.Nil)
    next
      case False
      then have t: "ct_cmd_queue t = ct_cmd_queue (ch_cb_thread ch)" and "\<not> mem_ok e"
        using that mem_okD by (auto simp: cmd_thread_post_def Let_def split_beta)
      then show ?thesis unfolding handed_def
        by (intro conjI exI [of _ "[]"] exI [of _ "[]"]) (auto simp: t cb returned.Nil)
    qed
    then show ?thesis by simp
  qed
  show ?thesis
  proof (cases "bd_super_buf_notify_cb (ch_bundle ch) \<noteq> None \<and> fst (malloc e w)")
    case True
    have "deliver_node e n ch w = do {(t, w) \<leftarrow> cmd_thread_post e (MM_CAMERA_CMD_TYPE_SUPER_BUF_DATA_CB
        (node_superbuf (co_my_hdl cam) (ch_my_hdl ch) n)) (ch_cb_thread ch) (snd (malloc e w)); Some (ch\<lparr>ch_cb_thread := t\<rparr>, w)}"
      using True assms(5) by (simp add: deliver_node_def Let_def split_beta)
    moreover obtain t w1 where p: "cmd_thread_post e (MM_CAMERA_CMD_TYPE_SUPER_BUF_DATA_CB
        (node_superbuf (co_my_hdl cam) (ch_my_hdl ch) n)) (ch_cb_thread ch) (snd (malloc e w)) = Some (t, w1)"
      using assms(6) by (auto simp: cmd_thread_post_def Let_def split_beta)
    ultimately show ?thesis using post [OF p] by (simp only: Option.bind.simps prod.case runs_Some)
  next
    case False
    then have "deliver_node e n ch w = node_qbuf (qbuf_ignore e) (\<lambda>_. True) n (ch, if bd_super_buf_notify_cb (ch_bundle ch) \<noteq> None then snd (malloc e w) else w)"
      by (auto simp: deliver_node_def Let_def split_beta)
    then show ?thesis using ret False mem_okD [of e w] by (simp only:) blast
  qed
qed

lemma count_pending_runs:
  assumes "chan_up ch"
  shows "runs (count_pending e mode ch w) (\<lambda>(ch', w'). chan_core ch' = chan_core ch \<and> ch_queue ch' = ch_queue ch \<and>
    ch_streams ch' = ch_streams ch \<and> ch_cb_thread ch' = ch_cb_thread ch \<and> ch_cam_obj ch' = ch_cam_obj ch \<and>
    ch_pending_cnt ch' = (if mode = MM_CAMERA_SUPER_BUF_NOTIFY_BURST then ch_pending_cnt ch - 1 else ch_pending_cnt ch))"
  using assms by (auto simp: count_pending_def Let_def)


text \<open>How many superbuffers a round hands out, with \<open>p\<close> requested and \<open>m\<close> matched.\<close>

definition take_cnt :: "mm_camera_super_buf_notify_mode_t \<Rightarrow> nat \<Rightarrow> nat \<Rightarrow> nat" where
  "take_cnt mode p m = (if mode = MM_CAMERA_SUPER_BUF_NOTIFY_CONTINUOUS then m
     else if mode = MM_CAMERA_SUPER_BUF_NOTIFY_BURST then min p m else if p = 0 then 0 else m)"

definition notified :: "env \<Rightarrow> mm_camera_super_buf_notify_mode_t \<Rightarrow> nat \<Rightarrow> mm_channel_t \<Rightarrow> mm_channel_t \<Rightarrow> bool" where
  "notified e mode k ch ch' \<longleftrightarrow> k \<le> length (q_que (ch_queue ch)) \<and> handed e (take k (q_que (ch_queue ch))) ch ch' \<and>
     ch_queue ch' = queue_drop k (ch_queue ch) \<and>
     ch_pending_cnt ch' = ch_pending_cnt ch - (if mode = MM_CAMERA_SUPER_BUF_NOTIFY_BURST then of_nat k else 0)"

lemma notified_0: "notified e mode 0 ch ch"
  by (simp add: notified_def handed_Nil)

lemma notified_Suc:
  assumes "q_que (ch_queue ch) = n # ns" and "handed e [n] ch ch1" and "ch_queue ch1 = queue_drop 1 (ch_queue ch)"
    and "ch_pending_cnt ch1 = (if mode = MM_CAMERA_SUPER_BUF_NOTIFY_BURST then ch_pending_cnt ch - 1 else ch_pending_cnt ch)"
    and "notified e mode k ch1 ch'"
  shows "notified e mode (Suc k) ch ch'"
  using assms handed_append [OF assms(2), of "take k ns" ch'] queue_drop_Suc [OF assms(1), of k]
  by (simp add: notified_def)

lemma dequeue_unmatched:
  assumes "queue_ok q" and "q_match_cnt q = 0"
  shows "mm_channel_superbuf_dequeue q = (None, q)"
proof -
  have "filter qn_matched (q_que q) = []" using assms by (simp add: queue_ok_def)
  then show ?thesis
    by (auto simp: mm_channel_superbuf_dequeue_def mm_channel_superbuf_dequeue_internal_def split: list.split)
qed

lemma handed_fits: "handed e ns ch ch' \<Longrightarrow> buf_fits (ch_streams ch) b \<Longrightarrow> buf_fits (ch_streams ch') b"
  by (auto simp: handed_def dest: counts_fits [OF returned_counts])

lemma notified_ok:
  assumes "notified e mode k ch ch'" and "queue_ok (ch_queue ch)" and "bufs_fit ch"
  shows "queue_ok (ch_queue ch')" and "bufs_fit ch'" and "chan_core ch' = chan_core ch"
proof -
  have k: "k \<le> length (q_que (ch_queue ch))" "handed e (take k (q_que (ch_queue ch))) ch ch'"
    "ch_queue ch' = queue_drop k (ch_queue ch)"
    using assms(1) by (auto simp: notified_def)
  show "queue_ok (ch_queue ch')" using queue_ok_drop [OF assms(2) k(1)] k(3) by simp
  show "bufs_fit ch'"
    using assms(3) set_queue_bufs_drop [of k "ch_queue ch"] handed_fits [OF k(2)] k(3) by (auto simp: bufs_fit_def)
  show "chan_core ch' = chan_core ch" using k(2) by (simp add: handed_def)
qed

lemma handed_eq:
  assumes "handed e ns ch ch'" and "chan_core ch0 = chan_core ch" and "ch_streams ch0 = ch_streams ch" and "ch_cb_thread ch0 = ch_cb_thread ch"
  shows "handed e ns ch0 ch'"
  using handed_append [OF handed_Nil [of ch ch0 e] assms(1)] assms(2-4) by simp

lemma notify_round_runs:
  assumes "queue_ok (ch_queue ch)" and "bufs_fit ch" and "chan_up ch" and "q_que (ch_queue ch) = n # ns" and "qn_matched n"
  shows "runs (do { (ch, w) \<leftarrow> count_pending e mode (set_queue (queue_drop 1 (ch_queue ch)) ch) w; deliver_node e n ch w })
    (\<lambda>(ch1, w1). notified e mode 1 ch ch1)"
proof -
  let ?ch = "set_queue (queue_drop 1 (ch_queue ch)) ch"
  have k: "node_ok (q_num_streams (ch_queue ch)) (q_bundled_streams (ch_queue ch)) n"
    "unat (q_num_streams (ch_queue ch)) \<le> MAX_STREAM_NUM_IN_BUNDLE"
    using assms(1,4) by (auto simp: queue_ok_def)
  obtain cam where cam: "ch_cam_obj ch = Some cam" using assms(3) by auto
  have "runs (deliver_node e n ch1 w1) (\<lambda>(ch', w'). notified e mode 1 ch ch')"
    if c: "chan_core ch1 = chan_core ?ch" "ch_queue ch1 = ch_queue ?ch" "ch_streams ch1 = ch_streams ?ch"
      "ch_cb_thread ch1 = ch_cb_thread ?ch" "ch_cam_obj ch1 = ch_cam_obj ?ch"
      "ch_pending_cnt ch1 = (if mode = MM_CAMERA_SUPER_BUF_NOTIFY_BURST then ch_pending_cnt ?ch - 1 else ch_pending_cnt ?ch)" for ch1 w1
  proof (rule runs_mono [OF deliver_runs [OF k assms(5)]])
    show "\<And>b. b \<in> set (node_bufs n) \<Longrightarrow> buf_fits (ch_streams ch1) b"
      using node_bufs_head [OF assms(2,4)] c(3) by simp
    show "ch_cam_obj ch1 = Some cam" using c(5) cam by simp
    show "ct_cb (ch_cb_thread ch1) \<noteq> None" using c(4) assms(3) by simp
    fix p assume "case p of (ch', w') \<Rightarrow> handed e [n] ch1 ch' \<and> ch_queue ch' = ch_queue ch1 \<and>
      ch_pending_cnt ch' = ch_pending_cnt ch1 \<and> ch_cam_obj ch' = ch_cam_obj ch1"
    then have p: "handed e [n] ch1 (fst p)" "ch_queue (fst p) = ch_queue ch1" "ch_pending_cnt (fst p) = ch_pending_cnt ch1"
      by (auto simp: split_beta)
    have "handed e [n] ch (fst p)" by (rule handed_eq [OF p(1)]) (use c in simp_all)
    then have "notified e mode (Suc 0) ch (fst p)"
      using notified_Suc [OF assms(4), of e "fst p" mode 0 "fst p"] notified_0 p c by simp
    then show "case p of (ch', w') \<Rightarrow> notified e mode 1 ch ch'" by (simp add: split_beta)
  qed
  then show ?thesis
    unfolding runs_bind using assms(3) by (intro runs_mono [OF count_pending_runs]) auto
qed

lemma bind_assoc_prod: "Option.bind m (\<lambda>(x, y). Option.bind (f x y) g) = Option.bind (Option.bind m (\<lambda>(x, y). f x y)) g"
  by (cases m) auto

lemma notify_loop_runs:
  assumes "queue_ok (ch_queue ch)" and "bufs_fit ch" and "chan_up ch"
  shows "runs (notify_loop e mode ch w) (\<lambda>(ch', w').
    notified e mode (take_cnt mode (unat (ch_pending_cnt ch)) (unat (q_match_cnt (ch_queue ch)))) ch ch')"
  using assms
proof (induction "unat (q_match_cnt (ch_queue ch))" arbitrary: ch w)
  case 0
  then have z: "q_match_cnt (ch_queue ch) = 0" by (simp add: unat_eq_zero)
  then show ?case
    using dequeue_unmatched [OF 0(2) z] notified_0 by (subst notify_loop.simps) (simp add: take_cnt_def)
next
  case (Suc m)
  then have "q_match_cnt (ch_queue ch) \<noteq> 0" by auto
  then obtain n ns where n: "q_que (ch_queue ch) = n # ns" "qn_matched n" using queue_ok_head [OF Suc.prems(1)] by blast
  show ?case
  proof (cases "ch_pending_cnt ch > 0 \<or> mode = MM_CAMERA_SUPER_BUF_NOTIFY_CONTINUOUS")
    case False
    then have "ch_pending_cnt ch = 0" by (simp add: word_gt_0)
    then show ?thesis using False notified_0 by (subst notify_loop.simps) (simp add: take_cnt_def)
  next
    case True
    let ?k = "take_cnt mode (unat (ch_pending_cnt ch)) (unat (q_match_cnt (ch_queue ch)))"
    have m: "unat (q_match_cnt (queue_drop 1 (ch_queue ch))) = m"
      using n Suc.hyps(2) \<open>q_match_cnt (ch_queue ch) \<noteq> 0\<close> by (simp add: queue_drop_def unat_minus_1)
    have IH: "runs (notify_loop e mode ch1 w1) (\<lambda>(ch', w'). notified e mode ?k ch ch')"
      if c: "notified e mode 1 ch ch1" for ch1 w1
    proof -
      note ok = notified_ok [OF c Suc.prems(1,2)]
      have q1: "ch_queue ch1 = queue_drop 1 (ch_queue ch)" and h: "handed e [n] ch ch1"
        and p1: "ch_pending_cnt ch1 = (if mode = MM_CAMERA_SUPER_BUF_NOTIFY_BURST then ch_pending_cnt ch - 1 else ch_pending_cnt ch)"
        using c n by (auto simp: notified_def)
      have "chan_up ch1" using ok(3) Suc.prems(3) by (simp add: chan_core_def)
      then have r: "runs (notify_loop e mode ch1 w1) (\<lambda>(ch', w'). notified e mode (take_cnt mode (unat (ch_pending_cnt ch1)) m) ch1 ch')"
        using Suc.hyps(1) [of ch1 w1] q1 m ok(1,2) by simp
      have "?k = Suc (take_cnt mode (unat (ch_pending_cnt ch1)) m)"
        using True Suc.hyps(2) [symmetric] p1 word_neq_0_unat [of "ch_pending_cnt ch"]
        by (auto simp: take_cnt_def unat_minus_1 word_gt_0 unat_eq_zero min_def)
      then show ?thesis
        by (intro runs_mono [OF r]) (use notified_Suc [OF n(1) h q1 p1] in auto)
    qed
    have eq: "notify_loop e mode ch w = Option.bind (do {
        (ch, w) \<leftarrow> count_pending e mode (set_queue (queue_drop 1 (ch_queue ch)) ch) w; deliver_node e n ch w })
        (\<lambda>(ch, w). notify_loop e mode ch w)"
      using True dequeue_Cons [OF n(1), of True] n(2)
      by (subst notify_loop.simps) (simp add: mm_channel_superbuf_dequeue_def bind_assoc_prod)
    show ?thesis
      unfolding eq runs_bind [of "Option.bind _ _"]
      by (rule runs_mono [OF notify_round_runs [OF Suc.prems n]]) (use IH in auto)
  qed
qed


section \<open>Commands\<close>

lemma queue_ok_prefix:
  assumes "queue_ok q" and "k \<le> unat (q_match_cnt q)"
  shows "\<forall>n \<in> set (take k (q_que q)). qn_matched n" and "k \<le> length (q_que q)"
    and "unat (q_match_cnt (queue_drop k q)) = unat (q_match_cnt q) - k"
proof -
  obtain ms us where s: "q_que q = ms @ us" "\<forall>n \<in> set ms. qn_matched n" "\<forall>n \<in> set us. \<not> qn_matched n"
    using assms(1) by (auto simp: queue_ok_def queue_shape_def)
  have "filter qn_matched (ms @ us) = ms" using s(2,3) by (simp add: filter_id_conv filter_empty_conv)
  then have m: "unat (q_match_cnt q) = length ms" using assms(1) s(1) by (simp add: queue_ok_def)
  then have t: "take k (q_que q) = take k ms" "k \<le> length ms" using s(1) assms(2) by simp_all
  show a: "\<forall>n \<in> set (take k (q_que q)). qn_matched n" using t s(2) by (auto dest: in_set_takeD)
  show b: "k \<le> length (q_que q)" using s(1) t(2) by simp
  have "filter qn_matched (drop k (q_que q)) = drop k ms"
    using s t(2) by (auto simp: filter_id_conv filter_empty_conv dest: in_set_dropD)
  then show "unat (q_match_cnt (queue_drop k q)) = unat (q_match_cnt q) - k"
    using queue_ok_drop [OF assms(1) b] m by (simp add: queue_ok_def)
qed

definition superbuf_inv :: "mm_channel_t \<Rightarrow> bool" where
  "superbuf_inv ch \<longleftrightarrow> queue_ok (ch_queue ch) \<and> bufs_fit ch \<and> chan_up ch \<and> unat (q_match_cnt (ch_queue ch)) \<le> 255"

fun cmd_fits :: "mm_channel_t \<Rightarrow> mm_camera_cmdcb_t \<Rightarrow> bool" where
  "cmd_fits ch (MM_CAMERA_CMD_TYPE_DATA_CB bi) \<longleftrightarrow> (\<exists>b. frame_ok bi b \<and> buf_fits (ch_streams ch) b)"
| "cmd_fits ch c \<longleftrightarrow> True"

abbreviation ch_mode :: "mm_channel_t \<Rightarrow> mm_camera_super_buf_notify_mode_t" where
  "ch_mode ch \<equiv> at_notify_mode (q_attr (ch_queue ch))"

text \<open>The surplus a command returns to the driver before it hands out superbuffers.\<close>

definition surplus :: "mm_channel_t \<Rightarrow> uint8_t \<Rightarrow> nat" where
  "surplus ch limit = (if ch_mode ch = MM_CAMERA_SUPER_BUF_NOTIFY_CONTINUOUS then 0
     else unat (q_match_cnt (ch_queue ch)) - unat limit)"

lemma dropped_same:
  assumes "dropped e k ch ch'"
  shows "chan_core ch' = chan_core ch" and "ch_pending_cnt ch' = ch_pending_cnt ch" and "ch_cb_thread ch' = ch_cb_thread ch"
    and "ch_queue ch' = queue_drop k (ch_queue ch)" and "ch_needLEDFlash ch' = ch_needLEDFlash ch"
    and "ch_startZSlSnapshotCalled ch' = ch_startZSlSnapshotCalled ch" and "ch_cam_obj ch' = ch_cam_obj ch"
  using assms by (auto simp: dropped_def)

lemma overflow_runs:
  assumes "queue_ok (ch_queue ch)" and "bufs_fit ch"
  shows "runs (mm_channel_superbuf_bufdone_overflow e ch w)
    (\<lambda>(ch', w'). dropped e (surplus ch (water_mark (q_attr (ch_queue ch)))) ch ch')"
  using drain_matched_runs [OF assms] dropped_0
  by (simp add: mm_channel_superbuf_bufdone_overflow_def surplus_def)

lemma skip_runs:
  assumes "queue_ok (ch_queue ch)" and "bufs_fit ch"
  shows "runs (mm_channel_superbuf_skip e ch w)
    (\<lambda>(ch', w'). dropped e (surplus ch (look_back (q_attr (ch_queue ch)))) ch ch')"
  using drain_matched_runs [OF assms] dropped_0
  by (simp add: mm_channel_superbuf_skip_def surplus_def)

lemma overflow_and_notify_runs:
  assumes "queue_ok (ch_queue ch)" and "bufs_fit ch" and "chan_up ch"
  defines "k0 \<equiv> surplus ch (water_mark (q_attr (ch_queue ch)))"
  shows "runs (overflow_and_notify e ch w) (\<lambda>(ch', w'). \<exists>ch1. dropped e k0 ch ch1 \<and>
    notified e (ch_mode ch) (take_cnt (ch_mode ch) (unat (ch_pending_cnt ch)) (unat (q_match_cnt (ch_queue ch)) - k0)) ch1 ch')"
proof -
  have k0: "k0 \<le> unat (q_match_cnt (ch_queue ch))" by (simp add: k0_def surplus_def)
  have "runs (notify_loop e (ch_mode ch) ch1 w1) (\<lambda>(ch', w').
      notified e (ch_mode ch) (take_cnt (ch_mode ch) (unat (ch_pending_cnt ch)) (unat (q_match_cnt (ch_queue ch)) - k0)) ch1 ch')"
    if d: "dropped e k0 ch ch1" for ch1 w1
    using notify_loop_runs [of ch1 e "ch_mode ch" w1] dropped_ok [OF d assms(1,2)] dropped_same [OF d] assms(3)
      queue_ok_prefix(3) [OF assms(1) k0] by simp
  then have "runs (notify_loop e (ch_mode ch) ch1 w1) (\<lambda>(ch', w'). \<exists>ch1. dropped e k0 ch ch1 \<and>
      notified e (ch_mode ch) (take_cnt (ch_mode ch) (unat (ch_pending_cnt ch)) (unat (q_match_cnt (ch_queue ch)) - k0)) ch1 ch')"
    if d: "dropped e k0 ch ch1" for ch1 w1
    by (rule runs_mono) (use d in auto)
  then show ?thesis
    unfolding overflow_and_notify_def Let_def runs_bind
    by (intro runs_mono [OF overflow_runs [OF assms(1,2)]]) (auto simp: k0_def)
qed

abbreviation counts_step :: "mm_channel_t \<Rightarrow> mm_channel_t \<Rightarrow> bool" where
  "counts_step ch ch' \<equiv> list_all2 counts_only (ch_streams ch) (ch_streams ch')"

lemma dropped_counts: "dropped e k ch ch' \<Longrightarrow> counts_step ch ch'"
  by (auto simp: dropped_def dest: returned_counts)

lemma notified_counts: "notified e mode k ch ch' \<Longrightarrow> counts_step ch ch'"
  by (auto simp: notified_def handed_def dest: returned_counts)

lemma step_counts: "ch_step e bs ch ch' \<Longrightarrow> counts_step ch ch'"
  by (auto simp: ch_step_def dest: returned_counts)

text \<open>
  A superbuffer as the client is to see it: one buffer of every bundled stream, in the order of
  the bundle, all of the same frame number. \<open>posts\<close>: only such superbuffers were posted to the
  callback thread.
\<close>

definition superbuf_ok :: "uint8_t \<Rightarrow> uint32_t list \<Rightarrow> mm_camera_super_buf_t \<Rightarrow> bool" where
  "superbuf_ok k hs sb \<longleftrightarrow> sb_num_bufs sb = k \<and> length (sb_bufs sb) = unat k \<and>
     (\<exists>f. \<forall>i < unat k. \<exists>b. sb_bufs sb ! i = Some b \<and> b_stream_id b = hs ! i \<and> b_frame_idx b = f)"

definition posts :: "mm_channel_t \<Rightarrow> mm_channel_t \<Rightarrow> bool" where
  "posts ch ch' \<longleftrightarrow> q_num_streams (ch_queue ch') = q_num_streams (ch_queue ch) \<and>
     q_bundled_streams (ch_queue ch') = q_bundled_streams (ch_queue ch) \<and>
     (\<exists>sbs. ct_cmd_queue (ch_cb_thread ch') = ct_cmd_queue (ch_cb_thread ch) @ map MM_CAMERA_CMD_TYPE_SUPER_BUF_DATA_CB sbs \<and>
        (\<forall>sb \<in> set sbs. superbuf_ok (q_num_streams (ch_queue ch)) (q_bundled_streams (ch_queue ch)) sb))"

lemma posts_same:
  assumes "q_num_streams (ch_queue ch') = q_num_streams (ch_queue ch)"
    and "q_bundled_streams (ch_queue ch') = q_bundled_streams (ch_queue ch)" and "ch_cb_thread ch' = ch_cb_thread ch"
  shows "posts ch ch'"
  using assms by (simp add: posts_def)

lemma posts_trans:
  assumes "posts ch ch1" and "posts ch1 ch2"
  shows "posts ch ch2"
proof -
  obtain sbs tbs where
    "ct_cmd_queue (ch_cb_thread ch1) = ct_cmd_queue (ch_cb_thread ch) @ map MM_CAMERA_CMD_TYPE_SUPER_BUF_DATA_CB sbs"
    "\<forall>sb \<in> set sbs. superbuf_ok (q_num_streams (ch_queue ch)) (q_bundled_streams (ch_queue ch)) sb"
    "ct_cmd_queue (ch_cb_thread ch2) = ct_cmd_queue (ch_cb_thread ch1) @ map MM_CAMERA_CMD_TYPE_SUPER_BUF_DATA_CB tbs"
    "\<forall>sb \<in> set tbs. superbuf_ok (q_num_streams (ch_queue ch1)) (q_bundled_streams (ch_queue ch1)) sb"
    using assms by (auto simp: posts_def)
  then show ?thesis using assms unfolding posts_def by (intro conjI exI [of _ "sbs @ tbs"]) auto
qed

lemma node_superbuf_ok:
  assumes "node_ok k hs n" and "qn_matched n" and "unat k \<le> MAX_STREAM_NUM_IN_BUNDLE"
  shows "superbuf_ok k hs (ch_superbuf ch n)"
proof -
  have "\<exists>b. bi_buf (qn_super_buf n ! i) = Some b \<and> b_stream_id b = hs ! i \<and> b_frame_idx b = qn_frame_idx n" if "i < unat k" for i
  proof -
    have "slot_ok hs (qn_frame_idx n) i (qn_super_buf n ! i)" "bi_buf (qn_super_buf n ! i) \<noteq> None"
      using assms(1,2) that by (auto simp: node_ok_def)
    then show ?thesis by (auto simp: slot_ok_def zero_buf_info_def)
  qed
  moreover have "unat k \<le> length (qn_super_buf n)" "qn_num_of_bufs n = k" using assms(1,3) by (simp_all add: node_ok_def)
  ultimately show ?thesis by (auto simp: superbuf_ok_def ch_superbuf_def node_superbuf_def)
qed

lemma notified_posts:
  assumes "notified e mode k ch ch'" and "queue_ok (ch_queue ch)" and "k \<le> unat (q_match_cnt (ch_queue ch))"
  shows "posts ch ch'"
proof -
  let ?ns = "take k (q_que (ch_queue ch))"
  obtain sbs where sbs: "ct_cmd_queue (ch_cb_thread ch') = ct_cmd_queue (ch_cb_thread ch) @ map MM_CAMERA_CMD_TYPE_SUPER_BUF_DATA_CB sbs"
    "set sbs \<subseteq> ch_superbuf ch ` set ?ns"
    using assms(1) by (auto simp: notified_def handed_def)
  have "superbuf_ok (q_num_streams (ch_queue ch)) (q_bundled_streams (ch_queue ch)) (ch_superbuf ch n)" if "n \<in> set ?ns" for n
    by (rule node_superbuf_ok)
      (use that queue_ok_prefix(1) [OF assms(2,3)] assms(2) in \<open>auto simp: queue_ok_def dest: in_set_takeD\<close>)
  moreover have "ch_queue ch' = queue_drop k (ch_queue ch)" using assms(1) by (simp add: notified_def)
  ultimately show ?thesis using sbs unfolding posts_def by (intro conjI exI [of _ sbs]) auto
qed

text \<open>After a round the matched superbuffers that are left are within the water mark.\<close>

lemma take_cnt_le: "take_cnt mode p m \<le> m"
  by (simp add: take_cnt_def)

lemma round_inv:
  assumes "queue_ok (ch_queue ch)" and "bufs_fit ch" and "chan_up ch"
    and "dropped e (surplus ch (water_mark (q_attr (ch_queue ch)))) ch ch1"
    and "notified e (ch_mode ch) (take_cnt (ch_mode ch) p
      (unat (q_match_cnt (ch_queue ch)) - surplus ch (water_mark (q_attr (ch_queue ch))))) ch1 ch'"
  shows "superbuf_inv ch'" and "chan_core ch' = chan_core ch" and "counts_step ch ch'" and "posts ch ch'"
proof -
  let ?sur = "surplus ch (water_mark (q_attr (ch_queue ch)))"
  let ?mm = "unat (q_match_cnt (ch_queue ch)) - ?sur"
  let ?k = "take_cnt (ch_mode ch) p ?mm"
  note d = dropped_ok [OF assms(4,1,2)] dropped_same [OF assms(4)]
  note n = notified_ok [OF assms(5) d(1,2)]
  have k0: "?sur \<le> unat (q_match_cnt (ch_queue ch))" by (simp add: surplus_def)
  have m1: "unat (q_match_cnt (ch_queue ch1)) = ?mm"
    unfolding d(6) by (rule queue_ok_prefix(3) [OF assms(1) k0])
  have "ch_queue ch' = queue_drop ?k (ch_queue ch1)" using assms(5) by (simp add: notified_def)
  then have "unat (q_match_cnt (ch_queue ch')) = ?mm - ?k"
    using queue_ok_prefix(3) [OF d(1)] m1 take_cnt_le by simp
  moreover have "?mm - ?k \<le> 255"
    using unat_lt_2p [of "water_mark (q_attr (ch_queue ch))"] by (auto simp: surplus_def take_cnt_def)
  ultimately show "superbuf_inv ch'"
    using n d assms(3) by (simp add: superbuf_inv_def chan_core_def)
  show "chan_core ch' = chan_core ch" using n(3) d(3) by simp
  show "counts_step ch ch'" by (rule list_all2_counts_trans [OF dropped_counts [OF assms(4)] notified_counts [OF assms(5)]])
  have "posts ch ch1" by (rule posts_same) (use d(5,6) in auto)
  moreover have "posts ch1 ch'" by (rule notified_posts [OF assms(5) d(1)]) (use m1 take_cnt_le in simp)
  ultimately show "posts ch ch'" by (rule posts_trans)
qed

lemma round_runs:
  assumes "queue_ok (ch_queue ch)" and "bufs_fit ch" and "chan_up ch"
  shows "runs (overflow_and_notify e ch w) (\<lambda>(ch', w'). superbuf_inv ch' \<and> chan_core ch' = chan_core ch \<and> counts_step ch ch' \<and> posts ch ch')"
  by (rule runs_mono [OF overflow_and_notify_runs [OF assms]]) (use round_inv [OF assms] in auto)

lemma surplus_pending: "surplus (ch\<lparr>ch_pending_cnt := n\<rparr>) x = surplus ch x"
  by (simp add: surplus_def)

text \<open>Channels that differ in their snapshot flags only.\<close>

definition flags_only :: "mm_channel_t \<Rightarrow> mm_channel_t \<Rightarrow> bool" where
  "flags_only ch ch' \<longleftrightarrow> chan_core ch' = chan_core ch \<and> ch_queue ch' = ch_queue ch \<and> ch_streams ch' = ch_streams ch \<and>
     ch_cb_thread ch' = ch_cb_thread ch \<and> ch_pending_cnt ch' = ch_pending_cnt ch"

lemma request_runs:
  assumes "queue_ok (ch_queue ch)" and "bufs_fit ch" and "chan_up ch"
  shows "runs (request_cmd e n ch w) (\<lambda>(ch', w'). \<exists>ch1.
    dropped e (surplus ch (look_back (q_attr (ch_queue ch)))) (ch\<lparr>ch_pending_cnt := n\<rparr>) ch1 \<and> flags_only ch1 ch')"
proof -
  let ?ch = "ch\<lparr>ch_pending_cnt := n\<rparr>"
  have r: "runs (mm_channel_superbuf_skip e ?ch w) (\<lambda>(ch', w'). dropped e (surplus ch (look_back (q_attr (ch_queue ch)))) ?ch ch')"
    using skip_runs [of ?ch e w] assms by (simp add: bufs_fit_def surplus_pending)
  show ?thesis
    unfolding request_cmd_def runs_bind
    by (rule runs_mono [OF r], clarify, frule dropped_same(7)) (use assms(3) in \<open>auto simp: flags_only_def\<close>)
qed

lemma flags_only_ok:
  assumes "flags_only ch ch'"
  shows "queue_ok (ch_queue ch') = queue_ok (ch_queue ch)" and "bufs_fit ch' = bufs_fit ch" and "chan_core ch' = chan_core ch"
    and "ch_cam_obj ch' = ch_cam_obj ch"
  using assms by (simp_all add: flags_only_def bufs_fit_def chan_core_def)

lemma mode_ok:
  "queue_ok (q\<lparr>q_attr := a\<rparr>) = queue_ok q" "queue_bufs (q\<lparr>q_attr := a\<rparr>) = queue_bufs q"
  by (simp_all add: queue_ok_def queue_bufs_def)

lemma step_fits:
  assumes "ch_step e bs ch ch'" and "bufs_fit ch" and "set (queue_bufs (ch_queue ch')) \<subseteq> insert b (set (queue_bufs (ch_queue ch)))"
    and "buf_fits (ch_streams ch) b"
  shows "bufs_fit ch'"
  using assms ch_step_fits [OF assms(1)] by (auto simp: bufs_fit_def)

lemma arrival_runs:
  assumes "superbuf_inv ch" and "frame_ok bi b" and "buf_fits (ch_streams ch) b"
  shows "runs (mm_channel_superbuf_comp_and_enqueue e bi ch w) (\<lambda>(rc, ch', w'). queue_ok (ch_queue ch') \<and> bufs_fit ch' \<and>
    chan_up ch' \<and> chan_core ch' = chan_core ch \<and> counts_step ch ch' \<and> posts ch ch')"
proof -
  have inv: "queue_ok (ch_queue ch)" "bufs_fit ch" "chan_up ch" "unat (q_match_cnt (ch_queue ch)) + 1 < 2 ^ 32"
    using assms(1) by (auto simp: superbuf_inv_def)
  show ?thesis
  proof (rule runs_mono [OF comp_and_enqueue_runs [OF inv(1,2) assms(2,3)]], clarify)
    fix rc ch' w' assume r: "rc = -1 \<and> ch' = ch \<or> rc = 0 \<and>
      (\<exists>bs. ch_step e bs ch ch' \<and> arrival_spec bi (ch_queue ch) bs (ch_queue ch'))"
    show "queue_ok (ch_queue ch') \<and> bufs_fit ch' \<and> chan_up ch' \<and> chan_core ch' = chan_core ch \<and> counts_step ch ch' \<and> posts ch ch'"
    proof (cases "ch' = ch")
      case True
      then show ?thesis using inv by (simp add: list_all2_refl posts_same)
    next
      case False
      then obtain bs where bs: "ch_step e bs ch ch'" "arrival_spec bi (ch_queue ch) bs (ch_queue ch')" using r by auto
      note ok = arrival_spec_ok [OF bs(2) inv(1) assms(2) inv(4)]
      have "chan_core ch' = chan_core ch" by (rule ch_step_core(1) [OF bs(1)])
      moreover have "bufs_fit ch'" by (rule step_fits [OF bs(1) inv(2) ok(2) assms(3)])
      ultimately show ?thesis using ok inv(3) step_counts [OF bs(1)] posts_same [of ch' ch] ch_step_core(2) [OF bs(1)] by (simp add: chan_core_def)
    qed
  qed
qed

lemma process_runs:
  assumes "superbuf_inv ch" and "cmd_fits ch c"
  shows "runs (mm_channel_process_stream_buf e c (ch, w)) (\<lambda>(ch', w'). superbuf_inv ch' \<and> chan_core ch' = chan_core ch \<and>
    counts_step ch ch' \<and> posts ch ch')"
proof -
  have inv: "queue_ok (ch_queue ch)" "bufs_fit ch" "chan_up ch"
    using assms(1) by (auto simp: superbuf_inv_def)
  note round = round_runs [OF inv]
  show ?thesis
  proof (cases c)
    case (MM_CAMERA_CMD_TYPE_DATA_CB bi)
    then obtain b where b: "frame_ok bi b" "buf_fits (ch_streams ch) b" using assms(2) by auto
    show ?thesis
      unfolding MM_CAMERA_CMD_TYPE_DATA_CB mm_channel_process_stream_buf_def prod.case mm_camera_cmdcb_t.case runs_bind
      by (rule runs_mono [OF arrival_runs [OF assms(1) b]], clarify)
        (rule runs_mono [OF round_runs], auto elim: list_all2_counts_trans posts_trans)
  next
    case (MM_CAMERA_CMD_TYPE_REQ_DATA_CB n)
    have f: "queue_ok (ch_queue ch2) \<and> bufs_fit ch2 \<and> chan_up ch2 \<and> chan_core ch2 = chan_core ch \<and> counts_step ch ch2 \<and> posts ch ch2"
      if "dropped e k (ch\<lparr>ch_pending_cnt := n\<rparr>) ch1" "flags_only ch1 ch2" for ch1 ch2 k
      using dropped_ok [OF that(1)] dropped_same [OF that(1)] flags_only_ok [OF that(2)] dropped_counts [OF that(1)] that(2) inv
        posts_same [of ch2 ch]
      by (simp add: bufs_fit_def flags_only_def)
    have r: "runs (request_cmd e n ch w) (\<lambda>(ch2, w2). queue_ok (ch_queue ch2) \<and> bufs_fit ch2 \<and> chan_up ch2 \<and>
        chan_core ch2 = chan_core ch \<and> counts_step ch ch2 \<and> posts ch ch2)"
      by (rule runs_mono [OF request_runs [OF inv]]) (use f in blast)
    show ?thesis
      unfolding MM_CAMERA_CMD_TYPE_REQ_DATA_CB mm_channel_process_stream_buf_def prod.case mm_camera_cmdcb_t.case runs_bind
      by (rule runs_mono [OF r], clarify) (rule runs_mono [OF round_runs], auto elim: list_all2_counts_trans posts_trans)
  next
    case (MM_CAMERA_CMD_TYPE_CONFIG_NOTIFY mode)
    let ?ch = "set_queue ((ch_queue ch)\<lparr>q_attr := (q_attr (ch_queue ch))\<lparr>at_notify_mode := mode\<rparr>\<rparr>) ch"
    have "queue_ok (ch_queue ?ch)" "bufs_fit ?ch" "chan_up ?ch" using inv by (simp_all add: bufs_fit_def mode_ok)
    from round_runs [OF this, of e w]
    have "runs (overflow_and_notify e ?ch w) (\<lambda>(ch', w'). superbuf_inv ch' \<and> chan_core ch' = chan_core ch \<and> counts_step ch ch' \<and> posts ch ch')"
      by (rule runs_mono) (auto simp: posts_def)
    then show ?thesis
      using MM_CAMERA_CMD_TYPE_CONFIG_NOTIFY by (simp add: mm_channel_process_stream_buf_def Let_def)
  next
    case (MM_CAMERA_CMD_TYPE_FLUSH_QUEUE f)
    let ?ch = "set_queue ((ch_queue ch)\<lparr>q_expected_frame_id := f\<rparr>) ch"
    have c: "queue_ok (ch_queue ?ch)" "bufs_fit ?ch" using inv by (simp_all add: bufs_fit_def)
    have "superbuf_inv ch' \<and> chan_core ch' = chan_core ch \<and> counts_step ch ch' \<and> posts ch ch'" if d: "dropped e (length (q_que (ch_queue ?ch))) ?ch ch'" for ch'
      using dropped_ok [OF d c] dropped_same [OF d] dropped_counts [OF d] posts_same [of ch' ch] inv(3)
      by (auto simp: superbuf_inv_def queue_ok_def)
    then show ?thesis
      unfolding MM_CAMERA_CMD_TYPE_FLUSH_QUEUE mm_channel_process_stream_buf_def prod.case mm_camera_cmdcb_t.case
      by (intro runs_mono [OF flush_runs [OF c]]) auto
  qed (use round in \<open>simp_all add: mm_channel_process_stream_buf_def\<close>)
qed

end
