(* ===== verification/Superbuf_Correct.thy ===== *)
theory Superbuf_Correct
  imports Superbuf_Notify
begin

text \<open>
  The properties of the superbuffer queue, and a channel of two bundled streams on which they are
  evaluated.
\<close>

section \<open>A bundled channel\<close>

definition sample_frame :: "uint32_t \<Rightarrow> uint32_t \<Rightarrow> mm_camera_buf_info_t" where
  "sample_frame h f = \<lparr>bi_stream_id = h, bi_frame_idx = f, bi_buf = Some ((calm_buf 0)\<lparr>b_stream_id := h, b_frame_idx := f\<rparr>)\<rparr>"

definition sample_node :: "uint32_t \<Rightarrow> mm_channel_queue_node_t" where
  "sample_node f = \<lparr>qn_num_of_bufs = 2, qn_super_buf = [sample_frame 0x300 f, sample_frame 0x401 f, zero_buf_info, zero_buf_info],
     qn_matched = True, qn_frame_idx = f\<rparr>"

definition sample_bundle :: "mm_channel_queue_node_t list \<Rightarrow> mm_channel_t" where
  "sample_bundle ns = sample_channel\<lparr>
     ch_cb_thread := mm_camera_cmd_thread_launch Fn_mm_channel_dispatch_super_buf 0x200 zero_cmd_thread,
     ch_streams := [sample_streaming, sample_streaming\<lparr>s_my_hdl := 0x401\<rparr>, zero_stream, zero_stream],
     ch_bundle := \<lparr>bd_is_active = True,
       bd_superbuf_queue = zero_queue\<lparr>q_que := ns, q_size := of_nat (length ns), q_match_cnt := of_nat (length ns),
         q_num_streams := 2, q_bundled_streams := [0x300, 0x401, 0, 0], q_attr := zero_attr\<lparr>look_back := 2, water_mark := 2\<rparr>\<rparr>,
       bd_super_buf_notify_cb = Some 5, bd_user_data = 0\<rparr>\<rparr>"

lemma sample_fits: "buf_fits (ch_streams (sample_bundle ns)) ((calm_buf 0)\<lparr>b_stream_id := h, b_frame_idx := f\<rparr>)"
  by (simp add: buf_fits_def sample_bundle_def sample_streaming_def Let_def idx_ok_def calm_buf_def zero_stream_def)

lemma sample_frame_ok: "frame_ok (sample_frame h f) ((calm_buf 0)\<lparr>b_stream_id := h, b_frame_idx := f\<rparr>)"
  by (simp add: frame_ok_def sample_frame_def)

lemma sample_cmd_fits: "cmd_fits (sample_bundle ns) (MM_CAMERA_CMD_TYPE_DATA_CB (sample_frame h f))"
  using sample_frame_ok sample_fits unfolding cmd_fits.simps by blast

lemma sample_node_ok: "node_ok 2 [0x300, 0x401, 0, 0] (sample_node f)"
  by (simp add: node_ok_def sample_node_def slot_ok_def sample_frame_def all_less_2)

lemma sample_node_bufs: "node_bufs (sample_node f) = [(calm_buf 0)\<lparr>b_stream_id := 0x300, b_frame_idx := f\<rparr>,
    (calm_buf 0)\<lparr>b_stream_id := 0x401, b_frame_idx := f\<rparr>]"
  by (simp add: node_bufs_def sample_node_def sample_frame_def map_filter_simps)

lemma sample_bundle_inv: "superbuf_inv (sample_bundle [])" "superbuf_inv (sample_bundle [sample_node 1, sample_node 2])"
proof -
  have m: "qn_matched (sample_node f)" for f by (simp add: sample_node_def)
  have "queue_shape ns" if "\<forall>n \<in> set ns. qn_matched n" for ns
    unfolding queue_shape_def using that by (intro exI [of _ ns] exI [of _ "[]"]) simp
  then show "superbuf_inv (sample_bundle [])" "superbuf_inv (sample_bundle [sample_node 1, sample_node 2])"
    using sample_fits [of "[]"] sample_fits [of "[sample_node 1, sample_node 2]"]
    by (simp_all add: superbuf_inv_def queue_ok_def sample_bundle_def sample_node_ok m zero_queue_def bufs_fit_def
        queue_bufs_def sample_node_bufs sample_channel_def mm_camera_cmd_thread_launch_def)
qed

section \<open>Properties\<close>

text \<open>
  C7. Every command of the channel thread returns. Start in a channel that satisfies the
  invariant and process any sequence of commands whose frames belong to the channel: no command
  faults, and none of the loops (over the water mark, over the look-back, the flush, the delivery)
  runs for ever, whatever the driver and the allocator answer. The overflow loop in particular
  waits for the count of matched superbuffers to fall, which it only does because they are in
  front; that order, the counts and the contents of the nodes are the invariant, which every
  command keeps.
\<close>

theorem superbuf_commands_return:
  assumes "superbuf_inv ch" and "\<forall>c \<in> set cs. cmd_fits ch c"
  shows "\<exists>ch' w'. foldM (mm_channel_process_stream_buf e) cs (ch, w) = Some (ch', w') \<and> superbuf_inv ch'"
proof -
  have keep: "cmd_fits ch2 c" if "counts_step ch1 ch2" "cmd_fits ch1 c" for ch1 ch2 c
    using that by (cases c) (auto dest: counts_fits)
  have "runs (foldM (mm_channel_process_stream_buf e) cs (ch, w)) (\<lambda>(ch', w'). superbuf_inv ch' \<and> counts_step ch ch')"
  proof (rule foldM_runs)
    show "case (ch, w) of (ch', w') \<Rightarrow> superbuf_inv ch' \<and> counts_step ch ch'"
      using assms(1) by (simp add: list_all2_refl)
    fix c and p :: "mm_channel_t \<times> world"
    assume c: "c \<in> set cs" and p: "case p of (ch', w') \<Rightarrow> superbuf_inv ch' \<and> counts_step ch ch'"
    obtain ch1 w1 where p1: "p = (ch1, w1)" by fastforce
    have "superbuf_inv ch1" "cmd_fits ch1 c" using p p1 keep [of ch ch1 c] assms(2) c by auto
    from process_runs [OF this, of e w1]
    show "runs (mm_channel_process_stream_buf e c p) (\<lambda>(ch', w'). superbuf_inv ch' \<and> counts_step ch ch')"
      unfolding p1 by (rule runs_mono) (use p p1 in \<open>auto elim: list_all2_counts_trans\<close>)
  qed
  then show ?thesis by (auto simp: runs_iff)
qed

theorem superbuf_commands_return_witness:
  "\<exists>ch' w'. foldM (mm_channel_process_stream_buf (calm_env 2))
     [MM_CAMERA_CMD_TYPE_DATA_CB (sample_frame 0x300 1), MM_CAMERA_CMD_TYPE_REQ_DATA_CB 1, MM_CAMERA_CMD_TYPE_FLUSH_QUEUE 9]
     (sample_bundle [], sample_world) = Some (ch', w') \<and> superbuf_inv ch'"
  by (rule superbuf_commands_return [OF sample_bundle_inv(1)]) (simp add: sample_cmd_fits del: cmd_fits.simps(1))





lemma sample_arrival:
  "\<exists>ch' w'. mm_channel_superbuf_comp_and_enqueue (calm_env 2) (sample_frame 0x300 1) (sample_bundle []) sample_world = Some (0, ch', w')"
  by (simp add: mm_channel_superbuf_comp_and_enqueue_def mm_channel_handle_metadata_def mm_channel_util_get_stream_by_handler_def
      sample_bundle_def sample_streaming_def Let_def sample_frame_def zero_queue_def mm_channel_util_seq_comp_w_rollover_def
      superbuf_not_found_def superbuf_insert_def start_stream_def sample_registered_def sample_buffed_def sample_stream_def
      sample_stream_info_def calm_defs zero_attr_def)


text \<open>
  C16. Few superbuffers wait. While the limit of the channel on unmatched frames is below 255, at most
  one superbuffer more than the limit waits for its frames: an arrival that returns keeps this
  bound. (With a limit of 255 the 8-bit count of the search wraps and the limit is never exceeded.)
\<close>

theorem superbuf_waiting_bounded:
  assumes "superbuf_inv ch" and "frame_ok bi b" and "buf_fits (ch_streams ch) b"
    and "unat (max_unmatched_frames (q_attr (ch_queue ch))) < 255"
    and "waiting (ch_queue ch) \<le> unat (max_unmatched_frames (q_attr (ch_queue ch))) + 1"
    and "mm_channel_superbuf_comp_and_enqueue e bi ch w = Some (rc, ch', w')"
  shows "waiting (ch_queue ch') \<le> unat (max_unmatched_frames (q_attr (ch_queue ch))) + 1"
proof -
  have q: "queue_ok (ch_queue ch)" "bufs_fit ch" using assms(1) by (auto simp: superbuf_inv_def)
  have "ch' = ch \<or> (\<exists>bs. arrival_spec bi (ch_queue ch) bs (ch_queue ch'))"
    using comp_and_enqueue_runs [OF q assms(2,3), of e w] assms(6) by (auto simp: runs_iff)
  then show ?thesis using arrival_spec_waiting [OF _ q(1) assms(2,5,4)] assms(5) by auto
qed

theorem superbuf_waiting_bounded_witness:
  "\<exists>ch' w'. mm_channel_superbuf_comp_and_enqueue (calm_env 2) (sample_frame 0x300 1) (sample_bundle []) sample_world = Some (0, ch', w') \<and>
     waiting (ch_queue ch') \<le> 1"
proof -
  obtain ch' w' where c: "mm_channel_superbuf_comp_and_enqueue (calm_env 2) (sample_frame 0x300 1) (sample_bundle []) sample_world = Some (0, ch', w')"
    using sample_arrival by blast
  have e: "max_unmatched_frames (q_attr (ch_queue (sample_bundle []))) = 0" "waiting (ch_queue (sample_bundle [])) = 0"
    by (simp_all add: sample_bundle_def zero_queue_def zero_attr_def waiting_def)
  show ?thesis
    using superbuf_waiting_bounded [OF sample_bundle_inv(1) sample_frame_ok sample_fits _ _ c] c e by auto
qed

text \<open>
  C8. The client sees complete superbuffers only. Whatever command the channel thread processes, what
  it appends to the queue of the callback thread are superbuffers with exactly one buffer of every
  bundled stream, in the order of the bundle, all with the same frame number.
\<close>

theorem superbuf_delivers_complete:
  assumes "superbuf_inv ch" and "cmd_fits ch c" and "mm_channel_process_stream_buf e c (ch, w) = Some (ch', w')"
  shows "\<exists>sbs. ct_cmd_queue (ch_cb_thread ch') = ct_cmd_queue (ch_cb_thread ch) @ map MM_CAMERA_CMD_TYPE_SUPER_BUF_DATA_CB sbs \<and>
    (\<forall>sb \<in> set sbs. superbuf_ok (q_num_streams (ch_queue ch)) (q_bundled_streams (ch_queue ch)) sb)"
  using process_runs [OF assms(1,2), of e w] assms(3) by (auto simp: runs_iff posts_def)

theorem superbuf_delivers_complete_witness:
  "\<exists>ch' w' sbs. mm_channel_process_stream_buf (calm_env 2) (MM_CAMERA_CMD_TYPE_REQ_DATA_CB 1)
      (sample_bundle [sample_node 1, sample_node 2], sample_world) = Some (ch', w') \<and>
    ct_cmd_queue (ch_cb_thread ch') = map MM_CAMERA_CMD_TYPE_SUPER_BUF_DATA_CB sbs \<and> list_all (superbuf_ok 2 [0x300, 0x401, 0, 0]) sbs"
proof -
  let ?ch = "sample_bundle [sample_node 1, sample_node 2]"
  have f: "cmd_fits ?ch (MM_CAMERA_CMD_TYPE_REQ_DATA_CB 1)" by simp
  obtain ch' w' where p: "mm_channel_process_stream_buf (calm_env 2) (MM_CAMERA_CMD_TYPE_REQ_DATA_CB 1) (?ch, sample_world) = Some (ch', w')"
    using process_runs [OF sample_bundle_inv(2) f, of "calm_env 2" sample_world] by (auto simp: runs_iff)
  have "ct_cmd_queue (ch_cb_thread ?ch) = []" "q_num_streams (ch_queue ?ch) = 2" "q_bundled_streams (ch_queue ?ch) = [0x300, 0x401, 0, 0]"
    by (simp_all add: sample_bundle_def sample_channel_def zero_queue_def zero_channel_def zero_cmd_thread_def mm_camera_cmd_thread_launch_def)
  then show ?thesis
    using superbuf_delivers_complete [OF sample_bundle_inv(2) f p] p by (auto simp: list_all_iff)
qed

text \<open>
  C15. A request is served at once from the matched superbuffers. In burst mode, with memory and a
  callback, a request for \<open>n\<close> superbuffers first gives back the oldest matched ones beyond the
  look-back and the water mark; then exactly the next \<open>n\<close> ones (or all, when there are fewer) are
  posted to the callback thread, oldest first, and the rest of the request stays pending. A request
  for 0 posts nothing and cancels what was pending.
\<close>

theorem superbuf_request_served:
  assumes "superbuf_inv ch" and "ch_mode ch = MM_CAMERA_SUPER_BUF_NOTIFY_BURST" and "mem_ok e"
    and "bd_super_buf_notify_cb (ch_bundle ch) \<noteq> None"
    and "m = unat (q_match_cnt (ch_queue ch))"
    and "keep = min m (min (unat (look_back (q_attr (ch_queue ch)))) (unat (water_mark (q_attr (ch_queue ch)))))"
    and "k = min (unat n) keep"
  shows "\<exists>ch' w'. mm_channel_process_stream_buf e (MM_CAMERA_CMD_TYPE_REQ_DATA_CB n) (ch, w) = Some (ch', w') \<and>
    ct_cmd_queue (ch_cb_thread ch') = ct_cmd_queue (ch_cb_thread ch) @
      map (\<lambda>nd. MM_CAMERA_CMD_TYPE_SUPER_BUF_DATA_CB (ch_superbuf ch nd)) (take k (drop (m - keep) (q_que (ch_queue ch)))) \<and>
    ch_pending_cnt ch' = n - of_nat k \<and> q_que (ch_queue ch') = drop (m - keep + k) (q_que (ch_queue ch))"
proof -
  let ?q = "ch_queue ch"
  let ?Q = "\<lambda>ch'. ct_cmd_queue (ch_cb_thread ch') = ct_cmd_queue (ch_cb_thread ch) @
      map (\<lambda>nd. MM_CAMERA_CMD_TYPE_SUPER_BUF_DATA_CB (ch_superbuf ch nd)) (take k (drop (m - keep) (q_que ?q))) \<and>
    ch_pending_cnt ch' = n - of_nat k \<and> q_que (ch_queue ch') = drop (m - keep + k) (q_que ?q)"
  have inv: "queue_ok ?q" "bufs_fit ch" "chan_up ch" using assms(1) by (auto simp: superbuf_inv_def)
  let ?lb = "surplus ch (look_back (q_attr ?q))"
  have r2: "runs (overflow_and_notify e ch2 w2) (\<lambda>(ch', w'). ?Q ch')"
    if d: "dropped e ?lb (ch\<lparr>ch_pending_cnt := n\<rparr>) ch1" and f: "flags_only ch1 ch2" for ch1 ch2 w2
  proof -
    have ok: "queue_ok (ch_queue ch2)" "bufs_fit ch2" "chan_up ch2"
      using dropped_ok [OF d] dropped_same [OF d] flags_only_ok [OF f] f [unfolded flags_only_def] inv by (simp_all add: bufs_fit_def)
    have c2: "chan_core ch2 = chan_core ch" "ch_pending_cnt ch2 = n" "ch_cb_thread ch2 = ch_cb_thread ch"
      "ch_queue ch2 = queue_drop ?lb ?q"
      using dropped_same [OF d] f by (simp_all add: flags_only_def)
    have lb: "?lb = m - unat (look_back (q_attr ?q))" using assms(2,5) by (simp add: surplus_def)
    have m2: "unat (q_match_cnt (ch_queue ch2)) = m - ?lb"
      unfolding c2(4) using queue_ok_prefix(3) [OF inv(1), of ?lb] lb assms(5) by simp
    let ?wm = "surplus ch2 (water_mark (q_attr (ch_queue ch2)))"
    have wm: "?wm = (m - ?lb) - unat (water_mark (q_attr ?q))"
      using assms(2) m2 by (simp add: surplus_def c2(4))
    have sum: "?lb + ?wm = m - keep" "m - ?lb - ?wm = keep" using assms(6) lb wm by linarith+
    show ?thesis
    proof (rule runs_mono [OF overflow_and_notify_runs [OF ok]], clarify)
      fix ch3 ch4 assume d2: "dropped e ?wm ch2 ch3"
        and n: "notified e (ch_mode ch2) (take_cnt (ch_mode ch2) (unat (ch_pending_cnt ch2)) (unat (q_match_cnt (ch_queue ch2)) - ?wm)) ch3 ch4"
      have mode: "ch_mode ch2 = MM_CAMERA_SUPER_BUF_NOTIFY_BURST" using assms(2) by (simp add: c2(4))
      have k: "take_cnt (ch_mode ch2) (unat (ch_pending_cnt ch2)) (unat (q_match_cnt (ch_queue ch2)) - ?wm) = k"
        using assms(7) sum(2) by (simp add: take_cnt_def mode c2(2) m2)
      note s2 = dropped_same [OF d2]
      have q3: "q_que (ch_queue ch3) = drop (m - keep) (q_que ?q)"
        using s2(4) c2(4) sum(1) by (simp add: add.commute)
      have core: "chan_core ch3 = chan_core ch" using s2(1) c2(1) by simp
      have "ct_cmd_queue (ch_cb_thread ch4) = ct_cmd_queue (ch_cb_thread ch3) @
          map MM_CAMERA_CMD_TYPE_SUPER_BUF_DATA_CB (map (ch_superbuf ch3) (take k (q_que (ch_queue ch3))))"
        using n assms(3,4) core unfolding k notified_def handed_def by (auto simp: chan_core_def)
      moreover have "ch_pending_cnt ch4 = n - of_nat k" "ch_queue ch4 = queue_drop k (ch_queue ch3)"
        using n s2(2) c2(2) mode unfolding k notified_def by simp_all
      ultimately show "?Q ch4"
        using q3 s2(3) c2(3) ch_superbuf_core [OF core] by (simp add: add.commute)
    qed
  qed
  have "runs (mm_channel_process_stream_buf e (MM_CAMERA_CMD_TYPE_REQ_DATA_CB n) (ch, w)) (\<lambda>(ch', w'). ?Q ch')"
    unfolding mm_channel_process_stream_buf_def prod.case mm_camera_cmdcb_t.case runs_bind
    by (rule runs_mono [OF request_runs [OF inv]]) (use r2 in auto)
  then show ?thesis by (auto simp: runs_iff)
qed


theorem superbuf_request_served_witness:
  "\<exists>ch' w'. mm_channel_process_stream_buf (calm_env 2) (MM_CAMERA_CMD_TYPE_REQ_DATA_CB 1)
      (sample_bundle [sample_node 1, sample_node 2], sample_world) = Some (ch', w') \<and>
    ct_cmd_queue (ch_cb_thread ch') =
      [MM_CAMERA_CMD_TYPE_SUPER_BUF_DATA_CB (ch_superbuf (sample_bundle [sample_node 1, sample_node 2]) (sample_node 1))] \<and>
    ch_pending_cnt ch' = 0 \<and> q_que (ch_queue ch') = [sample_node 2]"
proof -
  let ?ch = "sample_bundle [sample_node 1, sample_node 2]"
  have a: "ch_mode ?ch = MM_CAMERA_SUPER_BUF_NOTIFY_BURST" "bd_super_buf_notify_cb (ch_bundle ?ch) \<noteq> None"
    "2 = unat (q_match_cnt (ch_queue ?ch))" "ct_cmd_queue (ch_cb_thread ?ch) = []" "q_que (ch_queue ?ch) = [sample_node 1, sample_node 2]"
    "2 = min 2 (min (unat (look_back (q_attr (ch_queue ?ch)))) (unat (water_mark (q_attr (ch_queue ?ch)))))"
    by (simp_all add: sample_bundle_def zero_attr_def sample_channel_def zero_queue_def zero_channel_def zero_cmd_thread_def mm_camera_cmd_thread_launch_def)
  have k: "1 = min (unat (1 :: uint32_t)) 2" by simp
  show ?thesis
    using superbuf_request_served [OF sample_bundle_inv(2) a(1) calm_env_ok(1) a(2,3,6) k, of 2 sample_world] a(4,5) by simp
qed

text \<open>
  C22. A flush empties the queue: afterwards no superbuffer is left, matched or not, the counts
  are 0, the expected frame number is the given one, and the buffers that were in the queue have
  been returned to their streams, each once and in the order of the queue.
\<close>

theorem superbuf_flush_empties:
  assumes "superbuf_inv ch"
  shows "\<exists>ch' w'. mm_channel_process_stream_buf e (MM_CAMERA_CMD_TYPE_FLUSH_QUEUE f) (ch, w) = Some (ch', w') \<and>
    q_que (ch_queue ch') = [] \<and> q_match_cnt (ch_queue ch') = 0 \<and> q_size (ch_queue ch') = 0 \<and>
    q_expected_frame_id (ch_queue ch') = f \<and> returned e (queue_bufs (ch_queue ch)) (ch_streams ch) (ch_streams ch')"
proof -
  have inv: "queue_ok (ch_queue ch)" "bufs_fit ch" using assms by (auto simp: superbuf_inv_def)
  obtain ch' w' where r: "mm_channel_superbuf_flush e (set_queue ((ch_queue ch)\<lparr>q_expected_frame_id := f\<rparr>) ch) w = Some (ch', w')"
    "ch_step e (queue_bufs (ch_queue ch)) ch ch'"
    "ch_queue ch' = queue_drop (length (q_que (ch_queue ch))) ((ch_queue ch)\<lparr>q_expected_frame_id := f\<rparr>)"
    using flush_expected_runs [OF inv, of e f w] by (auto simp: runs_iff)
  have "queue_ok (ch_queue ch')" unfolding r(3) by (rule queue_ok_drop) (use inv(1) in simp_all)
  then have "q_match_cnt (ch_queue ch') = 0 \<and> q_size (ch_queue ch') = 0"
    using r(3) by (simp add: queue_ok_def unat_eq_zero)
  then show ?thesis
    using r ch_step_core(5) [OF r(2)] by (auto simp: mm_channel_process_stream_buf_def)
qed

theorem superbuf_flush_empties_witness:
  "\<exists>ch' w'. mm_channel_process_stream_buf (calm_env 2) (MM_CAMERA_CMD_TYPE_FLUSH_QUEUE 9)
      (sample_bundle [sample_node 1, sample_node 2], sample_world) = Some (ch', w') \<and> q_que (ch_queue ch') = []"
  using superbuf_flush_empties [OF sample_bundle_inv(2), of "calm_env 2" 9 sample_world] by blast

text \<open>
  C31. A waiting frame with number 0 is lost when its superbuffer is given up. The removal returns
  the buffers whose frame number is not 0, because 0 marks an empty slot; a superbuffer for frame
  number 0 is removed without returning any buffer, so the streams are unchanged.
\<close>

theorem superbuf_frame_zero_lost:
  assumes "superbuf_inv ch" and "q_que (ch_queue ch) = ms @ n # ns" and "qn_frame_idx n = 0"
  shows "\<exists>ch' w'. remove_node e (length ms) (ch, w) = Some (ch', w') \<and> q_que (ch_queue ch') = ms @ ns \<and>
    ch_streams ch' = ch_streams ch"
proof -
  have n: "node_ok (q_num_streams (ch_queue ch)) (q_bundled_streams (ch_queue ch)) n"
    "unat (q_num_streams (ch_queue ch)) \<le> MAX_STREAM_NUM_IN_BUNDLE"
    using assms(1,2) by (auto simp: superbuf_inv_def queue_ok_def)
  have "filter (\<lambda>bi. bi_frame_idx bi \<noteq> 0) (take (unat (qn_num_of_bufs n)) (qn_super_buf n)) = []"
    unfolding filter_empty_conv using node_ok_slots [OF n] assms(3) by (fastforce simp: slot_ok_def zero_buf_info_def)
  then have z: "node_ret n = []" by (simp add: node_ret_def map_filter_simps)
  have "buf_fits (ch_streams ch) b" if "b \<in> set (node_bufs n)" for b
    using assms(1,2) that by (auto simp: superbuf_inv_def bufs_fit_def queue_bufs_def)
  from remove_node_runs [OF assms(2) n this, of e w] z show ?thesis
    by (auto simp: runs_iff elim: returned.cases)
qed


definition sample_waiting :: mm_channel_t where
  "sample_waiting = set_queue ((ch_queue (sample_bundle []))\<lparr>q_que := [new_queue_node 2 0 (sample_frame 0x300 0)], q_size := 1\<rparr>)
     (sample_bundle [])"

lemma sample_waiting_inv: "superbuf_inv sample_waiting"
proof -
  let ?n = "new_queue_node 2 0 (sample_frame 0x300 0)"
  have q: "ch_queue sample_waiting = (ch_queue (sample_bundle []))\<lparr>q_que := [?n], q_size := 1\<rparr>"
    by (simp add: sample_waiting_def)
  have "node_ok 2 [0x300, 0x401, 0, 0] ?n"
    by (rule node_ok_new) (simp_all add: slot_ok_def sample_frame_def)
  then have "queue_ok (ch_queue sample_waiting)"
    unfolding q by (intro queue_okI [of _ "[]" "[?n]"]) (simp_all add: sample_bundle_def zero_queue_def)
  moreover have "node_bufs ?n = [(calm_buf 0)\<lparr>b_stream_id := 0x300, b_frame_idx := 0\<rparr>]"
    by (rule node_bufs_new) (simp_all add: sample_frame_def)
  then have "bufs_fit sample_waiting"
    using sample_fits [of "[]"] unfolding bufs_fit_def q by (simp add: queue_bufs_def sample_waiting_def)
  ultimately show ?thesis
    by (simp add: superbuf_inv_def q) (simp add: sample_waiting_def sample_bundle_def sample_channel_def zero_queue_def mm_camera_cmd_thread_launch_def)
qed

theorem superbuf_frame_zero_lost_witness:
  "\<exists>ch' w'. remove_node (calm_env 2) 0 (sample_waiting, sample_world) = Some (ch', w') \<and> q_que (ch_queue ch') = [] \<and>
     ch_streams ch' = ch_streams sample_waiting"
  using superbuf_frame_zero_lost [OF sample_waiting_inv, of "[]" "new_queue_node 2 0 (sample_frame 0x300 0)" "[]" "calm_env 2" sample_world]
  by (simp add: sample_waiting_def sample_frame_def)

end
