(* ===== verification/Channel.thy ===== *)
theory Channel
  imports Superbuf_Correct
begin

text \<open>
  Channels (\<^verbatim>\<open>mm_camera_channel.c\<close>): adding, configuring and removing streams, starting and stopping
  them together, requests for superbuffers, and the state machine that admits these operations.
  The caller of the state machine holds the lock of the channel; the state machine releases it.
\<close>

section \<open>Streams\<close>

definition mm_channel_add_stream ::
  "env \<Rightarrow> mm_channel_t \<Rightarrow> world \<Rightarrow> (uint32_t \<times> mm_channel_t \<times> world) option" where
  "mm_channel_add_stream e ch w =
     (case find_idx (\<lambda>s. s_state s = MM_STREAM_STATE_NOTUSED) (ch_streams ch) of
        None \<Rightarrow> Some (0, ch, w)
      | Some i \<Rightarrow> do {
          let (hdl, w) = mm_camera_util_generate_handler (of_nat i) w;
          let s = zero_stream\<lparr>s_my_hdl := hdl, s_ch_obj := Some (ch_my_hdl ch), s_state := MM_STREAM_STATE_INITED\<rparr>;
          (rc, ch, w) \<leftarrow> stream_evt e i MM_STREAM_EVT_ACQUIRE (ch\<lparr>ch_streams := (ch_streams ch)[i := s]\<rparr>) w;
          if rc = 0 then Some (hdl, ch, w)
          else Some (0, ch\<lparr>ch_streams := (ch_streams ch)[i := zero_stream]\<rparr>, w)
        })"

text \<open>The event for the stream with a handle; -1 when there is none.\<close>

definition stream_hdl_evt ::
  "env \<Rightarrow> uint32_t \<Rightarrow> mm_stream_evt_type_t \<Rightarrow> mm_channel_t \<Rightarrow> world \<Rightarrow> (int \<times> mm_channel_t \<times> world) option" where
  "stream_hdl_evt e hdl evt ch w =
     (case mm_channel_util_get_stream_by_handler ch hdl of
        None \<Rightarrow> Some (-1, ch, w)
      | Some i \<Rightarrow> stream_evt e i evt ch w)"

definition mm_channel_del_stream ::
  "env \<Rightarrow> uint32_t \<Rightarrow> mm_channel_t \<Rightarrow> world \<Rightarrow> (int \<times> mm_channel_t \<times> world) option" where
  "mm_channel_del_stream e stream_id ch w = stream_hdl_evt e stream_id MM_STREAM_EVT_RELEASE ch w"

definition mm_channel_config_stream ::
  "env \<Rightarrow> uint32_t \<Rightarrow> mm_camera_stream_config_t option \<Rightarrow> mm_channel_t \<Rightarrow> world \<Rightarrow> (int \<times> mm_channel_t \<times> world) option" where
  "mm_channel_config_stream e stream_id config ch w = stream_hdl_evt e stream_id (MM_STREAM_EVT_SET_FMT config) ch w"

definition mm_channel_set_stream_parm ::
  "env \<Rightarrow> mm_evt_paylod_set_get_stream_parms_t \<Rightarrow> mm_channel_t \<Rightarrow> world \<Rightarrow> (int \<times> mm_channel_t \<times> world) option" where
  "mm_channel_set_stream_parm e payload ch w =
     stream_hdl_evt e (pl_stream_id payload) (MM_STREAM_EVT_SET_PARM (Some payload)) ch w"

definition mm_channel_get_stream_parm ::
  "env \<Rightarrow> mm_evt_paylod_set_get_stream_parms_t \<Rightarrow> mm_channel_t \<Rightarrow> world \<Rightarrow> (int \<times> mm_channel_t \<times> world) option" where
  "mm_channel_get_stream_parm e payload ch w =
     stream_hdl_evt e (pl_stream_id payload) (MM_STREAM_EVT_GET_PARM (Some payload)) ch w"

definition mm_channel_do_stream_action ::
  "env \<Rightarrow> mm_evt_paylod_do_stream_action_t \<Rightarrow> mm_channel_t \<Rightarrow> world \<Rightarrow> (int \<times> mm_channel_t \<times> world) option" where
  "mm_channel_do_stream_action e payload ch w =
     stream_hdl_evt e (ac_stream_id payload) (MM_STREAM_EVT_DO_ACTION (Some payload)) ch w"

definition mm_channel_map_stream_buf ::
  "env \<Rightarrow> mm_evt_paylod_map_stream_buf_t \<Rightarrow> mm_channel_t \<Rightarrow> world \<Rightarrow> (int \<times> world) option" where
  "mm_channel_map_stream_buf e payload ch w =
     (case mm_channel_util_get_stream_by_handler ch (mb_stream_id payload) of
        None \<Rightarrow> Some (-1, w)
      | Some i \<Rightarrow> mm_stream_map_buf e (ch_streams ch ! i) ch (mb_buf_type payload) (mb_buf_idx payload)
          (mb_plane_idx payload) (mb_fd payload) (mb_size payload) w)"

definition mm_channel_unmap_stream_buf ::
  "env \<Rightarrow> mm_evt_paylod_unmap_stream_buf_t \<Rightarrow> mm_channel_t \<Rightarrow> world \<Rightarrow> (int \<times> world) option" where
  "mm_channel_unmap_stream_buf e payload ch w =
     (case mm_channel_util_get_stream_by_handler ch (ub_stream_id payload) of
        None \<Rightarrow> Some (-1, w)
      | Some i \<Rightarrow> mm_stream_unmap_buf e (ch_streams ch ! i) ch (ub_buf_type payload) (ub_buf_idx payload)
          (ub_plane_idx payload) w)"

section \<open>Bundle information\<close>

definition zero_bundle_config :: cam_bundle_config_t where
  "zero_bundle_config = \<lparr>bundle_id = 0, num_of_streams = 0, stream_ids = replicate MAX_STREAM_NUM_IN_BUNDLE 0\<rparr>"

text \<open>The loop over the slots; the first result is the error code, and -1 leaves the loop.\<close>

fun bundle_info_loop ::
  "mm_channel_t \<Rightarrow> nat list \<Rightarrow> cam_bundle_config_t \<Rightarrow> (int \<times> cam_bundle_config_t) option" where
  "bundle_info_loop ch [] info = Some (0, info)"
| "bundle_info_loop ch (i # is) info = do {
     s \<leftarrow> nth_opt (ch_streams ch) (int i);
     if s_my_hdl s > 0 then
       (case mm_channel_util_get_stream_by_handler ch (s_my_hdl s) of
          None \<Rightarrow> Some (-1, info)
        | Some j \<Rightarrow> do {
            si \<leftarrow> s_stream_info (ch_streams ch ! j);
            if si_stream_type si \<noteq> CAM_STREAM_TYPE_METADATA then
              bundle_info_loop ch is (info\<lparr>stream_ids := (stream_ids info)[unat (num_of_streams info) :=
                  s_server_stream_id (ch_streams ch ! j)], num_of_streams := num_of_streams info + 1\<rparr>)
            else bundle_info_loop ch is info
          })
     else bundle_info_loop ch is info
   }"

definition mm_channel_get_bundle_info :: "mm_channel_t \<Rightarrow> (int \<times> cam_bundle_config_t) option" where
  "mm_channel_get_bundle_info ch = do {
     (rc, info) \<leftarrow> bundle_info_loop ch [0..<MAX_STREAM_NUM_IN_BUNDLE] (zero_bundle_config\<lparr>bundle_id := ch_my_hdl ch\<rparr>);
     Some (rc, if rc \<noteq> 0 then zero_bundle_config else info)
   }"

section \<open>Start and stop\<close>

text \<open>
  The streams to start or to stop (their slots, in order) and the position of the last metadata
  stream among them, 0 when there is none.
\<close>

definition collect_streams :: "mm_channel_t \<Rightarrow> (nat list \<times> nat) option" where
  "collect_streams ch = foldM (\<lambda>i (objs, meta). do {
     s \<leftarrow> nth_opt (ch_streams ch) (int i);
     if s_my_hdl s > 0 then
       (case mm_channel_util_get_stream_by_handler ch (s_my_hdl s) of
          None \<Rightarrow> Some (objs, meta)
        | Some j \<Rightarrow> do {
            si \<leftarrow> s_stream_info (ch_streams ch ! j);
            Some (objs @ [j], if si_stream_type si = CAM_STREAM_TYPE_METADATA then length objs else meta)
          })
     else Some (objs, meta)
   }) [0..<MAX_STREAM_NUM_IN_BUNDLE] ([], 0)"

definition swap :: "nat \<Rightarrow> nat \<Rightarrow> 'a list \<Rightarrow> 'a list" where
  "swap i j xs = xs[i := xs ! j, j := xs ! i]"

definition start_order :: "nat list \<times> nat \<Rightarrow> nat list" where
  "start_order = (\<lambda>(objs, meta). if meta > 0 then swap 0 meta objs else objs)"

definition stop_order :: "nat list \<times> nat \<Rightarrow> nat list" where
  "stop_order = (\<lambda>(objs, meta). if int meta < int (length objs) - 1 then swap (length objs - 1) meta objs else objs)"

text \<open>Setting up the superbuffer queue and the two threads of a channel with a callback.\<close>

definition bundle_streams :: "nat list \<Rightarrow> mm_channel_t \<Rightarrow> mm_channel_t" where
  "bundle_streams objs ch =
     ch\<lparr>ch_streams := fold (\<lambda>j ss. ss[j := (ss ! j)\<lparr>s_is_bundled := True\<rparr>]) objs (ch_streams ch)\<rparr>"

definition start_bundle :: "nat list \<Rightarrow> mm_channel_t \<Rightarrow> mm_channel_t" where
  "start_bundle objs ch =
     (if bd_super_buf_notify_cb (ch_bundle ch) \<noteq> None then
        (let q = mm_channel_superbuf_queue_init (ch_queue ch);
             hdls = map (\<lambda>j. s_my_hdl (ch_streams ch ! j)) objs;
             q = q\<lparr>q_num_streams := of_nat (length objs), q_expected_frame_id := 0,
                   q_bundled_streams := hdls @ drop (length objs) (q_bundled_streams q)\<rparr>;
             ch = bundle_streams objs (set_queue q ch);
             ch = ch\<lparr>ch_cb_thread := mm_camera_cmd_thread_launch Fn_mm_channel_dispatch_super_buf (ch_my_hdl ch) (ch_cb_thread ch)\<rparr>;
             ch = ch\<lparr>ch_cmd_thread := mm_camera_cmd_thread_launch Fn_mm_channel_process_stream_buf (ch_my_hdl ch) (ch_cmd_thread ch)\<rparr>
         in ch\<lparr>ch_bundle := (ch_bundle ch)\<lparr>bd_is_active := True\<rparr>\<rparr>)
      else ch)"

text \<open>The loop that starts the streams; the second result is the position where it ended.\<close>

fun start_loop ::
  "env \<Rightarrow> nat list \<Rightarrow> nat \<Rightarrow> mm_channel_t \<Rightarrow> world \<Rightarrow> (int \<times> nat \<times> mm_channel_t \<times> world) option" where
  "start_loop e [] i ch w = Some (0, i, ch, w)"
| "start_loop e (j # js) i ch w =
     (if s_state (ch_streams ch ! j) = MM_STREAM_STATE_ACTIVE then Some (-1, i, ch, w)
      else do {
        (rc, ch, w) \<leftarrow> stream_evt e j MM_STREAM_EVT_GET_BUF ch w;
        if rc \<noteq> 0 then Some (rc, i, ch, w)
        else do {
          (rc, ch, w) \<leftarrow> stream_evt e j MM_STREAM_EVT_REG_BUF ch w;
          if rc \<noteq> 0 then Some (rc, i, ch, w)
          else do {
            (rc, ch, w) \<leftarrow> stream_evt e j MM_STREAM_EVT_START ch w;
            if rc \<noteq> 0 then Some (rc, i, ch, w)
            else start_loop e js (Suc i) ch w
          }
        }
      })"

text \<open>Events whose error code is ignored.\<close>

definition stream_evts ::
  "env \<Rightarrow> nat \<Rightarrow> mm_stream_evt_type_t list \<Rightarrow> mm_channel_t \<times> world \<Rightarrow> (mm_channel_t \<times> world) option" where
  "stream_evts e j = foldM (\<lambda>evt (ch, w). do { (_, ch, w) \<leftarrow> stream_evt e j evt ch w; Some (ch, w) })"

definition mm_channel_start :: "env \<Rightarrow> mm_channel_t \<Rightarrow> world \<Rightarrow> (int \<times> mm_channel_t \<times> world) option" where
  "mm_channel_start e ch w = do {
     found \<leftarrow> collect_streams ch;
     let objs = start_order found;
     (rc, i, ch, w) \<leftarrow> start_loop e objs 0 (start_bundle objs ch) w;
     if rc \<noteq> 0 then do {
       (ch, w) \<leftarrow> foldM (\<lambda>j. stream_evts e j [MM_STREAM_EVT_STOP, MM_STREAM_EVT_UNREG_BUF, MM_STREAM_EVT_PUT_BUF])
         (take (Suc i) objs) (ch, w);
       Some (rc, ch, w)
     }
     else Some (rc, ch, w)
   }"

text \<open>
  Releasing the two threads of the bundle: the thread handles what is left in its queue. The
  queue of superbuffers is freed without returning the buffers, whose streams have been stopped.
\<close>

definition release_cmd_thread :: "env \<Rightarrow> mm_channel_t \<Rightarrow> world \<Rightarrow> (mm_channel_t \<times> world) option" where
  "release_cmd_thread e ch w = do {
     (_, t, ch, w) \<leftarrow> mm_camera_cmd_thread_release e
       (map_option (\<lambda>_. mm_channel_process_stream_buf e) (ct_cb (ch_cmd_thread ch))) (ch_cmd_thread ch) ch w;
     Some (ch\<lparr>ch_cmd_thread := t\<rparr>, w)
   }"

definition release_cb_thread :: "env \<Rightarrow> mm_channel_t \<Rightarrow> world \<Rightarrow> (mm_channel_t \<times> world) option" where
  "release_cb_thread e ch w = do {
     (_, t, ch, w) \<leftarrow> mm_camera_cmd_thread_release e
       (map_option (\<lambda>_ c (ch, w). Some (ch, mm_channel_dispatch_super_buf e c ch w)) (ct_cb (ch_cb_thread ch)))
       (ch_cb_thread ch) ch w;
     Some (ch\<lparr>ch_cb_thread := t\<rparr>, w)
   }"

definition stop_bundle :: "env \<Rightarrow> mm_channel_t \<Rightarrow> world \<Rightarrow> (mm_channel_t \<times> world) option" where
  "stop_bundle e ch w =
     (if bd_is_active (ch_bundle ch) then do {
        (ch, w) \<leftarrow> release_cmd_thread e ch w;
        (ch, w) \<leftarrow> release_cb_thread e ch w;
        let ch = set_queue (mm_channel_superbuf_queue_deinit (ch_queue ch)) ch;
        Some (ch\<lparr>ch_bundle := zero_bundle\<rparr>, w)
      }
      else Some (ch, w))"

definition mm_channel_stop :: "env \<Rightarrow> mm_channel_t \<Rightarrow> world \<Rightarrow> (int \<times> mm_channel_t \<times> world) option" where
  "mm_channel_stop e ch w = do {
     found \<leftarrow> collect_streams ch;
     let objs = stop_order found;
     (ch, w) \<leftarrow> foldM (\<lambda>j. stream_evts e j [MM_STREAM_EVT_STOP, MM_STREAM_EVT_UNREG_BUF]) objs (ch, w);
     (ch, w) \<leftarrow> stop_bundle e ch w;
     (ch, w) \<leftarrow> foldM (\<lambda>j. stream_evts e j [MM_STREAM_EVT_PUT_BUF]) objs (ch, w);
     Some (0, ch, w)
   }"

section \<open>Requests to the command thread\<close>

definition post_cmd :: "env \<Rightarrow> mm_camera_cmdcb_t \<Rightarrow> mm_channel_t \<Rightarrow> world \<Rightarrow> (int \<times> mm_channel_t \<times> world) option" where
  "post_cmd e c ch w =
     (let (node, w) = malloc e w
      in if node then do {
           (t, w) \<leftarrow> cmd_thread_post e c (ch_cmd_thread ch) w;
           Some (0, ch\<lparr>ch_cmd_thread := t\<rparr>, w)
         }
         else Some (-1, ch, w))"

definition mm_channel_request_super_buf ::
  "env \<Rightarrow> uint32_t \<Rightarrow> mm_channel_t \<Rightarrow> world \<Rightarrow> (int \<times> mm_channel_t \<times> world) option" where
  "mm_channel_request_super_buf e n ch w = post_cmd e (MM_CAMERA_CMD_TYPE_REQ_DATA_CB n) ch w"

definition mm_channel_cancel_super_buf_request :: "env \<Rightarrow> mm_channel_t \<Rightarrow> world \<Rightarrow> (int \<times> mm_channel_t \<times> world) option" where
  "mm_channel_cancel_super_buf_request e ch w = mm_channel_request_super_buf e 0 ch w"

definition mm_channel_flush_super_buf_queue ::
  "env \<Rightarrow> uint32_t \<Rightarrow> mm_channel_t \<Rightarrow> world \<Rightarrow> (int \<times> mm_channel_t \<times> world) option" where
  "mm_channel_flush_super_buf_queue e frame_idx ch w = post_cmd e (MM_CAMERA_CMD_TYPE_FLUSH_QUEUE frame_idx) ch w"

definition mm_channel_config_notify_mode ::
  "env \<Rightarrow> mm_camera_super_buf_notify_mode_t \<Rightarrow> mm_channel_t \<Rightarrow> world \<Rightarrow> (int \<times> mm_channel_t \<times> world) option" where
  "mm_channel_config_notify_mode e mode ch w = post_cmd e (MM_CAMERA_CMD_TYPE_CONFIG_NOTIFY mode) ch w"

section \<open>Life cycle and state machine\<close>

definition mm_channel_init ::
  "env \<Rightarrow> mm_camera_channel_attr_t option \<Rightarrow> nat option \<Rightarrow> nat \<Rightarrow> mm_channel_t \<Rightarrow> world \<Rightarrow> int \<times> mm_channel_t \<times> world" where
  "mm_channel_init e attr channel_cb userdata ch w =
     (let ch = ch\<lparr>ch_bundle := (ch_bundle ch)\<lparr>bd_super_buf_notify_cb := channel_cb, bd_user_data := userdata\<rparr>\<rparr>;
          ch = (case attr of None \<Rightarrow> ch | Some a \<Rightarrow> set_queue ((ch_queue ch)\<lparr>q_attr := a\<rparr>) ch);
          (_, pt, w) = mm_camera_poll_thread_launch e MM_CAMERA_POLL_TYPE_DATA (ch_poll_thread ch) w
      in (0, ch\<lparr>ch_poll_thread := pt, ch_state := MM_CHANNEL_STATE_STOPPED\<rparr>, w))"

definition mm_channel_release :: "env \<Rightarrow> mm_channel_t \<Rightarrow> world \<Rightarrow> (mm_channel_t \<times> world) option" where
  "mm_channel_release e ch w = do {
     (_, pt, w) \<leftarrow> mm_camera_poll_thread_release e (ch_poll_thread ch) w;
     Some (ch\<lparr>ch_poll_thread := pt, ch_state := MM_CHANNEL_STATE_NOTUSED\<rparr>, w)
   }"

text \<open>What an event writes through its arguments.\<close>

datatype channel_out = No_out | Out_handle uint32_t | Out_bundle cam_bundle_config_t

type_synonym channel_result = "(int \<times> channel_out \<times> mm_channel_t \<times> world) option"

definition no_out :: "(int \<times> mm_channel_t \<times> world) option \<Rightarrow> channel_result" where
  "no_out r = do { (rc, ch, w) \<leftarrow> r; Some (rc, No_out, ch, w) }"

definition mm_channel_fsm_fn_notused :: "env \<Rightarrow> mm_channel_evt_type_t \<Rightarrow> mm_channel_t \<Rightarrow> world \<Rightarrow> channel_result" where
  "mm_channel_fsm_fn_notused e evt ch w = Some (-1, No_out, ch, w)"

definition mm_channel_fsm_fn_stopped :: "env \<Rightarrow> mm_channel_evt_type_t \<Rightarrow> mm_channel_t \<Rightarrow> world \<Rightarrow> channel_result" where
  "mm_channel_fsm_fn_stopped e evt ch w =
     (case evt of
        MM_CHANNEL_EVT_ADD_STREAM \<Rightarrow> do {
          (s_hdl, ch, w) \<leftarrow> mm_channel_add_stream e ch w;
          Some (0, Out_handle s_hdl, ch, w)
        }
      | MM_CHANNEL_EVT_DEL_STREAM s_id \<Rightarrow> no_out (mm_channel_del_stream e s_id ch w)
      | MM_CHANNEL_EVT_START \<Rightarrow> do {
          (rc, ch, w) \<leftarrow> mm_channel_start e ch w;
          Some (rc, No_out, if rc = 0 then ch\<lparr>ch_state := MM_CHANNEL_STATE_ACTIVE\<rparr> else ch, w)
        }
      | MM_CHANNEL_EVT_CONFIG_STREAM payload \<Rightarrow>
          no_out (mm_channel_config_stream e (cs_stream_id payload) (cs_config payload) ch w)
      | MM_CHANNEL_EVT_GET_BUNDLE_INFO \<Rightarrow> do {
          (rc, info) \<leftarrow> mm_channel_get_bundle_info ch;
          Some (rc, Out_bundle info, ch, w)
        }
      | MM_CHANNEL_EVT_DELETE \<Rightarrow> do {
          (ch, w) \<leftarrow> mm_channel_release e ch w;
          Some (0, No_out, ch, w)
        }
      | MM_CHANNEL_EVT_SET_STREAM_PARM payload \<Rightarrow> no_out (mm_channel_set_stream_parm e payload ch w)
      | MM_CHANNEL_EVT_GET_STREAM_PARM payload \<Rightarrow> no_out (mm_channel_get_stream_parm e payload ch w)
      | MM_CHANNEL_EVT_DO_STREAM_ACTION payload \<Rightarrow> no_out (mm_channel_do_stream_action e payload ch w)
      | MM_CHANNEL_EVT_MAP_STREAM_BUF payload \<Rightarrow> do {
          (rc, w) \<leftarrow> mm_channel_map_stream_buf e payload ch w;
          Some (rc, No_out, ch, w)
        }
      | MM_CHANNEL_EVT_UNMAP_STREAM_BUF payload \<Rightarrow> do {
          (rc, w) \<leftarrow> mm_channel_unmap_stream_buf e payload ch w;
          Some (rc, No_out, ch, w)
        }
      | _ \<Rightarrow> Some (0, No_out, ch, w))"

definition mm_channel_fsm_fn_active :: "env \<Rightarrow> mm_channel_evt_type_t \<Rightarrow> mm_channel_t \<Rightarrow> world \<Rightarrow> channel_result" where
  "mm_channel_fsm_fn_active e evt ch w =
     (case evt of
        MM_CHANNEL_EVT_STOP \<Rightarrow> do {
          (rc, ch, w) \<leftarrow> mm_channel_stop e ch w;
          Some (rc, No_out, ch\<lparr>ch_state := MM_CHANNEL_STATE_STOPPED\<rparr>, w)
        }
      | MM_CHANNEL_EVT_REQUEST_SUPER_BUF n \<Rightarrow> no_out (mm_channel_request_super_buf e n ch w)
      | MM_CHANNEL_EVT_CANCEL_REQUEST_SUPER_BUF \<Rightarrow> no_out (mm_channel_cancel_super_buf_request e ch w)
      | MM_CHANNEL_EVT_FLUSH_SUPER_BUF_QUEUE f \<Rightarrow> no_out (mm_channel_flush_super_buf_queue e f ch w)
      | MM_CHANNEL_EVT_CONFIG_NOTIFY_MODE mode \<Rightarrow> no_out (mm_channel_config_notify_mode e mode ch w)
      | MM_CHANNEL_EVT_SET_STREAM_PARM payload \<Rightarrow> no_out (mm_channel_set_stream_parm e payload ch w)
      | MM_CHANNEL_EVT_GET_STREAM_PARM payload \<Rightarrow> no_out (mm_channel_get_stream_parm e payload ch w)
      | MM_CHANNEL_EVT_DO_STREAM_ACTION payload \<Rightarrow> no_out (mm_channel_do_stream_action e payload ch w)
      | MM_CHANNEL_EVT_MAP_STREAM_BUF payload \<Rightarrow>
          (if mb_buf_type payload = CAM_MAPPING_BUF_TYPE_OFFLINE_INPUT_BUF then do {
             (rc, w) \<leftarrow> mm_channel_map_stream_buf e payload ch w;
             Some (rc, No_out, ch, w)
           }
           else Some (0, No_out, ch, w))
      | MM_CHANNEL_EVT_UNMAP_STREAM_BUF payload \<Rightarrow>
          (if ub_buf_type payload = CAM_MAPPING_BUF_TYPE_OFFLINE_INPUT_BUF then do {
             (rc, w) \<leftarrow> mm_channel_unmap_stream_buf e payload ch w;
             Some (rc, No_out, ch, w)
           }
           else Some (0, No_out, ch, w))
      | _ \<Rightarrow> Some (0, No_out, ch, w))"

definition mm_channel_fsm_fn_paused :: "env \<Rightarrow> mm_channel_evt_type_t \<Rightarrow> mm_channel_t \<Rightarrow> world \<Rightarrow> channel_result" where
  "mm_channel_fsm_fn_paused e evt ch w = Some (0, No_out, ch, w)"

definition mm_channel_fsm_fn :: "env \<Rightarrow> mm_channel_evt_type_t \<Rightarrow> mm_channel_t \<Rightarrow> world \<Rightarrow> channel_result" where
  "mm_channel_fsm_fn e evt ch w = do {
     (rc, out, ch, w) \<leftarrow> (case ch_state ch of
          MM_CHANNEL_STATE_NOTUSED \<Rightarrow> mm_channel_fsm_fn_notused e evt ch w
        | MM_CHANNEL_STATE_STOPPED \<Rightarrow> mm_channel_fsm_fn_stopped e evt ch w
        | MM_CHANNEL_STATE_ACTIVE \<Rightarrow> mm_channel_fsm_fn_active e evt ch w
        | MM_CHANNEL_STATE_PAUSED \<Rightarrow> mm_channel_fsm_fn_paused e evt ch w
        | MM_CHANNEL_STATE_MAX \<Rightarrow> Some (-1, No_out, ch, w));
     Some (rc, out, ch\<lparr>ch_lock := False\<rparr>, w)
   }"

end
