(* ===== verification/Camera.thy ===== *)
theory Camera
  imports Channel
begin

text \<open>
  Cameras (\<^verbatim>\<open>mm_camera.c\<close>): opening and closing, events from the server, and the operations on
  channels and streams, which find the channel, exchange the lock of the camera for the lock of the
  channel and send an event to it.
\<close>

section \<open>State\<close>

record mm_camera_evt_entry_t =
  ee_evt_cb :: "nat option"
  ee_user_data :: nat

record mm_camera_obj_t =
  cam_my_hdl :: uint32_t
  cam_ref_count :: int
  cam_ctrl_fd :: int
  cam_ds_fd :: int
  cam_lock :: bool
  cam_ch :: "mm_channel_t list"
  cam_evt :: "mm_camera_evt_entry_t list"
  cam_reg_count :: int
  cam_evt_poll_thread :: mm_camera_poll_thread_t
  cam_evt_thread :: mm_camera_cmd_thread_t
  cam_vtbl_handle :: uint32_t
  cam_evt_rcvd :: mm_camera_event_t

definition zero_event :: mm_camera_event_t where
  "zero_event = \<lparr>server_event_type = 0, evt_status = 0\<rparr>"

definition zero_camera :: mm_camera_obj_t where
  "zero_camera = \<lparr>cam_my_hdl = 0, cam_ref_count = 0, cam_ctrl_fd = 0, cam_ds_fd = 0, cam_lock = False,
     cam_ch = replicate MM_CAMERA_CHANNEL_MAX zero_channel,
     cam_evt = replicate MM_CAMERA_EVT_ENTRY_MAX \<lparr>ee_evt_cb = None, ee_user_data = 0\<rparr>, cam_reg_count = 0,
     cam_evt_poll_thread = zero_poll_thread, cam_evt_thread = zero_cmd_thread, cam_vtbl_handle = 0, cam_evt_rcvd = zero_event\<rparr>"

text \<open>What a channel reads through its pointer to the camera.\<close>

definition cam_ref :: "mm_camera_obj_t \<Rightarrow> cam_obj_ref" where
  "cam_ref cam = \<lparr>co_my_hdl = cam_my_hdl cam, co_ctrl_fd = cam_ctrl_fd cam, co_ds_fd = cam_ds_fd cam\<rparr>"

definition mm_camera_util_get_channel_by_handler :: "mm_camera_obj_t \<Rightarrow> uint32_t \<Rightarrow> nat option" where
  "mm_camera_util_get_channel_by_handler cam handler = find_idx (\<lambda>ch. handler = ch_my_hdl ch) (cam_ch cam)"

section \<open>Events from the server\<close>

definition CAM_EVENT_TYPE_MAP_UNMAP_DONE :: uint32_t where "CAM_EVENT_TYPE_MAP_UNMAP_DONE = 1"
definition CAM_EVENT_TYPE_DAEMON_DIED :: uint32_t where "CAM_EVENT_TYPE_DAEMON_DIED = 8"

text \<open>
  The callback of the event thread: every registered client is told. A command of another type would be
  read through the wrong member of the union.
\<close>

definition mm_camera_dispatch_app_event ::
  "env \<Rightarrow> mm_camera_cmdcb_t \<Rightarrow> mm_camera_obj_t \<times> world \<Rightarrow> (mm_camera_obj_t \<times> world) option" where
  "mm_camera_dispatch_app_event e cmd_cb = (\<lambda>(cam, w).
     (case cmd_cb of
        MM_CAMERA_CMD_TYPE_EVT_CB event \<Rightarrow>
          Some (cam, fold (\<lambda>ent w. case ee_evt_cb ent of
              None \<Rightarrow> w
            | Some f \<Rightarrow> snd (sys e (Cb_event_notify f (ee_user_data ent) (cam_my_hdl cam) event) w)) (cam_evt cam) w)
      | _ \<Rightarrow> None))"

definition mm_camera_enqueue_evt ::
  "env \<Rightarrow> mm_camera_event_t \<Rightarrow> mm_camera_obj_t \<Rightarrow> world \<Rightarrow> (int \<times> mm_camera_obj_t \<times> world) option" where
  "mm_camera_enqueue_evt e event cam w =
     (let (node, w) = malloc e w
      in if node then do {
           (t, w) \<leftarrow> cmd_thread_post e (MM_CAMERA_CMD_TYPE_EVT_CB event) (cam_evt_thread cam) w;
           Some (0, cam\<lparr>cam_evt_thread := t\<rparr>, w)
         }
         else Some (-1, cam, w))"

definition mm_camera_event_notify :: "env \<Rightarrow> mm_camera_obj_t \<Rightarrow> world \<Rightarrow> (mm_camera_obj_t \<times> world) option" where
  "mm_camera_event_notify e cam w =
     (let ev = e_dqevent e (w_trace w);
          (rc, w) = sys e (Sys_ioctl (cam_ctrl_fd cam) VIDIOC_DQEVENT) w
      in if rc \<ge> 0 then
           (case ev of
              Evt_map_unmap_done status \<Rightarrow>
                Some (cam\<lparr>cam_evt_rcvd := \<lparr>server_event_type = CAM_EVENT_TYPE_MAP_UNMAP_DONE, evt_status = status\<rparr>\<rparr>, w)
            | Evt_priv_shutdown \<Rightarrow> do {
                (_, cam, w) \<leftarrow> mm_camera_enqueue_evt e (zero_event\<lparr>server_event_type := CAM_EVENT_TYPE_DAEMON_DIED\<rparr>) cam w;
                Some (cam, w)
              }
            | _ \<Rightarrow> Some (cam, w))
         else Some (cam, w))"

definition mm_camera_evt_sub ::
  "env \<Rightarrow> bool \<Rightarrow> mm_camera_obj_t \<Rightarrow> world \<Rightarrow> (int \<times> mm_camera_obj_t \<times> world) option" where
  "mm_camera_evt_sub e reg_flag cam w =
     (if \<not> reg_flag then
        (let (rc, w) = sys e (Sys_ioctl (cam_ctrl_fd cam) VIDIOC_UNSUBSCRIBE_EVENT) w
         in if rc < 0 then Some (rc, cam, w)
            else do {
              (rc, pt, w) \<leftarrow> mm_camera_poll_thread_del_poll_fd e (cam_my_hdl cam) (cam_evt_poll_thread cam) w;
              Some (rc, cam\<lparr>cam_evt_poll_thread := pt\<rparr>, w)
            })
      else
        (let (rc, w) = sys e (Sys_ioctl (cam_ctrl_fd cam) VIDIOC_SUBSCRIBE_EVENT) w
         in if rc < 0 then Some (rc, cam, w)
            else do {
              (rc, pt, w) \<leftarrow> mm_camera_poll_thread_add_poll_fd e (cam_my_hdl cam) (cam_ctrl_fd cam)
                 (Some Fn_mm_camera_event_notify) (cam_my_hdl cam) (cam_evt_poll_thread cam) w;
              Some (rc, cam\<lparr>cam_evt_poll_thread := pt\<rparr>, w)
            }))"

section \<open>Opening and closing\<close>

text \<open>
  The loops that open the device and the socket: \<open>n\<close> is the number of tries that are left after
  this one. The pause between two tries is not modelled, nor the camera number that the name of the
  socket is made of.
\<close>

abbreviation (input) MM_CAMERA_DEV_OPEN_TRIES :: nat where "MM_CAMERA_DEV_OPEN_TRIES \<equiv> 2"

fun open_ctrl_fd :: "env \<Rightarrow> string \<Rightarrow> nat \<Rightarrow> world \<Rightarrow> int \<times> world" where
  "open_ctrl_fd e dev_name 0 w = sys e (Sys_open dev_name) w"
| "open_ctrl_fd e dev_name (Suc n) w =
     (let (fd, w) = sys e (Sys_open dev_name) w
      in if fd > 0 \<or> \<not> e_errno_eio e (w_trace w) then (fd, w) else open_ctrl_fd e dev_name n w)"

fun open_ds_fd :: "env \<Rightarrow> nat \<Rightarrow> world \<Rightarrow> int \<times> world" where
  "open_ds_fd e 0 w = sys e Sys_socket_create w"
| "open_ds_fd e (Suc n) w =
     (let (fd, w) = sys e Sys_socket_create w
      in if fd > 0 then (fd, w) else open_ds_fd e n w)"

definition close_fds :: "env \<Rightarrow> mm_camera_obj_t \<Rightarrow> world \<Rightarrow> mm_camera_obj_t \<times> world" where
  "close_fds e cam w =
     (let (cam, w) = (if cam_ctrl_fd cam > 0
            then (cam\<lparr>cam_ctrl_fd := 0\<rparr>, snd (sys e (Sys_close (cam_ctrl_fd cam)) w)) else (cam, w))
      in if cam_ds_fd cam > 0
         then (cam\<lparr>cam_ds_fd := 0\<rparr>, snd (sys e (Sys_socket_close (cam_ds_fd cam)) w)) else (cam, w))"

definition mm_camera_open :: "env \<Rightarrow> mm_camera_obj_t \<Rightarrow> world \<Rightarrow> (int \<times> mm_camera_obj_t \<times> world) option" where
  "mm_camera_open e cam w = do {
     name \<leftarrow> mm_camera_util_get_dev_name (cam_my_hdl cam) w;
     let dev_name = take (MM_CAMERA_DEV_NAME_LEN - 1) (''/dev/'' @ name);
     let (fd, w) = open_ctrl_fd e dev_name (MM_CAMERA_DEV_OPEN_TRIES - 1) w;
     let cam = cam\<lparr>cam_ctrl_fd := fd\<rparr>;
     if fd \<le> 0 then (let (cam, w) = close_fds e cam w in Some (-1, cam, w))
     else do {
       let (fd, w) = open_ds_fd e (MM_CAMERA_DEV_OPEN_TRIES - 1) w;
       let cam = cam\<lparr>cam_ds_fd := fd\<rparr>;
       if fd \<le> 0 then (let (cam, w) = close_fds e cam w in Some (-1, cam, w))
       else do {
         let cam = cam\<lparr>cam_evt_thread := mm_camera_cmd_thread_launch Fn_mm_camera_dispatch_app_event (cam_my_hdl cam) (cam_evt_thread cam)\<rparr>;
         let (_, pt, w) = mm_camera_poll_thread_launch e MM_CAMERA_POLL_TYPE_EVT (cam_evt_poll_thread cam) w;
         (_, cam, w) \<leftarrow> mm_camera_evt_sub e True (cam\<lparr>cam_evt_poll_thread := pt\<rparr>) w;
         Some (0, cam, w)
       }
     }
   }"

definition mm_camera_close :: "env \<Rightarrow> mm_camera_obj_t \<Rightarrow> world \<Rightarrow> (int \<times> mm_camera_obj_t \<times> world) option" where
  "mm_camera_close e cam w = do {
     (_, cam, w) \<leftarrow> mm_camera_evt_sub e False cam w;
     (_, pt, w) \<leftarrow> mm_camera_poll_thread_release e (cam_evt_poll_thread cam) w;
     let cam = cam\<lparr>cam_evt_poll_thread := pt\<rparr>;
     (_, t, cam, w) \<leftarrow> mm_camera_cmd_thread_release e
        (map_option (\<lambda>_. mm_camera_dispatch_app_event e) (ct_cb (cam_evt_thread cam))) (cam_evt_thread cam) cam w;
     let (cam, w) = close_fds e (cam\<lparr>cam_evt_thread := t\<rparr>) w;
     Some (0, cam\<lparr>cam_lock := False\<rparr>, w)
   }"

definition mm_camera_register_event_notify_internal ::
  "nat option \<Rightarrow> nat \<Rightarrow> mm_camera_obj_t \<Rightarrow> int \<times> mm_camera_obj_t" where
  "mm_camera_register_event_notify_internal evt_cb user_data cam =
     (case evt_cb of
        Some f \<Rightarrow>
          (case find_idx (\<lambda>ent. ee_user_data ent = 0) (cam_evt cam) of
             Some i \<Rightarrow> (0, cam\<lparr>cam_evt := (cam_evt cam)[i := \<lparr>ee_evt_cb = evt_cb, ee_user_data = user_data\<rparr>],
                             cam_reg_count := cam_reg_count cam + 1\<rparr>)
           | None \<Rightarrow> (-1, cam))
      | None \<Rightarrow>
          (case find_idx (\<lambda>ent. ee_user_data ent = user_data) (cam_evt cam) of
             Some i \<Rightarrow> (0, cam\<lparr>cam_evt := (cam_evt cam)[i := \<lparr>ee_evt_cb = None, ee_user_data = 0\<rparr>],
                             cam_reg_count := cam_reg_count cam - 1\<rparr>)
           | None \<Rightarrow> (-1, cam)))"

section \<open>Operations of the camera\<close>

text \<open>They are called with the lock of the camera held, and release it.\<close>

type_synonym 'a camera_op = "mm_camera_obj_t \<Rightarrow> world \<Rightarrow> ('a \<times> mm_camera_obj_t \<times> world) option"

definition unlock :: "mm_camera_obj_t \<Rightarrow> mm_camera_obj_t" where
  "unlock cam = cam\<lparr>cam_lock := False\<rparr>"

definition mm_camera_register_event_notify :: "nat option \<Rightarrow> nat \<Rightarrow> int camera_op" where
  "mm_camera_register_event_notify evt_cb user_data cam w =
     (let (rc, cam) = mm_camera_register_event_notify_internal evt_cb user_data cam in Some (rc, unlock cam, w))"

definition mm_camera_qbuf :: "env \<Rightarrow> uint32_t \<Rightarrow> mm_camera_buf_def_t option \<Rightarrow> int camera_op" where
  "mm_camera_qbuf e ch_id buf cam w =
     (case mm_camera_util_get_channel_by_handler cam ch_id of
        None \<Rightarrow> Some (-1, unlock cam, w)
      | Some i \<Rightarrow> do {
          (rc, ch, w) \<leftarrow> mm_channel_qbuf e buf (cam_ch cam ! i) w;
          Some (rc, (unlock cam)\<lparr>cam_ch := (cam_ch cam)[i := ch]\<rparr>, w)
        })"

definition mm_camera_query_capability :: "env \<Rightarrow> int camera_op" where
  "mm_camera_query_capability e cam w =
     (let (rc, w) = sys e (Sys_ioctl (cam_ctrl_fd cam) VIDIOC_QUERYCAP) w in Some (rc, unlock cam, w))"

definition mm_camera_set_parms :: "env \<Rightarrow> nat option \<Rightarrow> int camera_op" where
  "mm_camera_set_parms e parms cam w =
     (let (rc, w) = (if parms \<noteq> None then mm_camera_util_s_ctrl e (cam_ctrl_fd cam) CAM_PRIV_PARM w else (-1, w))
      in Some (rc, unlock cam, w))"

definition mm_camera_get_parms :: "env \<Rightarrow> nat option \<Rightarrow> int camera_op" where
  "mm_camera_get_parms e parms cam w =
     (let (rc, w) = (if parms \<noteq> None then mm_camera_util_g_ctrl e (cam_ctrl_fd cam) CAM_PRIV_PARM w else (-1, w))
      in Some (rc, unlock cam, w))"

definition mm_camera_do_auto_focus :: "env \<Rightarrow> int camera_op" where
  "mm_camera_do_auto_focus e cam w =
     (let (rc, w) = mm_camera_util_s_ctrl e (cam_ctrl_fd cam) CAM_PRIV_DO_AUTO_FOCUS w in Some (rc, unlock cam, w))"

definition mm_camera_cancel_auto_focus :: "env \<Rightarrow> int camera_op" where
  "mm_camera_cancel_auto_focus e cam w =
     (let (rc, w) = mm_camera_util_s_ctrl e (cam_ctrl_fd cam) CAM_PRIV_CANCEL_AUTO_FOCUS w in Some (rc, unlock cam, w))"

definition mm_camera_prepare_snapshot :: "env \<Rightarrow> int \<Rightarrow> int camera_op" where
  "mm_camera_prepare_snapshot e do_af_flag cam w =
     (let (rc, w) = mm_camera_util_s_ctrl e (cam_ctrl_fd cam) CAM_PRIV_PREPARE_SNAPSHOT w in Some (rc, unlock cam, w))"

definition mm_camera_map_buf :: "env \<Rightarrow> cam_mapping_buf_type \<Rightarrow> int \<Rightarrow> uint32_t \<Rightarrow> int camera_op" where
  "mm_camera_map_buf e buf_type fd sz cam w = do {
     (rc, w) \<leftarrow> mm_camera_util_sendmsg e (cam_ref cam) (CAM_MAPPING_TYPE_FD_MAPPING
        \<lparr>map_type = buf_type, map_stream_id = 0, map_frame_idx = 0, map_plane_idx = 0, map_fd = fd, map_size = sz\<rparr>) fd w;
     Some (rc, unlock cam, w)
   }"

definition mm_camera_unmap_buf :: "env \<Rightarrow> cam_mapping_buf_type \<Rightarrow> int camera_op" where
  "mm_camera_unmap_buf e buf_type cam w = do {
     (rc, w) \<leftarrow> mm_camera_util_sendmsg e (cam_ref cam) (CAM_MAPPING_TYPE_FD_UNMAPPING
        \<lparr>unmap_type = buf_type, unmap_stream_id = 0, unmap_frame_idx = 0, unmap_plane_idx = 0\<rparr>) 0 w;
     Some (rc, unlock cam, w)
   }"

section \<open>Operations on channels\<close>

definition mm_camera_add_channel ::
  "env \<Rightarrow> mm_camera_channel_attr_t option \<Rightarrow> nat option \<Rightarrow> nat \<Rightarrow> uint32_t camera_op" where
  "mm_camera_add_channel e attr channel_cb userdata cam w =
     (case find_idx (\<lambda>ch. ch_state ch = MM_CHANNEL_STATE_NOTUSED) (cam_ch cam) of
        None \<Rightarrow> Some (0, unlock cam, w)
      | Some ch_idx \<Rightarrow>
          (let (ch_hdl, w) = mm_camera_util_generate_handler (of_nat ch_idx) w;
               ch = zero_channel\<lparr>ch_my_hdl := ch_hdl, ch_state := MM_CHANNEL_STATE_STOPPED, ch_cam_obj := Some (cam_ref cam)\<rparr>;
               (_, ch, w) = mm_channel_init e attr channel_cb userdata ch w
           in Some (ch_hdl, (unlock cam)\<lparr>cam_ch := (cam_ch cam)[ch_idx := ch]\<rparr>, w)))"

text \<open>
  The event for the channel with a handle: the lock of the channel is taken, the lock of the camera
  released, and the state machine of the channel releases the lock of the channel. A lock that is
  held never becomes free within the step. The first result is what the event returns, \<open>None\<close> when
  there is no such channel.
\<close>

definition channel_call :: "env \<Rightarrow> uint32_t \<Rightarrow> mm_channel_evt_type_t \<Rightarrow> (int \<times> channel_out) option camera_op" where
  "channel_call e ch_id evt cam w =
     (case mm_camera_util_get_channel_by_handler cam ch_id of
        None \<Rightarrow> Some (None, unlock cam, w)
      | Some i \<Rightarrow>
          if ch_lock (cam_ch cam ! i) then None
          else do {
            (rc, out, ch, w) \<leftarrow> mm_channel_fsm_fn e evt ((cam_ch cam ! i)\<lparr>ch_lock := True\<rparr>) w;
            Some (Some (rc, out), (unlock cam)\<lparr>cam_ch := (cam_ch cam)[i := ch]\<rparr>, w)
          })"

definition channel_rc :: "int \<Rightarrow> env \<Rightarrow> uint32_t \<Rightarrow> mm_channel_evt_type_t \<Rightarrow> int camera_op" where
  "channel_rc dflt e ch_id evt cam w = do {
     (r, cam, w) \<leftarrow> channel_call e ch_id evt cam w;
     Some (case r of None \<Rightarrow> dflt | Some (rc, _) \<Rightarrow> rc, cam, w)
   }"

text \<open>After the event the channel is erased, whatever the event returned.\<close>

definition mm_camera_del_channel :: "env \<Rightarrow> uint32_t \<Rightarrow> int camera_op" where
  "mm_camera_del_channel e ch_id cam w = do {
     (rc, cam', w) \<leftarrow> channel_rc (-1) e ch_id MM_CHANNEL_EVT_DELETE cam w;
     Some (rc, case mm_camera_util_get_channel_by_handler cam ch_id of
         None \<Rightarrow> cam'
       | Some i \<Rightarrow> cam'\<lparr>cam_ch := (cam_ch cam')[i := zero_channel]\<rparr>, w)
   }"

definition mm_camera_get_bundle_info :: "env \<Rightarrow> uint32_t \<Rightarrow> (int \<times> cam_bundle_config_t option) camera_op" where
  "mm_camera_get_bundle_info e ch_id cam w = do {
     (r, cam, w) \<leftarrow> channel_call e ch_id MM_CHANNEL_EVT_GET_BUNDLE_INFO cam w;
     Some (case r of Some (rc, Out_bundle info) \<Rightarrow> (rc, Some info) | Some (rc, _) \<Rightarrow> (rc, None) | None \<Rightarrow> (-1, None), cam, w)
   }"

definition mm_camera_add_stream :: "env \<Rightarrow> uint32_t \<Rightarrow> uint32_t camera_op" where
  "mm_camera_add_stream e ch_id cam w = do {
     (r, cam, w) \<leftarrow> channel_call e ch_id MM_CHANNEL_EVT_ADD_STREAM cam w;
     Some (case r of Some (_, Out_handle s_hdl) \<Rightarrow> s_hdl | _ \<Rightarrow> 0, cam, w)
   }"

definition mm_camera_del_stream :: "env \<Rightarrow> uint32_t \<Rightarrow> uint32_t \<Rightarrow> int camera_op" where
  "mm_camera_del_stream e ch_id stream_id cam w = channel_rc (-1) e ch_id (MM_CHANNEL_EVT_DEL_STREAM stream_id) cam w"

definition mm_camera_config_stream :: "env \<Rightarrow> uint32_t \<Rightarrow> uint32_t \<Rightarrow> mm_camera_stream_config_t option \<Rightarrow> int camera_op" where
  "mm_camera_config_stream e ch_id stream_id config cam w = channel_rc (-1) e ch_id (MM_CHANNEL_EVT_CONFIG_STREAM \<lparr>cs_stream_id = stream_id, cs_config = config\<rparr>) cam w"

definition mm_camera_start_channel :: "env \<Rightarrow> uint32_t \<Rightarrow> int camera_op" where
  "mm_camera_start_channel e ch_id cam w = channel_rc (-1) e ch_id (MM_CHANNEL_EVT_START) cam w"

text \<open>Without such a channel, stopping reports success.\<close>

definition mm_camera_stop_channel :: "env \<Rightarrow> uint32_t \<Rightarrow> int camera_op" where
  "mm_camera_stop_channel e ch_id cam w = channel_rc (0) e ch_id (MM_CHANNEL_EVT_STOP) cam w"

definition mm_camera_request_super_buf :: "env \<Rightarrow> uint32_t \<Rightarrow> uint32_t \<Rightarrow> int camera_op" where
  "mm_camera_request_super_buf e ch_id num_buf_requested cam w = channel_rc (-1) e ch_id (MM_CHANNEL_EVT_REQUEST_SUPER_BUF num_buf_requested) cam w"

definition mm_camera_cancel_super_buf_request :: "env \<Rightarrow> uint32_t \<Rightarrow> int camera_op" where
  "mm_camera_cancel_super_buf_request e ch_id cam w = channel_rc (-1) e ch_id (MM_CHANNEL_EVT_CANCEL_REQUEST_SUPER_BUF) cam w"

definition mm_camera_flush_super_buf_queue :: "env \<Rightarrow> uint32_t \<Rightarrow> uint32_t \<Rightarrow> int camera_op" where
  "mm_camera_flush_super_buf_queue e ch_id frame_idx cam w = channel_rc (-1) e ch_id (MM_CHANNEL_EVT_FLUSH_SUPER_BUF_QUEUE frame_idx) cam w"

definition mm_camera_config_channel_notify :: "env \<Rightarrow> uint32_t \<Rightarrow> mm_camera_super_buf_notify_mode_t \<Rightarrow> int camera_op" where
  "mm_camera_config_channel_notify e ch_id notify_mode cam w = channel_rc (-1) e ch_id (MM_CHANNEL_EVT_CONFIG_NOTIFY_MODE notify_mode) cam w"

definition mm_camera_set_stream_parms :: "env \<Rightarrow> uint32_t \<Rightarrow> uint32_t \<Rightarrow> nat option \<Rightarrow> int camera_op" where
  "mm_camera_set_stream_parms e ch_id s_id parms cam w = channel_rc (-1) e ch_id (MM_CHANNEL_EVT_SET_STREAM_PARM \<lparr>pl_stream_id = s_id, pl_parms = parms\<rparr>) cam w"

definition mm_camera_get_stream_parms :: "env \<Rightarrow> uint32_t \<Rightarrow> uint32_t \<Rightarrow> nat option \<Rightarrow> int camera_op" where
  "mm_camera_get_stream_parms e ch_id s_id parms cam w = channel_rc (-1) e ch_id (MM_CHANNEL_EVT_GET_STREAM_PARM \<lparr>pl_stream_id = s_id, pl_parms = parms\<rparr>) cam w"

definition mm_camera_do_stream_action :: "env \<Rightarrow> uint32_t \<Rightarrow> uint32_t \<Rightarrow> nat option \<Rightarrow> int camera_op" where
  "mm_camera_do_stream_action e ch_id stream_id actions cam w = channel_rc (-1) e ch_id (MM_CHANNEL_EVT_DO_STREAM_ACTION \<lparr>ac_stream_id = stream_id, ac_actions = actions\<rparr>) cam w"

definition mm_camera_map_stream_buf :: "env \<Rightarrow> uint32_t \<Rightarrow> uint32_t \<Rightarrow> cam_mapping_buf_type \<Rightarrow> uint32_t \<Rightarrow> int \<Rightarrow> int \<Rightarrow> uint32_t \<Rightarrow> int camera_op" where
  "mm_camera_map_stream_buf e ch_id stream_id buf_type buf_idx plane_idx fd sz cam w = channel_rc (-1) e ch_id (MM_CHANNEL_EVT_MAP_STREAM_BUF
     \<lparr>mb_stream_id = stream_id, mb_buf_type = buf_type, mb_buf_idx = buf_idx, mb_plane_idx = plane_idx, mb_fd = fd, mb_size = sz\<rparr>) cam w"

definition mm_camera_unmap_stream_buf :: "env \<Rightarrow> uint32_t \<Rightarrow> uint32_t \<Rightarrow> cam_mapping_buf_type \<Rightarrow> uint32_t \<Rightarrow> int \<Rightarrow> int camera_op" where
  "mm_camera_unmap_stream_buf e ch_id stream_id buf_type buf_idx plane_idx cam w = channel_rc (-1) e ch_id (MM_CHANNEL_EVT_UNMAP_STREAM_BUF
     \<lparr>ub_stream_id = stream_id, ub_buf_type = buf_type, ub_buf_idx = buf_idx, ub_plane_idx = plane_idx\<rparr>) cam w"

end
