(* ===== verification/Interface.thy ===== *)
theory Interface
  imports Camera
begin

text \<open>
  The interface of the library (\<^verbatim>\<open>mm_camera_interface.c\<close>): the table of open cameras, the enumeration of
  the sensors, opening and closing with a reference count, and the operations the client reaches
  through the table of functions, each of which finds the camera by its handle.
\<close>

section \<open>The table of cameras\<close>

text \<open>
  The names of the video devices are part of the world; their number is the constant of the
  kernel header for the number of sensors, which is also the length of the table.
\<close>

record mm_camera_ctrl_t =
  num_cam :: int
  g_cam_obj :: "mm_camera_obj_t option list"
  g_intf_lock :: bool

type_synonym 'a intf_op = "mm_camera_ctrl_t \<Rightarrow> world \<Rightarrow> ('a \<times> mm_camera_ctrl_t \<times> world) option"

definition mm_camera_util_get_camera_by_handler :: "uint32_t \<Rightarrow> mm_camera_ctrl_t \<Rightarrow> (nat \<times> mm_camera_obj_t) option" where
  "mm_camera_util_get_camera_by_handler cam_handle g =
     (let cam_idx = unat (mm_camera_util_get_index_by_handler cam_handle)
      in if cam_idx < length (g_cam_obj g) then
           (case g_cam_obj g ! cam_idx of
              None \<Rightarrow> None
            | Some cam \<Rightarrow> if cam_handle = cam_my_hdl cam then Some (cam_idx, cam) else None)
         else None)"

text \<open>
  The frame of every operation: the lock of the table is held while the camera is looked up and its
  lock is taken. A lock that is held never becomes free within the step.
\<close>

definition intf_call :: "'a \<Rightarrow> 'a camera_op \<Rightarrow> uint32_t \<Rightarrow> 'a intf_op" where
  "intf_call dflt f camera_handle g w =
     (if g_intf_lock g then None
      else case mm_camera_util_get_camera_by_handler camera_handle g of
          None \<Rightarrow> Some (dflt, g, w)
        | Some (i, cam) \<Rightarrow>
            if cam_lock cam then None
            else do {
              (r, cam, w) \<leftarrow> f (cam\<lparr>cam_lock := True\<rparr>) w;
              Some (r, g\<lparr>g_cam_obj := (g_cam_obj g)[i := Some cam]\<rparr>, w)
            })"

section \<open>Operations\<close>

definition mm_camera_intf_query_capability :: "env \<Rightarrow> uint32_t \<Rightarrow> int intf_op" where
  "mm_camera_intf_query_capability e camera_handle = intf_call (-1) (mm_camera_query_capability e) camera_handle"

definition mm_camera_intf_set_parms :: "env \<Rightarrow> uint32_t \<Rightarrow> nat option \<Rightarrow> int intf_op" where
  "mm_camera_intf_set_parms e camera_handle parms = intf_call (-1) (mm_camera_set_parms e parms) camera_handle"

definition mm_camera_intf_get_parms :: "env \<Rightarrow> uint32_t \<Rightarrow> nat option \<Rightarrow> int intf_op" where
  "mm_camera_intf_get_parms e camera_handle parms = intf_call (-1) (mm_camera_get_parms e parms) camera_handle"

definition mm_camera_intf_do_auto_focus :: "env \<Rightarrow> uint32_t \<Rightarrow> int intf_op" where
  "mm_camera_intf_do_auto_focus e camera_handle = intf_call (-1) (mm_camera_do_auto_focus e) camera_handle"

definition mm_camera_intf_cancel_auto_focus :: "env \<Rightarrow> uint32_t \<Rightarrow> int intf_op" where
  "mm_camera_intf_cancel_auto_focus e camera_handle = intf_call (-1) (mm_camera_cancel_auto_focus e) camera_handle"

definition mm_camera_intf_prepare_snapshot :: "env \<Rightarrow> uint32_t \<Rightarrow> int \<Rightarrow> int intf_op" where
  "mm_camera_intf_prepare_snapshot e camera_handle do_af_flag = intf_call (-1) (mm_camera_prepare_snapshot e do_af_flag) camera_handle"

definition mm_camera_intf_add_channel :: "env \<Rightarrow> uint32_t \<Rightarrow> mm_camera_channel_attr_t option \<Rightarrow> nat option \<Rightarrow> nat \<Rightarrow> uint32_t intf_op" where
  "mm_camera_intf_add_channel e camera_handle attr channel_cb userdata = intf_call (0) (mm_camera_add_channel e attr channel_cb userdata) camera_handle"

definition mm_camera_intf_del_channel :: "env \<Rightarrow> uint32_t \<Rightarrow> uint32_t \<Rightarrow> int intf_op" where
  "mm_camera_intf_del_channel e camera_handle ch_id = intf_call (-1) (mm_camera_del_channel e ch_id) camera_handle"

definition mm_camera_intf_get_bundle_info :: "env \<Rightarrow> uint32_t \<Rightarrow> uint32_t \<Rightarrow> (int \<times> cam_bundle_config_t option) intf_op" where
  "mm_camera_intf_get_bundle_info e camera_handle ch_id = intf_call (-1, None) (mm_camera_get_bundle_info e ch_id) camera_handle"

definition mm_camera_intf_register_event_notify :: "uint32_t \<Rightarrow> nat option \<Rightarrow> nat \<Rightarrow> int intf_op" where
  "mm_camera_intf_register_event_notify camera_handle evt_cb user_data = intf_call (-1) (mm_camera_register_event_notify evt_cb user_data) camera_handle"

definition mm_camera_intf_qbuf :: "env \<Rightarrow> uint32_t \<Rightarrow> uint32_t \<Rightarrow> mm_camera_buf_def_t option \<Rightarrow> int intf_op" where
  "mm_camera_intf_qbuf e camera_handle ch_id buf = intf_call (-1) (mm_camera_qbuf e ch_id buf) camera_handle"

definition mm_camera_intf_add_stream :: "env \<Rightarrow> uint32_t \<Rightarrow> uint32_t \<Rightarrow> uint32_t intf_op" where
  "mm_camera_intf_add_stream e camera_handle ch_id = intf_call (0) (mm_camera_add_stream e ch_id) camera_handle"

definition mm_camera_intf_del_stream :: "env \<Rightarrow> uint32_t \<Rightarrow> uint32_t \<Rightarrow> uint32_t \<Rightarrow> int intf_op" where
  "mm_camera_intf_del_stream e camera_handle ch_id stream_id = intf_call (-1) (mm_camera_del_stream e ch_id stream_id) camera_handle"

definition mm_camera_intf_config_stream :: "env \<Rightarrow> uint32_t \<Rightarrow> uint32_t \<Rightarrow> uint32_t \<Rightarrow> mm_camera_stream_config_t option \<Rightarrow> int intf_op" where
  "mm_camera_intf_config_stream e camera_handle ch_id stream_id config = intf_call (-1) (mm_camera_config_stream e ch_id stream_id config) camera_handle"

definition mm_camera_intf_start_channel :: "env \<Rightarrow> uint32_t \<Rightarrow> uint32_t \<Rightarrow> int intf_op" where
  "mm_camera_intf_start_channel e camera_handle ch_id = intf_call (-1) (mm_camera_start_channel e ch_id) camera_handle"

definition mm_camera_intf_stop_channel :: "env \<Rightarrow> uint32_t \<Rightarrow> uint32_t \<Rightarrow> int intf_op" where
  "mm_camera_intf_stop_channel e camera_handle ch_id = intf_call (-1) (mm_camera_stop_channel e ch_id) camera_handle"

definition mm_camera_intf_request_super_buf :: "env \<Rightarrow> uint32_t \<Rightarrow> uint32_t \<Rightarrow> uint32_t \<Rightarrow> int intf_op" where
  "mm_camera_intf_request_super_buf e camera_handle ch_id num_buf_requested = intf_call (-1) (mm_camera_request_super_buf e ch_id num_buf_requested) camera_handle"

definition mm_camera_intf_cancel_super_buf_request :: "env \<Rightarrow> uint32_t \<Rightarrow> uint32_t \<Rightarrow> int intf_op" where
  "mm_camera_intf_cancel_super_buf_request e camera_handle ch_id = intf_call (-1) (mm_camera_cancel_super_buf_request e ch_id) camera_handle"

definition mm_camera_intf_flush_super_buf_queue :: "env \<Rightarrow> uint32_t \<Rightarrow> uint32_t \<Rightarrow> uint32_t \<Rightarrow> int intf_op" where
  "mm_camera_intf_flush_super_buf_queue e camera_handle ch_id frame_idx = intf_call (-1) (mm_camera_flush_super_buf_queue e ch_id frame_idx) camera_handle"

definition mm_camera_intf_configure_notify_mode :: "env \<Rightarrow> uint32_t \<Rightarrow> uint32_t \<Rightarrow> mm_camera_super_buf_notify_mode_t \<Rightarrow> int intf_op" where
  "mm_camera_intf_configure_notify_mode e camera_handle ch_id notify_mode = intf_call (-1) (mm_camera_config_channel_notify e ch_id notify_mode) camera_handle"

definition mm_camera_intf_map_buf :: "env \<Rightarrow> uint32_t \<Rightarrow> cam_mapping_buf_type \<Rightarrow> int \<Rightarrow> uint32_t \<Rightarrow> int intf_op" where
  "mm_camera_intf_map_buf e camera_handle buf_type fd sz = intf_call (-1) (mm_camera_map_buf e buf_type fd sz) camera_handle"

definition mm_camera_intf_unmap_buf :: "env \<Rightarrow> uint32_t \<Rightarrow> cam_mapping_buf_type \<Rightarrow> int intf_op" where
  "mm_camera_intf_unmap_buf e camera_handle buf_type = intf_call (-1) (mm_camera_unmap_buf e buf_type) camera_handle"

definition mm_camera_intf_set_stream_parms :: "env \<Rightarrow> uint32_t \<Rightarrow> uint32_t \<Rightarrow> uint32_t \<Rightarrow> nat option \<Rightarrow> int intf_op" where
  "mm_camera_intf_set_stream_parms e camera_handle ch_id s_id parms = intf_call (-1) (mm_camera_set_stream_parms e ch_id s_id parms) camera_handle"

definition mm_camera_intf_get_stream_parms :: "env \<Rightarrow> uint32_t \<Rightarrow> uint32_t \<Rightarrow> uint32_t \<Rightarrow> nat option \<Rightarrow> int intf_op" where
  "mm_camera_intf_get_stream_parms e camera_handle ch_id s_id parms = intf_call (-1) (mm_camera_get_stream_parms e ch_id s_id parms) camera_handle"

definition mm_camera_intf_map_stream_buf :: "env \<Rightarrow> uint32_t \<Rightarrow> uint32_t \<Rightarrow> uint32_t \<Rightarrow> cam_mapping_buf_type \<Rightarrow> uint32_t \<Rightarrow> int \<Rightarrow> int \<Rightarrow> uint32_t \<Rightarrow> int intf_op" where
  "mm_camera_intf_map_stream_buf e camera_handle ch_id stream_id buf_type buf_idx plane_idx fd sz = intf_call (-1) (mm_camera_map_stream_buf e ch_id stream_id buf_type buf_idx plane_idx fd sz) camera_handle"

definition mm_camera_intf_unmap_stream_buf :: "env \<Rightarrow> uint32_t \<Rightarrow> uint32_t \<Rightarrow> uint32_t \<Rightarrow> cam_mapping_buf_type \<Rightarrow> uint32_t \<Rightarrow> int \<Rightarrow> int intf_op" where
  "mm_camera_intf_unmap_stream_buf e camera_handle ch_id stream_id buf_type buf_idx plane_idx = intf_call (-1) (mm_camera_unmap_stream_buf e ch_id stream_id buf_type buf_idx plane_idx) camera_handle"

section \<open>Opening and closing\<close>

text \<open>
  The last reference frees the camera. The camera is out of the table before it is closed, and the
  lock of the table is released meanwhile.
\<close>

definition mm_camera_intf_close :: "env \<Rightarrow> uint32_t \<Rightarrow> int intf_op" where
  "mm_camera_intf_close e camera_handle g w =
     (if g_intf_lock g then None
      else case mm_camera_util_get_camera_by_handler camera_handle g of
          None \<Rightarrow> Some (-1, g, w)
        | Some (i, cam) \<Rightarrow>
            let cam = cam\<lparr>cam_ref_count := cam_ref_count cam - 1\<rparr>
            in if cam_ref_count cam > 0 then Some (0, g\<lparr>g_cam_obj := (g_cam_obj g)[i := Some cam]\<rparr>, w)
               else if cam_lock cam then None
               else do {
                 (rc, _, w) \<leftarrow> mm_camera_close e (cam\<lparr>cam_lock := True\<rparr>) w;
                 Some (rc, g\<lparr>g_cam_obj := (g_cam_obj g)[i := None]\<rparr>, w)
               })"

text \<open>The result is the handle in the table of functions the client gets, \<open>None\<close> for a null pointer.\<close>

definition camera_open :: "env \<Rightarrow> uint8_t \<Rightarrow> uint32_t option intf_op" where
  "camera_open e camera_idx g w =
     (if uint camera_idx \<ge> num_cam g then Some (None, g, w)
      else if g_intf_lock g then None
      else do {
        obj \<leftarrow> nth_opt (g_cam_obj g) (uint camera_idx);
        case obj of
          Some cam \<Rightarrow>
            let cam = cam\<lparr>cam_ref_count := cam_ref_count cam + 1\<rparr>
            in Some (Some (cam_vtbl_handle cam), g\<lparr>g_cam_obj := (g_cam_obj g)[unat camera_idx := Some cam]\<rparr>, w)
        | None \<Rightarrow>
            let (ok, w) = malloc e w
            in if \<not> ok then Some (None, g, w)
               else do {
                 let (hdl, w) = mm_camera_util_generate_handler camera_idx w;
                 let cam = zero_camera\<lparr>cam_ref_count := 1, cam_my_hdl := hdl, cam_vtbl_handle := hdl\<rparr>;
                 (rc, cam, w) \<leftarrow> mm_camera_open e cam w;
                 if rc \<noteq> 0 then Some (None, g\<lparr>g_cam_obj := (g_cam_obj g)[unat camera_idx := None]\<rparr>, w)
                 else Some (Some (cam_vtbl_handle cam), g\<lparr>g_cam_obj := (g_cam_obj g)[unat camera_idx := Some cam]\<rparr>, w)
               }
      })"

section \<open>Enumeration of the sensors\<close>

text \<open>
  The media devices as the kernel reports them: \<open>md_info\<close> is the model, \<open>None\<close> when the request
  fails; the entities are those with the numbers 1, 2, and so on up to the first that is missing. Only
  the property that the code tests is kept of the type and the group of an entity. The model name
  the code compares with is a constant of the kernel header. The calls that open and close the media
  devices are not recorded in the trace.
\<close>

record media_entity_desc =
  me_is_vnode :: bool
  me_name :: string

record media_device =
  md_info :: "string option"
  md_entities :: "media_entity_desc list"

fun enum_entities :: "media_entity_desc list \<Rightarrow> string option" where
  "enum_entities [] = None"
| "enum_entities (d # ds) = (if me_is_vnode d then Some (me_name d) else enum_entities ds)"

text \<open>A name beyond the end of the table is a write out of bounds.\<close>

fun enum_cameras :: "string \<Rightarrow> media_device list \<Rightarrow> uint8_t \<Rightarrow> string list \<Rightarrow> (uint8_t \<times> string list) option" where
  "enum_cameras model [] n names = Some (n, names)"
| "enum_cameras model (d # ds) n names =
     (case md_info d of
        None \<Rightarrow> Some (0, names)
      | Some m \<Rightarrow>
          if m \<noteq> model then enum_cameras model ds n names
          else case enum_entities (md_entities d) of
              None \<Rightarrow> enum_cameras model ds (n + 1) names
            | Some name \<Rightarrow>
                if unat n < length names then enum_cameras model ds (n + 1) (names[unat n := name]) else None)"

definition get_num_of_cameras :: "string \<Rightarrow> media_device list \<Rightarrow> uint8_t intf_op" where
  "get_num_of_cameras model devs g w =
     (if g_intf_lock g then None
      else do {
        (n, names) \<leftarrow> enum_cameras model devs 0 (g_video_dev_name w);
        let g = g\<lparr>num_cam := sint n\<rparr>;
        Some (of_int (num_cam g), g, w\<lparr>g_video_dev_name := names\<rparr>)
      })"

end
