(* ===== verification/Channel_Inv.thy ===== *)
theory Channel_Inv
  imports Channel
begin

text \<open>
  What an event of a stream does to the channel it belongs to: it may change the poll thread, and
  it changes the stream in its slot, whose next state the automaton gives. The loops of the
  channel over its streams are built on this.
\<close>

section \<open>One event of one stream\<close>

definition chan_rest :: "mm_channel_t \<Rightarrow> mm_channel_t" where
  "chan_rest ch = ch\<lparr>ch_poll_thread := zero_poll_thread\<rparr>"

lemma chan_rest_upd [simp]: "chan_rest (ch\<lparr>ch_poll_thread := pt\<rparr>) = chan_rest ch"
  by (simp add: chan_rest_def)

lemma chan_restD: "chan_rest ch' = chan_rest ch \<Longrightarrow> ch' = ch\<lparr>ch_poll_thread := ch_poll_thread ch'\<rparr>"
  by (cases ch', cases ch) (simp add: chan_rest_def)

lemma streamon_chan: "mm_stream_streamon e s ch w = Some (rc, ch', w') \<Longrightarrow> chan_rest ch' = chan_rest ch"
  by (auto simp: mm_stream_streamon_def Some_simps split: if_splits)

lemma streamoff_chan: "mm_stream_streamoff e s ch w = Some (rc, ch', w') \<Longrightarrow> chan_rest ch' = chan_rest ch"
  by (auto simp: mm_stream_streamoff_def Some_simps)

lemma fsm_handlers_chan:
  "mm_stream_fsm_inited e evt s ch w = Some (rc, s', ch', w') \<Longrightarrow> chan_rest ch' = chan_rest ch"
  "mm_stream_fsm_acquired e evt s ch w = Some (rc, s', ch', w') \<Longrightarrow> chan_rest ch' = chan_rest ch"
  "mm_stream_fsm_cfg e evt s ch w = Some (rc, s', ch', w') \<Longrightarrow> chan_rest ch' = chan_rest ch"
  "mm_stream_fsm_buffed e evt s ch w = Some (rc, s', ch', w') \<Longrightarrow> chan_rest ch' = chan_rest ch"
  by (cases evt; auto simp: mm_stream_fsm_inited_def mm_stream_fsm_acquired_def mm_stream_fsm_cfg_def mm_stream_fsm_buffed_def
      stream_parm_evt_def Some_simps split: if_splits option.splits)+

lemma fsm_stream_chan:
  "mm_stream_fsm_reg e evt s ch w = Some (rc, s', ch', w') \<Longrightarrow> chan_rest ch' = chan_rest ch"
  "mm_stream_fsm_active e evt s ch w = Some (rc, s', ch', w') \<Longrightarrow> chan_rest ch' = chan_rest ch"
  by (cases evt; auto simp: mm_stream_fsm_reg_def mm_stream_fsm_active_def stream_parm_evt_def Some_simps
      split: if_splits dest: streamon_chan streamoff_chan)+

lemma fsm_chan:
  assumes "mm_stream_fsm_fn e evt s ch w = Some (rc, s', ch', w')"
  shows "ch' = ch\<lparr>ch_poll_thread := ch_poll_thread ch'\<rparr>"
  using assms fsm_handlers_chan fsm_stream_chan
  by (intro chan_restD) (cases "s_state s"; simp add: mm_stream_fsm_fn_def)

text \<open>What identifies a stream survives every event but the release.\<close>

definition stream_id :: "mm_stream_t \<Rightarrow> uint32_t \<times> bool" where
  "stream_id s = (s_my_hdl s, s_is_bundled s)"

lemma stream_id_upd [simp]:
  "stream_id (s\<lparr>s_state := x\<rparr>) = stream_id s" "stream_id (s\<lparr>s_cmd_thread := t\<rparr>) = stream_id s"
  "stream_id (s\<lparr>s_fd := f\<rparr>) = stream_id s" "stream_id (s\<lparr>s_server_stream_id := i\<rparr>) = stream_id s"
  "stream_id (s\<lparr>s_buf_status := b\<rparr>) = stream_id s" "stream_id (s\<lparr>s_buf_num := n\<rparr>) = stream_id s"
  "stream_id (s\<lparr>s_buf := bs\<rparr>) = stream_id s" "stream_id (s\<lparr>s_buf_cb := cs\<rparr>) = stream_id s"
  by (simp_all add: stream_id_def)

lemma config_id: "mm_stream_config e s c w = Some (rc, s', w') \<Longrightarrow> stream_id s' = stream_id s"
  by (auto simp: mm_stream_config_def mm_stream_sync_info_def mm_stream_calc_offset_def Some_simps stream_id_def
      split: if_splits)

lemma deinit_bufs_id: "mm_stream_deinit_bufs e s w = Some (rc, s', w') \<Longrightarrow> stream_id s' = stream_id s"
  by (auto simp: mm_stream_deinit_bufs_def Some_simps split: if_splits)

lemma init_buf_loop_id: "foldM (init_buf_entry fl) is s = Some s' \<Longrightarrow> stream_id s' = stream_id s"
  by (erule foldM_Some) (auto simp: init_buf_entry_def Some_simps)

lemma init_bufs_id: "mm_stream_init_bufs e s w = Some (rc, s', w') \<Longrightarrow> stream_id s' = stream_id s"
  by (auto simp: mm_stream_init_bufs_def Some_simps split: if_splits dest!: init_buf_loop_id deinit_bufs_id)

lemma core_id: "stream_core s' = stream_core s \<Longrightarrow> stream_id s' = stream_id s"
  unfolding stream_id_def using stream_coreD(1,9) [of s' s] by simp

lemma release_thread_id: "stream_release_thread e ch s w = Some (s', w') \<Longrightarrow> stream_id s' = stream_id s"
  by (drule release_thread_core, drule core_id [of s' "s\<lparr>s_cmd_thread := s_cmd_thread s'\<rparr>", unfolded stream_core_thread]) simp

lemma fsm_handlers_id:
  "mm_stream_fsm_inited e evt s ch w = Some (rc, s', ch', w') \<Longrightarrow> stream_id s' = stream_id s"
  "mm_stream_fsm_acquired e evt s ch w = Some (rc, s', ch', w') \<Longrightarrow> stream_id s' = stream_id s \<or> s' = zero_stream"
  "mm_stream_fsm_cfg e evt s ch w = Some (rc, s', ch', w') \<Longrightarrow> stream_id s' = stream_id s \<or> s' = zero_stream"
  "mm_stream_fsm_buffed e evt s ch w = Some (rc, s', ch', w') \<Longrightarrow> stream_id s' = stream_id s"
  by (cases evt; auto simp: mm_stream_fsm_inited_def mm_stream_fsm_acquired_def mm_stream_fsm_cfg_def mm_stream_fsm_buffed_def
      stream_parm_evt_def Some_simps mm_stream_release_def mm_stream_set_ext_mode_def zero_stream_def
      split: if_splits option.splits dest: config_id init_bufs_id deinit_bufs_id reg_buf_core [THEN core_id])+

lemma fsm_stream_id:
  "mm_stream_fsm_active e evt s ch w = Some (rc, s', ch', w') \<Longrightarrow> stream_id s' = stream_id s"
  by (cases evt; auto simp: mm_stream_fsm_active_def stream_parm_evt_def Some_simps
      split: if_splits dest: release_thread_id buf_done_core [THEN core_id])

lemma start_stream_id [simp]: "stream_id (start_stream s) = stream_id s" "s_buf_num (start_stream s) = s_buf_num s"
  by (simp_all add: start_stream_def)

lemma fsm_reg_id:
  assumes "mm_stream_fsm_reg e evt s ch w = Some (rc, s', ch', w')"
  shows "stream_id s' = stream_id s"
proof (cases "evt = MM_STREAM_EVT_START")
  case True
  then show ?thesis
    using assms unfolding True fsm_reg_start
    by (auto simp: Some_simps split: if_splits dest!: release_thread_id) (drule arg_cong [of _ _ stream_id], simp)
next
  case False
  then show ?thesis
    using assms by (cases evt; auto simp: mm_stream_fsm_reg_def stream_parm_evt_def Some_simps dest: unreg_buf_core [THEN core_id])
qed

lemma fsm_id:
  assumes "mm_stream_fsm_fn e evt s ch w = Some (rc, s', ch', w')"
  shows "stream_id s' = stream_id s \<or> s' = zero_stream"
  using assms fsm_handlers_id fsm_stream_id fsm_reg_id
  by (cases "s_state s"; simp add: mm_stream_fsm_fn_def)

text \<open>Only as many buffers are registered as the driver can take.\<close>

definition frames_ok :: "mm_stream_t \<Rightarrow> bool" where
  "frames_ok s \<longleftrightarrow> s_state s \<in> {MM_STREAM_STATE_REG, MM_STREAM_STATE_ACTIVE} \<longrightarrow>
     unat (s_buf_num s) \<le> MM_CAMERA_MAX_NUM_FRAMES"

lemma reg_buf_frames:
  "mm_stream_reg_buf e s w = Some (0, s', w') \<Longrightarrow> unat (s_buf_num s') \<le> MM_CAMERA_MAX_NUM_FRAMES"
  using reg_buf_core [THEN stream_coreD(5), of e s w 0 s' w']
  by (auto simp: mm_stream_reg_buf_def mm_stream_request_buf_def Some_simps split: if_splits)

lemma release_thread_num: "stream_release_thread e ch s w = Some (s', w') \<Longrightarrow> s_buf_num s' = s_buf_num s"
  by (drule release_thread_core, drule arg_cong [of _ _ s_buf_num]) (simp add: stream_core_def)

lemma frames_ok_other: "s_state s \<notin> {MM_STREAM_STATE_REG, MM_STREAM_STATE_ACTIVE} \<Longrightarrow> frames_ok s"
  by (simp add: frames_ok_def)

lemma fsm_buffed_frames:
  "mm_stream_fsm_buffed e evt s ch w = Some (rc, s', ch', w') \<Longrightarrow> s_state s = MM_STREAM_STATE_BUFFED \<Longrightarrow> frames_ok s'"
  by (cases evt; auto simp: mm_stream_fsm_buffed_def stream_parm_evt_def Some_simps frames_ok_def
      split: if_splits dest: deinit_bufs_state reg_buf_frames reg_buf_core [THEN stream_coreD(3)])

lemma fsm_stream_num:
  "mm_stream_fsm_active e evt s ch w = Some (rc, s', ch', w') \<Longrightarrow> s_buf_num s' = s_buf_num s"
  by (cases evt; auto simp: mm_stream_fsm_active_def stream_parm_evt_def Some_simps
      split: if_splits dest: release_thread_num buf_done_core [THEN stream_coreD(5)])

lemma fsm_reg_num:
  assumes "mm_stream_fsm_reg e evt s ch w = Some (rc, s', ch', w')"
  shows "s_buf_num s' = s_buf_num s"
proof (cases "evt = MM_STREAM_EVT_START")
  case True
  then show ?thesis
    using assms unfolding True fsm_reg_start
    by (auto simp: Some_simps split: if_splits dest!: release_thread_num) (drule arg_cong [of _ _ s_buf_num], simp)
next
  case False
  then show ?thesis
    using assms by (cases evt; auto simp: mm_stream_fsm_reg_def stream_parm_evt_def Some_simps dest: unreg_buf_core [THEN stream_coreD(5)])
qed

lemma fsm_next:
  assumes "mm_stream_fsm_fn e evt s ch w = Some (rc, s', ch', w')"
  shows "s_state s' = stream_next (s_state s) evt rc"
  using assms fsm_inited_next fsm_acquired_next fsm_cfg_next fsm_buffed_next fsm_reg_next fsm_active_next
  by (cases "s_state s"; simp add: mm_stream_fsm_fn_def)

lemma fsm_notused:
  assumes "mm_stream_fsm_fn e evt s ch w = Some (rc, s', ch', w')" and "s_state s' = MM_STREAM_STATE_NOTUSED"
  shows "s' = zero_stream \<or> s' = s"
proof -
  have "s_state s = MM_STREAM_STATE_NOTUSED \<or>
      evt = MM_STREAM_EVT_RELEASE \<and> s_state s \<in> {MM_STREAM_STATE_ACQUIRED, MM_STREAM_STATE_CFG}"
    using fsm_next [OF assms(1)] assms(2) by (cases "s_state s"; cases evt) (auto split: if_splits)
  then show ?thesis
    using assms(1) by (auto simp: mm_stream_fsm_fn_def mm_stream_fsm_acquired_def mm_stream_fsm_cfg_def mm_stream_release_def zero_stream_def)
qed

lemma next_streaming:
  "stream_next st evt rc \<in> {MM_STREAM_STATE_REG, MM_STREAM_STATE_ACTIVE} \<Longrightarrow>
   st \<in> {MM_STREAM_STATE_BUFFED, MM_STREAM_STATE_REG, MM_STREAM_STATE_ACTIVE}"
  by (cases st; cases evt) (auto split: if_splits)

lemma fsm_frames:
  assumes "mm_stream_fsm_fn e evt s ch w = Some (rc, s', ch', w')" and "frames_ok s"
  shows "frames_ok s'"
proof (cases "s_state s' \<in> {MM_STREAM_STATE_REG, MM_STREAM_STATE_ACTIVE}")
  case True
  then have "s_state s \<in> {MM_STREAM_STATE_BUFFED, MM_STREAM_STATE_REG, MM_STREAM_STATE_ACTIVE}"
    using next_streaming [of "s_state s" evt rc] fsm_next [OF assms(1)] by simp
  then show ?thesis
    using assms fsm_buffed_frames fsm_stream_num fsm_reg_num by (auto simp: mm_stream_fsm_fn_def frames_ok_def)
qed (simp add: frames_ok_def)

text \<open>Every event of a stream that has been acquired returns.\<close>

lemma fsm_runs:
  assumes "stream_wf s" and "poll_live (ch_poll_thread ch)" and "ch_cam_obj ch \<noteq> None" and "alloc_ok e" and "mem_ok e"
    and "evt_ok (unat (s_buf_num s)) evt" and "s_state s = MM_STREAM_STATE_INITED \<longrightarrow> chan_live ch w"
  shows "runs (mm_stream_fsm_fn e evt s ch w) (fsm_post ch)"
  using fsm_inited_runs [OF assms(1)] fsm_acquired_runs [OF assms(1) _ assms(2,6)]
    fsm_cfg_runs [OF assms(1) _ assms(2,6,4,5)] fsm_buffed_runs [OF assms(1) _ assms(2,6)]
    fsm_reg_runs [OF assms(1) _ assms(2,3,5,6)] fsm_active_runs [OF assms(1) _ assms(2,3,5,6)]
    same_runs [OF assms(1,2)] assms(1,7)
  by (cases "s_state s") (simp_all add: mm_stream_fsm_fn_def stream_wf_def)

section \<open>Slots\<close>

text \<open>
  A slot of the channel: the handle is 0 in an unused slot; otherwise its low byte is the number
  of the slot, so that handles of different slots differ.
\<close>

definition slot_inv :: "nat \<Rightarrow> mm_stream_t \<Rightarrow> bool" where
  "slot_inv i s \<longleftrightarrow> stream_wf s \<and> frames_ok s \<and> (if s_state s = MM_STREAM_STATE_NOTUSED then s_my_hdl s = 0
     else s_my_hdl s \<noteq> 0 \<and> mm_camera_util_get_index_by_handler (s_my_hdl s) = of_nat i)"

definition chan_base :: "mm_channel_t \<Rightarrow> bool" where
  "chan_base ch \<longleftrightarrow> length (ch_streams ch) = MAX_STREAM_NUM_IN_BUNDLE \<and>
     (\<forall>i < MAX_STREAM_NUM_IN_BUNDLE. slot_inv i (ch_streams ch ! i)) \<and> ch_cam_obj ch \<noteq> None \<and> poll_live (ch_poll_thread ch)"

abbreviation slot_state :: "mm_channel_t \<Rightarrow> nat \<Rightarrow> mm_stream_state_type_t" where
  "slot_state ch i \<equiv> s_state (ch_streams ch ! i)"

text \<open>An event of the stream in slot \<open>i\<close>, as the channel sees it.\<close>

definition slot_step :: "nat \<Rightarrow> mm_channel_t \<Rightarrow> mm_stream_state_type_t \<Rightarrow> mm_channel_t \<Rightarrow> bool" where
  "slot_step i ch st ch' \<longleftrightarrow> (\<exists>pt s'. ch' = ch\<lparr>ch_poll_thread := pt, ch_streams := (ch_streams ch)[i := s']\<rparr> \<and>
     s_state s' = st \<and> (stream_id s' = stream_id (ch_streams ch ! i) \<or> st = MM_STREAM_STATE_NOTUSED)) \<and> chan_base ch'"

lemma slot_less:
  assumes "chan_base ch" and "i < length (ch_streams ch)"
  shows "i < 4" and "stream_wf (ch_streams ch ! i)" and "slot_inv i (ch_streams ch ! i)"
  using assms by (auto simp: chan_base_def slot_inv_def)

lemma stream_evt_runs:
  assumes "chan_base ch" and "i < MAX_STREAM_NUM_IN_BUNDLE" and "alloc_ok e" and "mem_ok e"
    and "evt_ok (unat (s_buf_num (ch_streams ch ! i))) evt"
    and "slot_state ch i = MM_STREAM_STATE_INITED \<longrightarrow> chan_live ch w"
  shows "runs (stream_evt e i evt ch w) (\<lambda>(rc, ch', w'). slot_step i ch (stream_next (slot_state ch i) evt rc) ch')"
proof -
  let ?s = "ch_streams ch ! i"
  have b: "stream_wf ?s" "frames_ok ?s" "poll_live (ch_poll_thread ch)" "ch_cam_obj ch \<noteq> None" "i < length (ch_streams ch)"
    using assms(1,2) by (auto simp: chan_base_def slot_inv_def)
  obtain rc s' ch1 w' where r: "mm_stream_fsm_fn e evt ?s ch w = Some (rc, s', ch1, w')" "fsm_post ch (rc, s', ch1, w')"
    using fsm_runs [OF b(1,3,4) assms(3-6)] by (auto simp: runs_iff)
  obtain pt where pt: "ch1 = ch\<lparr>ch_poll_thread := pt\<rparr>" using fsm_chan [OF r(1)] by blast
  have st: "s_state s' = stream_next (s_state ?s) evt rc" by (rule fsm_next [OF r(1)])
  have id: "stream_id s' = stream_id ?s \<or> s' = zero_stream" by (rule fsm_id [OF r(1)])
  have z: "s' = zero_stream \<Longrightarrow> s_state s' = MM_STREAM_STATE_NOTUSED \<and> s_my_hdl s' = 0" by (simp add: zero_stream_def)
  have si: "slot_inv i ?s" using assms(1,2) by (simp add: chan_base_def)
  have wf: "stream_wf s'" "poll_live (ch_poll_thread ch1)" using r(2) by (auto simp: fsm_post_def)
  have "slot_inv i s'"
  proof (cases "s_state s' = MM_STREAM_STATE_NOTUSED")
    case True
    then show ?thesis
      using fsm_notused [OF r(1) True] si z wf(1) fsm_frames [OF r(1) b(2)] by (auto simp: slot_inv_def split: if_splits)
  next
    case False
    then have "s_my_hdl s' = s_my_hdl ?s" "s_state ?s \<noteq> MM_STREAM_STATE_NOTUSED"
      using id z st by (auto simp: stream_id_def)
    then show ?thesis using False si wf(1) fsm_frames [OF r(1) b(2)] by (simp add: slot_inv_def)
  qed
  moreover have "poll_live pt" using wf(2) pt by simp
  ultimately have "slot_step i ch (stream_next (s_state ?s) evt rc) (ch1\<lparr>ch_streams := (ch_streams ch1)[i := s']\<rparr>)"
    unfolding slot_step_def pt using assms(1,2) id z st
    by (intro conjI exI [of _ pt] exI [of _ s']) (auto simp: chan_base_def nth_list_update)
  then show ?thesis using b(5) r(1) by (simp add: stream_evt_def)
qed

section \<open>The rest of the channel\<close>

definition chan_env :: "mm_channel_t \<Rightarrow> mm_channel_t" where
  "chan_env ch = ch\<lparr>ch_poll_thread := zero_poll_thread, ch_streams := []\<rparr>"

lemma chan_env_upd [simp]:
  "chan_env (ch\<lparr>ch_poll_thread := pt\<rparr>) = chan_env ch" "chan_env (ch\<lparr>ch_streams := ss\<rparr>) = chan_env ch"
  by (cases ch; simp add: chan_env_def)+

lemma chan_envD:
  assumes "chan_env ch' = chan_env ch"
  shows "ch_my_hdl ch' = ch_my_hdl ch" "ch_state ch' = ch_state ch" "ch_lock ch' = ch_lock ch" "ch_bundle ch' = ch_bundle ch"
    "ch_cmd_thread ch' = ch_cmd_thread ch" "ch_cb_thread ch' = ch_cb_thread ch" "ch_cam_obj ch' = ch_cam_obj ch"
    "ch_pending_cnt ch' = ch_pending_cnt ch"
  using assms by (cases ch', cases ch, simp add: chan_env_def)+

text \<open>Events that neither add nor remove a stream.\<close>

definition chan_like :: "mm_channel_t \<Rightarrow> mm_channel_t \<Rightarrow> bool" where
  "chan_like ch ch' \<longleftrightarrow> chan_base ch' \<and> chan_env ch' = chan_env ch \<and>
     (\<forall>j < MAX_STREAM_NUM_IN_BUNDLE. stream_id (ch_streams ch' ! j) = stream_id (ch_streams ch ! j))"

lemma chan_like_refl: "chan_base ch \<Longrightarrow> chan_like ch ch"
  by (simp add: chan_like_def)

lemma chan_like_trans: "chan_like ch ch' \<Longrightarrow> chan_like ch' ch'' \<Longrightarrow> chan_like ch ch''"
  by (simp add: chan_like_def)

lemma slot_step_like:
  assumes "slot_step i ch st ch'" and "st \<noteq> MM_STREAM_STATE_NOTUSED" and "chan_base ch" and "i < MAX_STREAM_NUM_IN_BUNDLE"
  shows "chan_like ch ch'" and "(\<forall>k. slot_state ch' k = (if k = i then st else slot_state ch k))"
proof -
  obtain pt s' where s: "ch' = ch\<lparr>ch_poll_thread := pt, ch_streams := (ch_streams ch)[i := s']\<rparr>" "s_state s' = st"
    "stream_id s' = stream_id (ch_streams ch ! i)" "chan_base ch'"
    using assms(1,2) by (auto simp: slot_step_def)
  have l: "length (ch_streams ch) = 4" using assms(3) by (simp add: chan_base_def)
  show "chan_like ch ch'" using s l assms(4) by (auto simp: chan_like_def nth_list_update)
  show "(\<forall>k. slot_state ch' k = (if k = i then st else slot_state ch k))" using s(1,2) l assms(4) by (auto simp: fun_eq_iff nth_list_update)
qed

lemma next_used:
  "st \<noteq> MM_STREAM_STATE_NOTUSED \<Longrightarrow> evt \<noteq> MM_STREAM_EVT_RELEASE \<Longrightarrow> stream_next st evt rc \<noteq> MM_STREAM_STATE_NOTUSED"
  by (cases st; cases evt) auto

text \<open>An event of a stream that is in use and has been acquired.\<close>

definition slot_acquired :: "mm_channel_t \<Rightarrow> nat \<Rightarrow> bool" where
  "slot_acquired ch i \<longleftrightarrow> i < MAX_STREAM_NUM_IN_BUNDLE \<and> slot_state ch i \<notin> {MM_STREAM_STATE_NOTUSED, MM_STREAM_STATE_INITED}"

lemma used_evt_runs:
  assumes "chan_base ch" and "slot_acquired ch i" and "alloc_ok e" and "mem_ok e"
    and "evt_ok (unat (s_buf_num (ch_streams ch ! i))) evt" and "evt \<noteq> MM_STREAM_EVT_RELEASE"
  shows "runs (stream_evt e i evt ch w) (\<lambda>(rc, ch', w'). chan_like ch ch' \<and>
    (\<forall>k. slot_state ch' k = (if k = i then stream_next (slot_state ch i) evt rc else slot_state ch k)))"
proof -
  have a: "i < MAX_STREAM_NUM_IN_BUNDLE" "slot_state ch i \<noteq> MM_STREAM_STATE_NOTUSED"
    "slot_state ch i = MM_STREAM_STATE_INITED \<longrightarrow> chan_live ch w"
    using assms(2) by (simp_all add: slot_acquired_def)
  show ?thesis
    by (rule runs_mono [OF stream_evt_runs [OF assms(1) a(1) assms(3-5) a(3)]])
      (use slot_step_like [OF _ next_used [OF a(2) assms(6)] assms(1) a(1)] in auto)
qed

section \<open>Loops over the streams\<close>

text \<open>The events that take a stream down; their next state does not depend on the error code.\<close>

definition down_evts :: "mm_stream_evt_type_t set" where
  "down_evts = {MM_STREAM_EVT_STOP, MM_STREAM_EVT_UNREG_BUF, MM_STREAM_EVT_PUT_BUF}"

definition down :: "mm_stream_evt_type_t list \<Rightarrow> mm_stream_state_type_t \<Rightarrow> mm_stream_state_type_t" where
  "down evts = fold (\<lambda>evt st. stream_next st evt 0) evts"

lemma down_next: "evt \<in> down_evts \<Longrightarrow> stream_next st evt rc = stream_next st evt 0"
  by (cases st) (auto simp: down_evts_def)

lemma down_acquired:
  "evt \<in> down_evts \<Longrightarrow> st \<notin> {MM_STREAM_STATE_NOTUSED, MM_STREAM_STATE_INITED} \<Longrightarrow>
   stream_next st evt rc \<notin> {MM_STREAM_STATE_NOTUSED, MM_STREAM_STATE_INITED}"
  by (cases st) (auto simp: down_evts_def)

lemma stream_evts_runs:
  assumes "chan_base ch" and "slot_acquired ch i" and "alloc_ok e" and "mem_ok e" and "set evts \<subseteq> down_evts"
  shows "runs (stream_evts e i evts (ch, w)) (\<lambda>(ch', w'). chan_like ch ch' \<and>
    (\<forall>k. slot_state ch' k = (if k = i then down evts (slot_state ch i) else slot_state ch k)))"
  using assms(1,2,5)
proof (induction evts arbitrary: ch w)
  case Nil
  then show ?case by (simp add: stream_evts_def down_def chan_like_refl)
next
  case (Cons evt evts)
  have ev: "evt \<in> down_evts" "evt_ok n evt" "evt \<noteq> MM_STREAM_EVT_RELEASE" for n
    using Cons.prems(3) by (auto simp: down_evts_def)
  have step: "runs (stream_evts e i evts (ch1, w1)) (\<lambda>(ch', w'). chan_like ch ch' \<and>
      (\<forall>k. slot_state ch' k = (if k = i then down (evt # evts) (slot_state ch i) else slot_state ch k)))"
    if l: "chan_like ch ch1" and s: "(\<forall>k. slot_state ch1 k = (if k = i then stream_next (slot_state ch i) evt rc else slot_state ch k))" for ch1 w1 rc
  proof -
    have a: "chan_base ch1" "slot_acquired ch1 i"
      using l s Cons.prems(2) down_acquired [OF ev(1)] by (auto simp: chan_like_def slot_acquired_def fun_eq_iff)
    show ?thesis
      by (rule runs_mono [OF Cons.IH [OF a]])
        (use Cons.prems(3) chan_like_trans [OF l] s down_next [OF ev(1), of "slot_state ch i" rc] in \<open>auto simp: down_def\<close>)
  qed
  show ?case
    unfolding stream_evts_def foldM.simps runs_bind
    by (simp only: prod.case runs_bind, rule runs_mono [OF used_evt_runs [OF Cons.prems(1,2) assms(3,4) ev(2,3)]],
        clarify, unfold prod.case runs_Some, rule step [unfolded stream_evts_def])
qed

lemma all_evts_runs:
  assumes "chan_base ch" and "\<forall>i \<in> set js. slot_acquired ch i" and "distinct js" and "alloc_ok e" and "mem_ok e"
    and "set evts \<subseteq> down_evts"
  shows "runs (foldM (\<lambda>i. stream_evts e i evts) js (ch, w)) (\<lambda>(ch', w'). chan_like ch ch' \<and>
    (\<forall>k. slot_state ch' k = (if k \<in> set js then down evts (slot_state ch k) else slot_state ch k)))"
  using assms(1-3)
proof (induction js arbitrary: ch w)
  case Nil
  then show ?case by (simp add: chan_like_refl)
next
  case (Cons j js)
  have step: "runs (foldM (\<lambda>i. stream_evts e i evts) js (ch1, w1)) (\<lambda>(ch', w'). chan_like ch ch' \<and>
      (\<forall>k. slot_state ch' k = (if k \<in> set (j # js) then down evts (slot_state ch k) else slot_state ch k)))"
    if l: "chan_like ch ch1" and s: "(\<forall>k. slot_state ch1 k = (if k = j then down evts (slot_state ch j) else slot_state ch k))" for ch1 w1
  proof -
    have a: "chan_base ch1" "\<forall>i \<in> set js. slot_acquired ch1 i"
      using l s Cons.prems(2,3) by (auto simp: chan_like_def slot_acquired_def fun_eq_iff)
    have d: "distinct js" using Cons.prems(3) by simp
    show ?thesis
      by (rule runs_mono [OF Cons.IH [OF a d]]) (use Cons.prems(3) chan_like_trans [OF l] s in auto)
  qed
  have "slot_acquired ch j" using Cons.prems(2) by simp
  note r = stream_evts_runs [OF Cons.prems(1) this assms(4-6)]
  show ?case
    unfolding foldM.simps runs_bind by (rule runs_mono [OF r], clarify, rule step)
qed

end
