(* ===== verification/Channel_Start.thy ===== *)
theory Channel_Start
  imports Channel_Inv
begin

text \<open>
  Starting and stopping the streams of a channel: which streams are taken, in which order, and the
  states they are left in, on success and after a failure.
\<close>

section \<open>Starting\<close>

text \<open>Starting the streams: up to the first failure they are active.\<close>

lemma start_loop_runs:
  assumes "chan_base ch" and "set js \<subseteq> {..<MAX_STREAM_NUM_IN_BUNDLE}" and "\<forall>i \<in> set js. slot_state ch i = MM_STREAM_STATE_CFG"
    and "distinct js" and "alloc_ok e" and "mem_ok e"
  shows "runs (start_loop e js n ch w) (\<lambda>(rc, i, ch', w'). chan_like ch ch' \<and>
    (\<forall>k. k \<notin> set js \<longrightarrow> slot_state ch' k = slot_state ch k) \<and>
    (if rc = 0 then \<forall>k \<in> set js. slot_state ch' k = MM_STREAM_STATE_ACTIVE
     else n \<le> i \<and> i < n + length js \<and> (\<forall>k \<in> set js. slot_state ch' k \<in> {MM_STREAM_STATE_CFG, MM_STREAM_STATE_BUFFED,
         MM_STREAM_STATE_REG, MM_STREAM_STATE_ACTIVE}) \<and>
       (\<forall>k \<in> set (drop (Suc (i - n)) js). slot_state ch' k = MM_STREAM_STATE_CFG)))"
  using assms(1-4)
proof (induction js arbitrary: n ch w)
  case Nil
  then show ?case by (simp add: chan_like_refl)
next
  case (Cons j js)
  define Q :: "int \<times> nat \<times> mm_channel_t \<times> world \<Rightarrow> bool" where "Q = (\<lambda>(rc, i, ch', w'). chan_like ch ch' \<and>
    (\<forall>k. k \<notin> set (j # js) \<longrightarrow> slot_state ch' k = slot_state ch k) \<and>
    (if rc = 0 then \<forall>k \<in> set (j # js). slot_state ch' k = MM_STREAM_STATE_ACTIVE
     else n \<le> i \<and> i < n + length (j # js) \<and> (\<forall>k \<in> set (j # js). slot_state ch' k \<in> {MM_STREAM_STATE_CFG, MM_STREAM_STATE_BUFFED,
         MM_STREAM_STATE_REG, MM_STREAM_STATE_ACTIVE}) \<and>
       (\<forall>k \<in> set (drop (Suc (i - n)) (j # js)). slot_state ch' k = MM_STREAM_STATE_CFG)))"
  have j: "j < MAX_STREAM_NUM_IN_BUNDLE" "slot_state ch j = MM_STREAM_STATE_CFG" "j \<notin> set js"
    using Cons.prems by auto
  have fail: "Q (rc, n, ch1, w1)"
    if "chan_like ch ch1" "\<forall>k. slot_state ch1 k = (if k = j then st else slot_state ch k)" "rc \<noteq> 0"
      "st \<in> {MM_STREAM_STATE_CFG, MM_STREAM_STATE_BUFFED, MM_STREAM_STATE_REG, MM_STREAM_STATE_ACTIVE}" for rc ch1 w1 st
    using that j Cons.prems(3) by (auto simp: Q_def)
  have cont: "runs (start_loop e js (Suc n) ch1 w1) Q"
    if l: "chan_like ch ch1" and s: "\<forall>k. slot_state ch1 k = (if k = j then MM_STREAM_STATE_ACTIVE else slot_state ch k)" for ch1 w1
  proof -
    have a: "chan_base ch1" "set js \<subseteq> {..<MAX_STREAM_NUM_IN_BUNDLE}" "\<forall>i \<in> set js. slot_state ch1 i = MM_STREAM_STATE_CFG"
      "distinct js" using l s j Cons.prems by (auto simp: chan_like_def)
    show ?thesis
      by (rule runs_mono [OF Cons.IH [OF a]])
        (use s j chan_like_trans [OF l] in \<open>auto split: if_splits simp: Q_def Suc_le_eq Suc_diff_Suc\<close>)
  qed
  have evt: "runs (stream_evt e j evt ch1 w1) (\<lambda>(rc, ch', w'). chan_like ch ch' \<and>
      (\<forall>k. slot_state ch' k = (if k = j then stream_next st evt rc else slot_state ch k)))"
    if "evt \<in> {MM_STREAM_EVT_GET_BUF, MM_STREAM_EVT_REG_BUF, MM_STREAM_EVT_START}" "chan_like ch ch1"
      "\<forall>k. slot_state ch1 k = (if k = j then st else slot_state ch k)"
      "st \<notin> {MM_STREAM_STATE_NOTUSED, MM_STREAM_STATE_INITED}" for evt ch1 w1 st
    by (rule runs_mono [OF used_evt_runs [OF _ _ assms(5,6)]])
      (use that j(1) chan_like_trans [OF that(2)] in \<open>auto simp: chan_like_def slot_acquired_def\<close>)
  have start: "runs (do {(rc, ch, w) \<leftarrow> stream_evt e j MM_STREAM_EVT_START ch1 w1;
      if rc \<noteq> 0 then Some (rc, n, ch, w) else start_loop e js (Suc n) ch w}) Q"
    if "chan_like ch ch1" "\<forall>k. slot_state ch1 k = (if k = j then MM_STREAM_STATE_REG else slot_state ch k)" for ch1 w1
    unfolding runs_bind
    by (rule runs_mono [OF evt [OF _ that]]) (auto intro!: cont fail [where st = MM_STREAM_STATE_REG] cong del: if_weak_cong)
  have reg: "runs (do {(rc, ch, w) \<leftarrow> stream_evt e j MM_STREAM_EVT_REG_BUF ch1 w1;
      if rc \<noteq> 0 then Some (rc, n, ch, w) else do {
        (rc, ch, w) \<leftarrow> stream_evt e j MM_STREAM_EVT_START ch w;
        if rc \<noteq> 0 then Some (rc, n, ch, w) else start_loop e js (Suc n) ch w}}) Q"
    if "chan_like ch ch1" "\<forall>k. slot_state ch1 k = (if k = j then MM_STREAM_STATE_BUFFED else slot_state ch k)" for ch1 w1
    unfolding runs_bind [of "stream_evt e j MM_STREAM_EVT_REG_BUF ch1 w1"]
    by (rule runs_mono [OF evt [OF _ that]])
      (auto intro!: start fail [where st = MM_STREAM_STATE_BUFFED] simp del: runs_bind cong del: if_weak_cong)
  have refl: "chan_like ch ch" "\<forall>k. slot_state ch k = (if k = j then MM_STREAM_STATE_CFG else slot_state ch k)"
    using Cons.prems(1) j(2) by (auto simp: chan_like_refl)
  show ?case
    unfolding Q_def [symmetric] start_loop.simps j(2)
    by (simp del: runs_bind, subst runs_bind, rule runs_mono [OF evt [OF _ refl]])
      (auto intro!: reg fail [where st = MM_STREAM_STATE_CFG] simp del: runs_bind cong del: if_weak_cong)
qed

section \<open>The streams in use\<close>

definition used :: "mm_channel_t \<Rightarrow> nat list" where
  "used ch = filter (\<lambda>i. slot_state ch i \<noteq> MM_STREAM_STATE_NOTUSED) [0..<MAX_STREAM_NUM_IN_BUNDLE]"

lemma used_simps [simp]:
  "distinct (used ch)" "set (used ch) = {i. i < MAX_STREAM_NUM_IN_BUNDLE \<and> slot_state ch i \<noteq> MM_STREAM_STATE_NOTUSED}"
  by (auto simp: used_def)

lemma used_cong: "(\<And>k. k < MAX_STREAM_NUM_IN_BUNDLE \<Longrightarrow> slot_state ch' k = slot_state ch k) \<Longrightarrow> used ch' = used ch"
  unfolding used_def by (rule filter_cong) auto

lemma small_idx_inject: "i < 4 \<Longrightarrow> j < 4 \<Longrightarrow> (of_nat i :: uint8_t) = of_nat j \<longleftrightarrow> i = j"
  by (auto simp: word_unat_eq_iff unat_of_nat)

lemma lookup_slot:
  assumes "chan_base ch" and "i < MAX_STREAM_NUM_IN_BUNDLE" and "slot_state ch i \<noteq> MM_STREAM_STATE_NOTUSED"
  shows "mm_channel_util_get_stream_by_handler ch (s_my_hdl (ch_streams ch ! i)) = Some i"
proof -
  have s: "slot_inv j (ch_streams ch ! j)" if "j < 4" for j using assms(1) that by (simp add: chan_base_def)
  have l: "length (ch_streams ch) = 4" using assms(1) by (simp add: chan_base_def)
  show ?thesis
    unfolding mm_channel_util_get_stream_by_handler_def
  proof (rule find_idx_unique)
    fix j assume j: "j < length (ch_streams ch)"
      and p: "slot_state ch j \<noteq> MM_STREAM_STATE_NOTUSED \<and> s_my_hdl (ch_streams ch ! i) = s_my_hdl (ch_streams ch ! j)"
    have "(of_nat j :: uint8_t) = of_nat i"
      using s [of i] s [of j] j p assms(2,3) l by (simp add: slot_inv_def)
    then show "j = i" using j assms(2) l by (simp add: small_idx_inject)
  qed (use assms l in auto)
qed

lemma slot_hdl:
  assumes "chan_base ch" and "i < MAX_STREAM_NUM_IN_BUNDLE"
  shows "0 < s_my_hdl (ch_streams ch ! i) \<longleftrightarrow> slot_state ch i \<noteq> MM_STREAM_STATE_NOTUSED"
proof -
  have "slot_inv i (ch_streams ch ! i)" using assms by (simp add: chan_base_def)
  then show ?thesis by (auto simp: slot_inv_def word_greater_zero_iff split: if_splits)
qed

definition is_meta :: "mm_channel_t \<Rightarrow> nat \<Rightarrow> bool" where
  "is_meta ch i \<longleftrightarrow> (\<exists>si. s_stream_info (ch_streams ch ! i) = Some si \<and> si_stream_type si = CAM_STREAM_TYPE_METADATA)"

text \<open>The position of the metadata stream in the collected list.\<close>

definition meta_at :: "mm_channel_t \<Rightarrow> nat list \<Rightarrow> nat \<Rightarrow> bool" where
  "meta_at ch objs m \<longleftrightarrow> (if \<exists>j \<in> set objs. is_meta ch j then m < length objs \<and> is_meta ch (objs ! m) else m = 0)"

lemma collect_streams_runs:
  assumes "chan_base ch" and "\<forall>i \<in> set (used ch). s_stream_info (ch_streams ch ! i) \<noteq> None"
  shows "runs (collect_streams ch) (\<lambda>(objs, m). objs = used ch \<and> meta_at ch objs m)"
proof -
  define f where "f = (\<lambda>i (objs, meta :: nat). do {
     s \<leftarrow> nth_opt (ch_streams ch) (int i);
     if s_my_hdl s > 0 then
       (case mm_channel_util_get_stream_by_handler ch (s_my_hdl s) of
          None \<Rightarrow> Some (objs, meta)
        | Some j \<Rightarrow> do {
            si \<leftarrow> s_stream_info (ch_streams ch ! j);
            Some (objs @ [j], if si_stream_type si = CAM_STREAM_TYPE_METADATA then length objs else meta)
          })
     else Some (objs, meta)
   })"
  have l: "length (ch_streams ch) = 4" using assms(1) by (simp add: chan_base_def)
  have step: "runs (f i (objs, m)) (\<lambda>(objs', m'). objs' = objs @ filter (\<lambda>i. slot_state ch i \<noteq> MM_STREAM_STATE_NOTUSED) [i] \<and> meta_at ch objs' m')"
    if i4: "i < 4" and m: "meta_at ch objs m" for i objs m
  proof (cases "slot_state ch i = MM_STREAM_STATE_NOTUSED")
    case True
    then show ?thesis using i4 m slot_hdl [OF assms(1), of i] l by (simp add: f_def)
  next
    case False
    obtain si where "s_stream_info (ch_streams ch ! i) = Some si" using assms(2) i4 False by fastforce
    then show ?thesis
      using i4 m False slot_hdl [OF assms(1), of i] l lookup_slot [OF assms(1) _ False]
      by (auto simp: f_def meta_at_def is_meta_def nth_append split: if_splits)
  qed
  have "runs (foldM f [0..<n] ([], 0)) (\<lambda>(objs, m). objs = filter (\<lambda>i. slot_state ch i \<noteq> MM_STREAM_STATE_NOTUSED) [0..<n] \<and> meta_at ch objs m)"
    if "n \<le> 4" for n
    using that
  proof (induction n)
    case 0
    then show ?case by (simp add: meta_at_def)
  next
    case (Suc n)
    then have n: "n < 4" "n \<le> 4" by auto
    have "[0..<Suc n] = [0..<n] @ [n]" by simp
    then show ?case
      unfolding foldM_append runs_bind
      by (simp only: foldM_append runs_bind, intro runs_mono [OF Suc.IH [OF n(2)]], clarify)
        (use runs_mono [OF step [OF n(1)]] in \<open>auto simp: case_prod_unfold\<close>)
  qed
  from this [of 4] show ?thesis by (simp add: collect_streams_def f_def used_def)
qed

section \<open>Order\<close>

lemma swap_perm:
  assumes "i < length xs" and "j < length xs"
  shows "set (swap i j xs) = set xs" and "length (swap i j xs) = length xs" and "distinct (swap i j xs) = distinct xs"
    and "swap i j xs ! i = xs ! j"
proof -
  have "mset (swap i j xs) = mset xs" using assms unfolding swap_def by (intro mset_swap) auto
  then show "set (swap i j xs) = set xs" "length (swap i j xs) = length xs" "distinct (swap i j xs) = distinct xs"
    by (metis mset_eq_setD, metis size_mset, metis mset_eq_imp_distinct_iff)
  show "swap i j xs ! i = xs ! j" using assms by (auto simp: swap_def nth_list_update)
qed

lemma meta_at_less: "meta_at ch objs m \<Longrightarrow> objs \<noteq> [] \<Longrightarrow> m < length objs"
  by (auto simp: meta_at_def split: if_splits)

lemma start_order_perm:
  assumes "meta_at ch objs m" and "distinct objs"
  shows "set (start_order (objs, m)) = set objs" and "distinct (start_order (objs, m))"
    and "j \<in> set objs \<Longrightarrow> is_meta ch j \<Longrightarrow> is_meta ch (hd (start_order (objs, m)))"
proof -
  have "set (start_order (objs, m)) = set objs \<and> distinct (start_order (objs, m)) \<and>
      (j \<in> set objs \<longrightarrow> is_meta ch j \<longrightarrow> is_meta ch (hd (start_order (objs, m))))"
  proof (cases "objs = []")
    case True
    then show ?thesis using assms(1) by (simp add: start_order_def meta_at_def)
  next
    case False
    have l: "0 < length objs" "m < length objs" using False meta_at_less [OF assms(1) False] by auto
    note p = swap_perm [OF l]
    have "is_meta ch (objs ! m)" if "j \<in> set objs" "is_meta ch j" using assms(1) that by (auto simp: meta_at_def split: if_splits)
    moreover have "swap 0 m objs \<noteq> []" using p(2) l(1) by auto
    ultimately show ?thesis using p l assms(2) False by (auto simp: start_order_def hd_conv_nth)
  qed
  then show "set (start_order (objs, m)) = set objs" "distinct (start_order (objs, m))"
    "j \<in> set objs \<Longrightarrow> is_meta ch j \<Longrightarrow> is_meta ch (hd (start_order (objs, m)))" by auto
qed

lemma stop_order_perm:
  assumes "meta_at ch objs m" and "distinct objs"
  shows "set (stop_order (objs, m)) = set objs" and "distinct (stop_order (objs, m))"
    and "j \<in> set objs \<Longrightarrow> is_meta ch j \<Longrightarrow> is_meta ch (last (stop_order (objs, m)))"
proof -
  have "set (stop_order (objs, m)) = set objs \<and> distinct (stop_order (objs, m)) \<and>
      (j \<in> set objs \<longrightarrow> is_meta ch j \<longrightarrow> is_meta ch (last (stop_order (objs, m))))"
  proof (cases "objs = []")
    case True
    then show ?thesis using assms(1) by (simp add: stop_order_def meta_at_def)
  next
    case False
    have l: "length objs - 1 < length objs" "m < length objs" using False meta_at_less [OF assms(1) False] by auto
    note p = swap_perm [OF l]
    have "is_meta ch (objs ! m)" if "j \<in> set objs" "is_meta ch j" using assms(1) that by (auto simp: meta_at_def split: if_splits)
    moreover have "swap (length objs - 1) m objs \<noteq> []" using p(2) l(1) by auto
    moreover have "m = length objs - 1" if "\<not> int m < int (length objs) - 1" using that l by linarith
    ultimately show ?thesis using p l assms(2) False by (auto simp: stop_order_def last_conv_nth)
  qed
  then show "set (stop_order (objs, m)) = set objs" "distinct (stop_order (objs, m))"
    "j \<in> set objs \<Longrightarrow> is_meta ch j \<Longrightarrow> is_meta ch (last (stop_order (objs, m)))" by auto
qed

section \<open>The bundle\<close>

lemma fold_bundled:
  "k < length ss \<Longrightarrow> fold (\<lambda>j ss. ss[j := (ss ! j)\<lparr>s_is_bundled := True\<rparr>]) objs ss ! k =
     (if k \<in> set objs then (ss ! k)\<lparr>s_is_bundled := True\<rparr> else ss ! k)"
proof (induction objs arbitrary: ss)
  case (Cons j objs)
  then show ?case by (cases "k = j") auto
qed simp

lemma length_fold_bundled [simp]:
  "length (fold (\<lambda>j ss. ss[j := (ss ! j)\<lparr>s_is_bundled := True\<rparr>]) objs ss) = length ss"
  by (induction objs arbitrary: ss) auto

lemma slot_inv_bundled [simp]: "slot_inv i (s\<lparr>s_is_bundled := b\<rparr>) = slot_inv i s"
proof -
  have "bufs_ok (s\<lparr>s_is_bundled := b\<rparr>) = bufs_ok s" "status_ok (s\<lparr>s_is_bundled := b\<rparr>) = status_ok s"
    "cbs_inf (s\<lparr>s_is_bundled := b\<rparr>) = cbs_inf s" "stream_has_cb (s\<lparr>s_is_bundled := b\<rparr>) = stream_has_cb s"
    by (simp_all add: bufs_ok_def status_ok_def cbs_inf_def stream_has_cb_def)
  then show ?thesis by (simp add: slot_inv_def stream_wf_def frames_ok_def)
qed

lemma start_bundle_base:
  assumes "chan_base ch"
  shows "chan_base (start_bundle objs ch)" and "k < MAX_STREAM_NUM_IN_BUNDLE \<Longrightarrow> slot_state (start_bundle objs ch) k = slot_state ch k"
  using assms
  by (auto simp: start_bundle_def bundle_streams_def chan_base_def Let_def fold_bundled split: if_splits)

lemma start_bundle_same:
  "ch_state (start_bundle objs ch) = ch_state ch" "ch_my_hdl (start_bundle objs ch) = ch_my_hdl ch"
  "ch_cam_obj (start_bundle objs ch) = ch_cam_obj ch"
  by (auto simp: start_bundle_def bundle_streams_def Let_def set_queue_def)

section \<open>Start and stop\<close>

lemma down_all:
  "st \<in> {MM_STREAM_STATE_CFG, MM_STREAM_STATE_BUFFED, MM_STREAM_STATE_REG, MM_STREAM_STATE_ACTIVE} \<Longrightarrow>
   down [MM_STREAM_EVT_STOP, MM_STREAM_EVT_UNREG_BUF, MM_STREAM_EVT_PUT_BUF] st = MM_STREAM_STATE_CFG"
  by (auto simp: down_def)

lemma stream_configured:
  assumes "chan_base ch" and "i < MAX_STREAM_NUM_IN_BUNDLE" and "configured (slot_state ch i)"
  shows "s_stream_info (ch_streams ch ! i) \<noteq> None"
  using assms by (auto simp: chan_base_def slot_inv_def stream_wf_def)

text \<open>All streams start, or those that did are taken down again.\<close>

abbreviation take_down :: "mm_stream_evt_type_t list" where
  "take_down \<equiv> [MM_STREAM_EVT_STOP, MM_STREAM_EVT_UNREG_BUF, MM_STREAM_EVT_PUT_BUF]"

definition settled :: "mm_channel_t \<Rightarrow> mm_stream_state_type_t \<Rightarrow> mm_channel_t \<Rightarrow> bool" where
  "settled ch st ch' \<longleftrightarrow> (\<forall>k < MAX_STREAM_NUM_IN_BUNDLE. slot_state ch' k =
     (if slot_state ch k = MM_STREAM_STATE_NOTUSED then MM_STREAM_STATE_NOTUSED else st))"

lemma down_evts_sub: "set take_down \<subseteq> down_evts" by (simp add: down_evts_def)

lemma rollback_runs:
  assumes "chan_base ch1" and "set objs = set (used ch)" and "distinct objs" and "alloc_ok e" and "mem_ok e"
    and n: "\<forall>k < MAX_STREAM_NUM_IN_BUNDLE. k \<notin> set objs \<longrightarrow> slot_state ch1 k = slot_state ch k"
    and s: "\<forall>k \<in> set objs. slot_state ch1 k \<in> {MM_STREAM_STATE_CFG, MM_STREAM_STATE_BUFFED, MM_STREAM_STATE_REG, MM_STREAM_STATE_ACTIVE}"
    and d: "\<forall>k \<in> set (drop i objs). slot_state ch1 k = MM_STREAM_STATE_CFG"
  shows "runs (foldM (\<lambda>j. stream_evts e j take_down) (take i objs) (ch1, w)) (\<lambda>(ch', w').
    chan_like ch1 ch' \<and> settled ch MM_STREAM_STATE_CFG ch')"
proof -
  have sub: "set (take i objs) \<subseteq> set objs" by (rule set_take_subset)
  have acq: "slot_acquired ch1 k" if k: "k \<in> set objs" for k
  proof -
    have "k < MAX_STREAM_NUM_IN_BUNDLE" using k unfolding assms(2) by simp
    then show ?thesis using bspec [OF s k] by (auto simp: slot_acquired_def)
  qed
  have a: "\<forall>k \<in> set (take i objs). slot_acquired ch1 k" "distinct (take i objs)"
    using acq sub assms(3) by auto
  have dn: "down take_down (slot_state ch1 k) = MM_STREAM_STATE_CFG" if "k \<in> set objs" for k
    using s that by (intro down_all) auto
  have rest: "slot_state ch1 k = (if slot_state ch k = MM_STREAM_STATE_NOTUSED then MM_STREAM_STATE_NOTUSED else MM_STREAM_STATE_CFG)"
    if "k < MAX_STREAM_NUM_IN_BUNDLE" "k \<notin> set (take i objs)" for k
  proof (cases "k \<in> set objs")
    case True
    then have "k \<in> set (drop i objs)" using that(2) by (metis Un_iff append_take_drop_id set_append)
    then show ?thesis using d True assms(2) by simp
  next
    case False
    then show ?thesis using n assms(2) that(1) by simp
  qed
  have "(if k \<in> set (take i objs) then down take_down (slot_state ch1 k) else slot_state ch1 k) =
      (if slot_state ch k = MM_STREAM_STATE_NOTUSED then MM_STREAM_STATE_NOTUSED else MM_STREAM_STATE_CFG)"
    if k: "k < MAX_STREAM_NUM_IN_BUNDLE" for k
  proof (cases "k \<in> set (take i objs)")
    case True
    then have "k \<in> set objs" using sub by blast
    moreover from this have "slot_state ch k \<noteq> MM_STREAM_STATE_NOTUSED" unfolding assms(2) by simp
    ultimately show ?thesis using dn True by simp
  qed (use rest [OF k] in simp)
  then show ?thesis
    unfolding settled_def by (intro runs_mono [OF all_evts_runs [OF assms(1) a assms(4,5) down_evts_sub]]) auto
qed

text \<open>The body of \<^verbatim>\<open>mm_channel_start\<close> after the streams have been collected.\<close>

definition start_streams :: "env \<Rightarrow> nat list \<Rightarrow> mm_channel_t \<Rightarrow> world \<Rightarrow> (int \<times> mm_channel_t \<times> world) option" where
  "start_streams e objs ch w = do {
     (rc, i, ch, w) \<leftarrow> start_loop e objs 0 ch w;
     if rc \<noteq> 0 then do {
       (ch, w) \<leftarrow> foldM (\<lambda>j. stream_evts e j take_down) (take (Suc i) objs) (ch, w);
       Some (rc, ch, w)
     }
     else Some (rc, ch, w)
   }"

lemma channel_start_alt:
  "mm_channel_start e ch w = do {
     found \<leftarrow> collect_streams ch;
     start_streams e (start_order found) (start_bundle (start_order found) ch) w
   }"
  by (simp add: mm_channel_start_def start_streams_def Let_def)

lemma start_streams_runs:
  assumes "chan_base ch" and "set objs = set (used ch)" and "distinct objs" and "alloc_ok e" and "mem_ok e"
    and "\<forall>k < MAX_STREAM_NUM_IN_BUNDLE. slot_state ch k \<in> {MM_STREAM_STATE_NOTUSED, MM_STREAM_STATE_CFG}"
  shows "runs (start_streams e objs ch w) (\<lambda>(rc, ch', w'). chan_like ch ch' \<and>
    settled ch (if rc = 0 then MM_STREAM_STATE_ACTIVE else MM_STREAM_STATE_CFG) ch')"
proof -
  have b: "set objs \<subseteq> {..<MAX_STREAM_NUM_IN_BUNDLE}" "\<forall>i \<in> set objs. slot_state ch i = MM_STREAM_STATE_CFG"
    using assms(2,6) by fastforce+
  show ?thesis
    unfolding start_streams_def runs_bind
  proof (rule runs_mono [OF start_loop_runs [OF assms(1) b assms(3-5)]], clarify)
    fix rc i ch1 w1
    assume l: "chan_like ch ch1" "\<forall>k. k \<notin> set objs \<longrightarrow> slot_state ch1 k = slot_state ch k"
      and r: "if rc = 0 then \<forall>k \<in> set objs. slot_state ch1 k = MM_STREAM_STATE_ACTIVE
        else 0 \<le> i \<and> i < 0 + length objs \<and> (\<forall>k \<in> set objs. slot_state ch1 k \<in> {MM_STREAM_STATE_CFG, MM_STREAM_STATE_BUFFED,
            MM_STREAM_STATE_REG, MM_STREAM_STATE_ACTIVE}) \<and>
          (\<forall>k \<in> set (drop (Suc (i - 0)) objs). slot_state ch1 k = MM_STREAM_STATE_CFG)"
    show "runs (if rc \<noteq> 0 then do {
         (ch, w) \<leftarrow> foldM (\<lambda>j. stream_evts e j take_down) (take (Suc i) objs) (ch1, w1);
         Some (rc, ch, w)
       }
       else Some (rc, ch1, w1)) (\<lambda>(rc, ch', w'). chan_like ch ch' \<and>
        settled ch (if rc = 0 then MM_STREAM_STATE_ACTIVE else MM_STREAM_STATE_CFG) ch')"
    proof (cases "rc = 0")
      case True
      then show ?thesis using l r assms(2) by (auto simp: settled_def)
    next
      case False
      have "chan_base ch1" using l(1) by (simp add: chan_like_def)
      then have "runs (foldM (\<lambda>j. stream_evts e j take_down) (take (Suc i) objs) (ch1, w1)) (\<lambda>(ch', w').
          chan_like ch1 ch' \<and> settled ch MM_STREAM_STATE_CFG ch')"
        by (rule rollback_runs [OF _ assms(2-5)]) (use l(2) r False in auto)
      then have "runs (foldM (\<lambda>j. stream_evts e j take_down) (take (Suc i) objs) (ch1, w1)) (\<lambda>p.
          chan_like ch (fst p) \<and> settled ch MM_STREAM_STATE_CFG (fst p))"
        by (rule runs_mono) (use chan_like_trans [OF l(1)] in auto)
      then show ?thesis using False by (simp add: case_prod_unfold)
    qed
  qed
qed

lemma channel_start_runs:
  assumes "chan_base ch" and "alloc_ok e" and "mem_ok e"
    and "\<forall>k < MAX_STREAM_NUM_IN_BUNDLE. slot_state ch k \<in> {MM_STREAM_STATE_NOTUSED, MM_STREAM_STATE_CFG}"
  shows "runs (mm_channel_start e ch w) (\<lambda>(rc, ch', w'). \<exists>m. meta_at ch (used ch) m \<and>
    chan_like (start_bundle (start_order (used ch, m)) ch) ch' \<and>
    settled ch (if rc = 0 then MM_STREAM_STATE_ACTIVE else MM_STREAM_STATE_CFG) ch')"
proof -
  have info: "s_stream_info (ch_streams ch ! i) \<noteq> None" if "i \<in> set (used ch)" for i
    by (rule stream_configured [OF assms(1)]) (use that assms(4) in \<open>auto simp: configured_def\<close>)
  show ?thesis
    unfolding channel_start_alt runs_bind
  proof (rule runs_mono [OF collect_streams_runs [OF assms(1)]], use info in blast, clarify)
    fix m assume m: "meta_at ch (used ch) m"
    let ?b = "start_bundle (start_order (used ch, m)) ch"
    note bs = start_bundle_base(1) [OF assms(1), of "start_order (used ch, m)"]
      start_bundle_base(2) [OF assms(1), of _ "start_order (used ch, m)"]
    have u: "used ?b = used ch" by (rule used_cong) (rule bs(2))
    note p = start_order_perm [OF m used_simps(1)]
    have r: "runs (start_streams e (start_order (used ch, m)) ?b w) (\<lambda>(rc, ch', w'). chan_like ?b ch' \<and>
        settled ?b (if rc = 0 then MM_STREAM_STATE_ACTIVE else MM_STREAM_STATE_CFG) ch')"
      by (rule start_streams_runs [OF bs(1) _ p(2) assms(2,3)]) (use p(1) u bs(2) assms(4) in simp_all)
    have "settled ?b st = settled ch st" for st using bs(2) by (simp add: settled_def fun_eq_iff)
    then show "runs (start_streams e (start_order (used ch, m)) ?b w) (\<lambda>(rc, ch', w'). \<exists>m. meta_at ch (used ch) m \<and>
        chan_like (start_bundle (start_order (used ch, m)) ch) ch' \<and>
        settled ch (if rc = 0 then MM_STREAM_STATE_ACTIVE else MM_STREAM_STATE_CFG) ch')"
      using m by (intro runs_mono [OF r]) auto
  qed
qed

end
