(* ===== verification/Channel_Run.thy ===== *)
theory Channel_Run
  imports Channel_Start
begin

text \<open>
  Stopping a channel, and the invariant of a channel that every event of its state machine and
  every step of its threads keeps.
\<close>

section \<open>Releasing the threads\<close>

lemma release_opt_runs:
  assumes "mem_ok e" and "I (s, w)" and "\<And>p c. I p \<Longrightarrow> I (fst p, snd (sys e c (snd p)))"
    and "\<And>c p. c \<in> set (ct_cmd_queue t) \<Longrightarrow> I p \<Longrightarrow> runs (f c p) I" and "ct_cb t \<noteq> None"
  shows "runs (mm_camera_cmd_thread_release e (map_option (\<lambda>_. f) (ct_cb t)) t s w)
    (\<lambda>(rc, t', s', w'). rc = 0 \<and> t' = zero_cmd_thread \<and> I (s', w'))"
  using assms(5) release_runs [OF assms(1-3), of t f] assms(4) by auto

text \<open>The counts of a stream do not matter for its slot.\<close>

lemma counts_slot:
  assumes "counts_only s s'"
  shows "s_state s' = s_state s" and "stream_id s' = stream_id s" and "slot_inv i s \<Longrightarrow> slot_inv i s'"
proof -
  obtain st' where s': "s' = s\<lparr>s_buf_status := st'\<rparr>" "map_option length st' = map_option length (s_buf_status s)"
    using assms by (auto simp: counts_only_def)
  show "s_state s' = s_state s" "stream_id s' = stream_id s" using s'(1) by simp_all
  have "status_ok s' = status_ok s" using s' by (cases st'; cases "s_buf_status s") (simp_all add: status_ok_def)
  moreover have "stream_has_cb s' = stream_has_cb s" using s'(1) by (simp add: stream_has_cb_def)
  ultimately show "slot_inv i s \<Longrightarrow> slot_inv i s'"
    using s'(1) by (simp add: slot_inv_def stream_wf_def frames_ok_def)
qed

definition chan_keep :: "mm_channel_t \<Rightarrow> mm_channel_t \<Rightarrow> bool" where
  "chan_keep ch ch' \<longleftrightarrow> chan_base ch' \<and> ch_my_hdl ch' = ch_my_hdl ch \<and> ch_state ch' = ch_state ch \<and> ch_cam_obj ch' = ch_cam_obj ch \<and>
     (\<forall>k < MAX_STREAM_NUM_IN_BUNDLE. slot_state ch' k = slot_state ch k \<and> stream_id (ch_streams ch' ! k) = stream_id (ch_streams ch ! k))"

lemma counts_keep:
  assumes "chan_base ch" and "chan_core ch' = chan_core ch" and "counts_step ch ch'"
  shows "chan_keep ch ch'"
proof -
  have c: "counts_only (ch_streams ch ! k) (ch_streams ch' ! k)" if "k < 4" for k
    using assms(1,3) that by (simp add: list_all2_conv_all_nth chan_base_def)
  have "length (ch_streams ch') = length (ch_streams ch)" using assms(3) by (simp add: list_all2_lengthD)
  then show ?thesis
    using assms(1,2) counts_slot [OF c] by (simp add: chan_keep_def chan_base_def chan_core_def)
qed

lemma chan_keep_trans: "chan_keep ch ch' \<Longrightarrow> chan_keep ch' ch'' \<Longrightarrow> chan_keep ch ch''"
  by (simp add: chan_keep_def)

lemma quiet_fits: "\<forall>s \<in> set ss. s_state s \<noteq> MM_STREAM_STATE_ACTIVE \<Longrightarrow> buf_fits ss b"
  by (auto simp: buf_fits_def)

lemma quiet_slots:
  assumes "chan_base ch" and "\<forall>k < MAX_STREAM_NUM_IN_BUNDLE. slot_state ch k \<noteq> MM_STREAM_STATE_ACTIVE"
  shows "buf_fits (ch_streams ch) b"
  by (rule quiet_fits) (use assms in \<open>auto simp: chan_base_def in_set_conv_nth\<close>)

text \<open>The commands that wait for the channel thread.\<close>

definition frames_only :: "mm_channel_t \<Rightarrow> bool" where
  "frames_only ch \<longleftrightarrow> ct_cb (ch_cmd_thread ch) \<noteq> None \<and> (\<forall>bi. MM_CAMERA_CMD_TYPE_DATA_CB bi \<in> set (ct_cmd_queue (ch_cmd_thread ch)) \<longrightarrow> (\<exists>b. frame_ok bi b))"

lemma release_cmd_runs:
  assumes "mem_ok e" and "chan_base ch" and "superbuf_inv ch" and "frames_only ch"
    and "\<forall>k < MAX_STREAM_NUM_IN_BUNDLE. slot_state ch k \<noteq> MM_STREAM_STATE_ACTIVE"
  shows "runs (release_cmd_thread e ch w) (\<lambda>(ch', w'). chan_keep ch ch' \<and> ch_cmd_thread ch' = zero_cmd_thread \<and>
    ct_cb (ch_cb_thread ch') = ct_cb (ch_cb_thread ch))"
proof -
  define I :: "mm_channel_t \<times> world \<Rightarrow> bool"
    where "I = (\<lambda>(ch', w'). superbuf_inv ch' \<and> chan_core ch' = chan_core ch \<and> counts_step ch ch')"
  have step: "runs (mm_channel_process_stream_buf e c p) I" if c: "c \<in> set (ct_cmd_queue (ch_cmd_thread ch))" and i: "I p" for c p
  proof -
    obtain ch1 w1 where p: "p = (ch1, w1)" "superbuf_inv ch1" "chan_core ch1 = chan_core ch" "counts_step ch ch1"
      using i by (cases p) (auto simp: I_def)
    have "buf_fits (ch_streams ch1) b" for b by (rule counts_fits [OF p(4) quiet_slots [OF assms(2,5)]])
    then have "cmd_fits ch1 c" using assms(4) c by (cases c) (auto simp: frames_only_def)
    from process_runs [OF p(2) this, of e w1] show ?thesis
      unfolding p(1) by (rule runs_mono) (use p(3,4) in \<open>auto simp: I_def elim: list_all2_counts_trans\<close>)
  qed
  have "runs (mm_camera_cmd_thread_release e (map_option (\<lambda>_. mm_channel_process_stream_buf e) (ct_cb (ch_cmd_thread ch)))
      (ch_cmd_thread ch) ch w) (\<lambda>(rc, t', s', w'). rc = 0 \<and> t' = zero_cmd_thread \<and> I (s', w'))"
    by (rule release_opt_runs [OF assms(1)]) (use assms(3,4) step in \<open>auto simp: I_def list_all2_refl frames_only_def\<close>)
  then have "runs (mm_camera_cmd_thread_release e (map_option (\<lambda>_. mm_channel_process_stream_buf e) (ct_cb (ch_cmd_thread ch)))
      (ch_cmd_thread ch) ch w) (\<lambda>(rc, t', s', w'). t' = zero_cmd_thread \<and> chan_keep ch s' \<and>
        ct_cb (ch_cb_thread s') = ct_cb (ch_cb_thread ch))"
    by (rule runs_mono) (auto simp: I_def intro: counts_keep [OF assms(2)], auto simp: chan_core_def)
  then show ?thesis
    unfolding release_cmd_thread_def runs_bind by (rule runs_mono) (auto simp: chan_keep_def chan_base_def)
qed

lemma release_cb_runs:
  assumes "mem_ok e" and "ct_cb (ch_cb_thread ch) \<noteq> None"
  shows "runs (release_cb_thread e ch w) (\<lambda>(ch', w'). ch' = ch\<lparr>ch_cb_thread := zero_cmd_thread\<rparr>)"
proof -
  have "runs (mm_camera_cmd_thread_release e (map_option (\<lambda>_ c (ch, w). Some (ch, mm_channel_dispatch_super_buf e c ch w))
      (ct_cb (ch_cb_thread ch))) (ch_cb_thread ch) ch w) (\<lambda>(rc, t', s', w'). rc = 0 \<and> t' = zero_cmd_thread \<and> (\<lambda>p. fst p = ch) (s', w'))"
    by (rule release_opt_runs [OF assms(1)]) (use assms(2) in auto)
  then show ?thesis
    unfolding release_cb_thread_def runs_bind by (rule runs_mono) auto
qed

lemma stop_bundle_runs:
  assumes "mem_ok e" and "chan_base ch" and "\<forall>k < MAX_STREAM_NUM_IN_BUNDLE. slot_state ch k \<noteq> MM_STREAM_STATE_ACTIVE"
    and "bd_is_active (ch_bundle ch) \<longrightarrow> superbuf_inv ch \<and> frames_only ch"
  shows "runs (stop_bundle e ch w) (\<lambda>(ch', w'). chan_keep ch ch' \<and>
    (if bd_is_active (ch_bundle ch) then ch_bundle ch' = zero_bundle \<and> ch_cmd_thread ch' = zero_cmd_thread \<and> ch_cb_thread ch' = zero_cmd_thread
     else ch' = ch))"
proof (cases "bd_is_active (ch_bundle ch)")
  case True
  have a: "superbuf_inv ch" "frames_only ch" using assms(4) True by auto
  have cb: "runs (release_cb_thread e ch1 w1) (\<lambda>p. fst p = ch1\<lparr>ch_cb_thread := zero_cmd_thread\<rparr>)"
    if "ct_cb (ch_cb_thread ch1) \<noteq> None" for ch1 w1
    by (rule runs_mono [OF release_cb_runs [OF assms(1) that]]) auto
  have "runs (release_cmd_thread e ch w) (\<lambda>p. chan_keep ch (fst p) \<and> ch_cmd_thread (fst p) = zero_cmd_thread \<and>
      ct_cb (ch_cb_thread (fst p)) \<noteq> None)"
    by (rule runs_mono [OF release_cmd_runs [OF assms(1,2) a assms(3)]]) (use a(1) in \<open>auto simp: superbuf_inv_def\<close>)
  then show ?thesis
    using True unfolding stop_bundle_def
    by (simp add: case_prod_unfold Let_def) (erule runs_mono, rule runs_mono [OF cb], auto simp: chan_keep_def chan_base_def dest: sym)
next
  case False
  then show ?thesis using assms(2) by (simp add: stop_bundle_def chan_keep_def)
qed

section \<open>Stopping\<close>

lemma like_superbuf:
  assumes "chan_like ch ch'" and "superbuf_inv ch" and "\<forall>k < MAX_STREAM_NUM_IN_BUNDLE. slot_state ch' k \<noteq> MM_STREAM_STATE_ACTIVE"
  shows "superbuf_inv ch'"
proof -
  have "chan_base ch'" "chan_env ch' = chan_env ch" using assms(1) by (auto simp: chan_like_def)
  then show ?thesis
    using assms(2) quiet_slots [OF _ assms(3)] chan_envD [of ch' ch] by (simp add: superbuf_inv_def bufs_fit_def)
qed

lemma like_frames: "chan_like ch ch' \<Longrightarrow> frames_only ch' = frames_only ch"
  using chan_envD(5) [of ch' ch] by (simp add: chan_like_def frames_only_def)

abbreviation halt :: "mm_stream_evt_type_t list" where
  "halt \<equiv> [MM_STREAM_EVT_STOP, MM_STREAM_EVT_UNREG_BUF]"

lemma down_stop:
  "down halt MM_STREAM_STATE_ACTIVE = MM_STREAM_STATE_BUFFED" "down [MM_STREAM_EVT_PUT_BUF] MM_STREAM_STATE_BUFFED = MM_STREAM_STATE_CFG"
  by (simp_all add: down_def)

lemma down_evts_stop: "set halt \<subseteq> down_evts" "set [MM_STREAM_EVT_PUT_BUF] \<subseteq> down_evts"
  by (simp_all add: down_evts_def)

text \<open>The body of \<^verbatim>\<open>mm_channel_stop\<close> after the streams have been collected.\<close>

definition stop_streams :: "env \<Rightarrow> nat list \<Rightarrow> mm_channel_t \<Rightarrow> world \<Rightarrow> (int \<times> mm_channel_t \<times> world) option" where
  "stop_streams e objs ch w = do {
     (ch, w) \<leftarrow> foldM (\<lambda>j. stream_evts e j halt) objs (ch, w);
     (ch, w) \<leftarrow> stop_bundle e ch w;
     (ch, w) \<leftarrow> foldM (\<lambda>j. stream_evts e j [MM_STREAM_EVT_PUT_BUF]) objs (ch, w);
     Some (0, ch, w)
   }"

lemma channel_stop_alt:
  "mm_channel_stop e ch w = do { found \<leftarrow> collect_streams ch; stop_streams e (stop_order found) ch w }"
  by (simp add: mm_channel_stop_def stop_streams_def Let_def)

definition stopped_post :: "mm_channel_t \<Rightarrow> mm_channel_t \<Rightarrow> bool" where
  "stopped_post ch ch' \<longleftrightarrow> chan_base ch' \<and> settled ch MM_STREAM_STATE_CFG ch' \<and> ch_my_hdl ch' = ch_my_hdl ch \<and> ch_cam_obj ch' = ch_cam_obj ch \<and>
     (\<forall>k < MAX_STREAM_NUM_IN_BUNDLE. stream_id (ch_streams ch' ! k) = stream_id (ch_streams ch ! k)) \<and>
     (if bd_is_active (ch_bundle ch)
      then ch_bundle ch' = zero_bundle \<and> ch_cmd_thread ch' = zero_cmd_thread \<and> ch_cb_thread ch' = zero_cmd_thread
      else chan_env ch' = chan_env ch)"

lemma stop_streams_runs:
  assumes "chan_base ch" and "set objs = set (used ch)" and "distinct objs" and "alloc_ok e" and "mem_ok e"
    and st: "\<forall>k < MAX_STREAM_NUM_IN_BUNDLE. slot_state ch k \<in> {MM_STREAM_STATE_NOTUSED, MM_STREAM_STATE_ACTIVE}"
    and "bd_is_active (ch_bundle ch) \<longrightarrow> superbuf_inv ch \<and> frames_only ch"
  shows "runs (stop_streams e objs ch w) (\<lambda>(rc, ch', w'). rc = 0 \<and> stopped_post ch ch')"
proof -
  have o: "k \<in> set objs \<longleftrightarrow> k < MAX_STREAM_NUM_IN_BUNDLE \<and> slot_state ch k = MM_STREAM_STATE_ACTIVE" for k
    unfolding assms(2) using st by fastforce
  have last: "runs (foldM (\<lambda>j. stream_evts e j [MM_STREAM_EVT_PUT_BUF]) objs (ch2, w2)) (\<lambda>p. stopped_post ch (fst p))"
    if l: "chan_like ch ch1" and s1: "\<forall>k. slot_state ch1 k = (if k \<in> set objs then down halt (slot_state ch k) else slot_state ch k)"
      and kp: "chan_keep ch1 ch2" and b: "if bd_is_active (ch_bundle ch1) then ch_bundle ch2 = zero_bundle \<and>
        ch_cmd_thread ch2 = zero_cmd_thread \<and> ch_cb_thread ch2 = zero_cmd_thread else ch2 = ch1" for ch1 ch2 w2
  proof -
    have s2: "slot_state ch2 k = (if k \<in> set objs then MM_STREAM_STATE_BUFFED else MM_STREAM_STATE_NOTUSED)"
      if "k < MAX_STREAM_NUM_IN_BUNDLE" for k
      using kp spec [OF s1, of k] that spec [OF st, of k] o [of k] down_stop(1) by (auto simp: chan_keep_def)
    have acq: "\<forall>k \<in> set objs. slot_acquired ch2 k"
    proof
      fix k assume k: "k \<in> set objs"
      then have "k < MAX_STREAM_NUM_IN_BUNDLE" by (rule o [THEN iffD1, THEN conjunct1])
      then show "slot_acquired ch2 k" using s2 k by (simp add: slot_acquired_def)
    qed
    have base: "chan_base ch2" using kp by (simp add: chan_keep_def)
    have env: "ch_bundle ch1 = ch_bundle ch" by (rule chan_envD(4)) (use l in \<open>simp add: chan_like_def\<close>)
    have key: "stopped_post ch ch3" if l3: "chan_like ch2 ch3"
      and s3: "\<forall>k. slot_state ch3 k = (if k \<in> set objs then down [MM_STREAM_EVT_PUT_BUF] (slot_state ch2 k) else slot_state ch2 k)" for ch3
    proof -
      have "settled ch MM_STREAM_STATE_CFG ch3"
        unfolding settled_def
      proof (intro allI impI)
        fix k assume k: "k < MAX_STREAM_NUM_IN_BUNDLE"
        show "slot_state ch3 k = (if slot_state ch k = MM_STREAM_STATE_NOTUSED then MM_STREAM_STATE_NOTUSED else MM_STREAM_STATE_CFG)"
          using spec [OF s3, of k] s2 [OF k] o [of k] spec [OF st, of k] k down_stop(2) by (cases "k \<in> set objs") auto
      qed
      then show ?thesis
        using l l3 kp b env chan_envD [of ch3 ch2] chan_envD [of ch1 ch]
        by (simp add: stopped_post_def chan_like_def chan_keep_def split: if_splits)
    qed
    show ?thesis
      by (rule runs_mono [OF all_evts_runs [OF base acq assms(3-5) down_evts_stop(2)]], clarify, unfold fst_conv, rule key)
  qed
  have mid: "runs (stop_bundle e ch1 w1) (\<lambda>(ch2, w2).
      runs (foldM (\<lambda>j. stream_evts e j [MM_STREAM_EVT_PUT_BUF]) objs (ch2, w2)) (\<lambda>p. stopped_post ch (fst p)))"
    if l: "chan_like ch ch1" and s1: "\<forall>k. slot_state ch1 k = (if k \<in> set objs then down halt (slot_state ch k) else slot_state ch k)" for ch1 w1
  proof -
    have base: "chan_base ch1" using l by (simp add: chan_like_def)
    have q: "\<forall>k < MAX_STREAM_NUM_IN_BUNDLE. slot_state ch1 k \<noteq> MM_STREAM_STATE_ACTIVE"
    proof (intro allI impI)
      fix k assume k: "k < MAX_STREAM_NUM_IN_BUNDLE"
      show "slot_state ch1 k \<noteq> MM_STREAM_STATE_ACTIVE"
        using spec [OF s1, of k] spec [OF st, of k] o [of k] k down_stop(1) by (cases "k \<in> set objs") auto
    qed
    have "bd_is_active (ch_bundle ch1) \<longrightarrow> superbuf_inv ch1 \<and> frames_only ch1"
      using assms(7) like_superbuf [OF l _ q] like_frames [OF l] l chan_envD(4) [of ch1 ch] by (simp add: chan_like_def)
    from stop_bundle_runs [OF assms(5) base q this] show ?thesis
      by (rule runs_mono) (use last [OF l s1] in auto)
  qed
  have acq: "\<forall>k \<in> set objs. slot_acquired ch k" by (simp add: o slot_acquired_def)
  show ?thesis
    unfolding stop_streams_def runs_bind
    by (rule runs_mono [OF all_evts_runs [OF assms(1) acq assms(3-5) down_evts_stop(1)]], clarify)
      (simp add: case_prod_unfold, rule mid [unfolded case_prod_unfold prod.collapse], simp_all)
qed

lemma channel_stop_runs:
  assumes "chan_base ch" and "alloc_ok e" and "mem_ok e"
    and st: "\<forall>k < MAX_STREAM_NUM_IN_BUNDLE. slot_state ch k \<in> {MM_STREAM_STATE_NOTUSED, MM_STREAM_STATE_ACTIVE}"
    and "bd_is_active (ch_bundle ch) \<longrightarrow> superbuf_inv ch \<and> frames_only ch"
  shows "runs (mm_channel_stop e ch w) (\<lambda>(rc, ch', w'). rc = 0 \<and> stopped_post ch ch')"
proof -
  have info: "s_stream_info (ch_streams ch ! i) \<noteq> None" if "i \<in> set (used ch)" for i
    by (rule stream_configured [OF assms(1)]) (use that st in \<open>auto simp: configured_def\<close>)
  show ?thesis
    unfolding channel_stop_alt runs_bind
  proof (rule runs_mono [OF collect_streams_runs [OF assms(1)]], use info in blast, clarify)
    fix m assume "meta_at ch (used ch) m"
    note p = stop_order_perm [OF this used_simps(1)]
    show "runs (stop_streams e (stop_order (used ch, m)) ch w) (\<lambda>(rc, ch', w'). rc = 0 \<and> stopped_post ch ch')"
      by (rule stop_streams_runs [OF assms(1) p(1,2) assms(2-5)])
  qed
qed

end
