(* ===== verification/Channel_Threads.thy ===== *)
theory Channel_Threads
  imports Channel_Run
begin

text \<open>
  The threads of a running channel: the poll thread takes a frame from the driver
  (\<^verbatim>\<open>mm_stream_data_notify\<close>), the thread of a stream dispatches queued frames, the two threads of
  the channel match and deliver superbuffers. Each step returns, and keeps what the next steps of
  the other threads rely on.
\<close>

section \<open>One command\<close>

text \<open>
  A thread that is awake takes one command from its queue and handles it: the body of the inner
  loop of \<^verbatim>\<open>mm_camera_cmd_thread\<close>. The commands that other threads post meanwhile stay behind it.
\<close>

definition thread_step ::
  "(mm_camera_cmdcb_t \<Rightarrow> 's \<Rightarrow> 's option) \<Rightarrow> mm_camera_cmd_thread_t \<Rightarrow> 's \<Rightarrow> (mm_camera_cmd_thread_t \<times> 's) option" where
  "thread_step f t s =
     (case ct_cmd_queue t of
        [] \<Rightarrow> Some (t, s)
      | c # cs \<Rightarrow>
          if ct_running t then do {
            (running, s) \<leftarrow> cmd_thread_drain (Some f) True [c] s;
            Some (t\<lparr>ct_cmd_queue := cs, ct_running := running\<rparr>, s)
          }
          else Some (t, s))"

lemma thread_step_runs:
  assumes "I s" and "\<And>c s. c \<in> set (ct_cmd_queue t) \<Longrightarrow> I s \<Longrightarrow> runs (f c s) I"
  shows "runs (thread_step f t s) (\<lambda>(t', s'). I s' \<and> ct_cb t' = ct_cb t \<and> set (ct_cmd_queue t') \<subseteq> set (ct_cmd_queue t) \<and>
    (no_exit (ct_cmd_queue t) \<longrightarrow> ct_running t' = ct_running t))"
proof (cases "ct_cmd_queue t")
  case (Cons c cs)
  have "runs (cmd_thread_drain (Some f) True [c] s) (\<lambda>(r', s'). I s' \<and> r' = (True \<and> no_exit [c]))"
    by (rule drain_runs) (use assms Cons in auto)
  then show ?thesis
    using assms(1) Cons unfolding thread_step_def by (auto simp: runs_bind elim!: runs_mono)
qed (use assms(1) in \<open>simp add: thread_step_def\<close>)

section \<open>Frames\<close>

definition fit_like :: "mm_stream_t \<Rightarrow> mm_stream_t \<Rightarrow> bool" where
  "fit_like s s' \<longleftrightarrow> s_state s' = s_state s \<and> stream_id s' = stream_id s \<and>
     map_option length (s_buf_status s') = map_option length (s_buf_status s)"

lemma fit_like_fits:
  assumes "fit_like (ss ! i) s'" and "buf_fits ss b"
  shows "buf_fits (ss[i := s']) b"
proof (cases "i < length ss")
  case True
  have "\<exists>st. s_buf_status s' = Some st \<and> idx_ok (length st) b"
    if "s_state s' = MM_STREAM_STATE_ACTIVE" "s_my_hdl s' = b_stream_id b"
  proof -
    have "\<exists>st. s_buf_status (ss ! i) = Some st \<and> idx_ok (length st) b"
      using assms that True by (auto simp: buf_fits_def fit_like_def stream_id_def)
    then show ?thesis using assms(1) by (auto simp: fit_like_def)
  qed
  then show ?thesis
    using assms(2) set_update_subset_insert [of ss i s'] unfolding buf_fits_def by blast
qed (use assms(2) in \<open>simp add: list_update_beyond\<close>)

text \<open>The frame a stream takes from the driver.\<close>

definition own_frame :: "mm_stream_t \<Rightarrow> mm_camera_cmdcb_t \<Rightarrow> bool" where
  "own_frame s c \<longleftrightarrow> (\<exists>bi b st. c = MM_CAMERA_CMD_TYPE_DATA_CB bi \<and> frame_ok bi b \<and> b_stream_id b = s_my_hdl s \<and>
     s_buf_status s = Some st \<and> idx_ok (length st) b)"

lemma read_frame_runs:
  assumes "bufs_ok s" and "s_stream_info s \<noteq> None" and "vb_index (e_dqbuf e (w_trace w)) = of_nat i" and "i < 128" and "i < unat (s_buf_num s)"
  shows "runs (mm_stream_read_msm_frame e s w) (\<lambda>(rc, bi, s', w'). bufs_ok s' \<and> (\<exists>bs. s' = s\<lparr>s_buf := bs\<rparr>) \<and>
    (rc = 0 \<longrightarrow> (\<exists>b. frame_ok bi b \<and> b_stream_id b = s_my_hdl s \<and> b_buf_idx b = int i)))"
proof -
  obtain bs where bs: "s_buf s = Some bs" "length bs = unat (s_buf_num s)" "\<forall>i < length bs. b_buf_idx (bs ! i) = int i"
    using assms(1) by (auto simp: bufs_ok_def)
  have idx: "sint (ucast (vb_index (e_dqbuf e (w_trace w))) :: uint8_t) = int i"
    unfolding assms(3) by (rule small_index [OF assms(4)])
  show ?thesis
    using assms(2,5) bs idx
    by (auto simp: mm_stream_read_msm_frame_def Let_def split_beta bufs_ok_def nth_list_update frame_ok_def
        intro: exI [of _ "s_buf s"] split: option.split)
qed

definition posted :: "mm_camera_cmdcb_t set \<Rightarrow> mm_camera_cmd_thread_t \<Rightarrow> mm_camera_cmd_thread_t \<Rightarrow> bool" where
  "posted cs t t' \<longleftrightarrow> ct_cb t' = ct_cb t \<and> ct_running t' = ct_running t \<and> set (ct_cmd_queue t') \<subseteq> set (ct_cmd_queue t) \<union> cs"

lemma posted_refl [simp]: "posted cs t t"
  by (simp add: posted_def)

lemma post_runs:
  assumes "ct_cb t \<noteq> None"
  shows "runs (cmd_thread_post e c t w) (\<lambda>(t', w'). posted {c} t t')"
  using assms by (auto simp: cmd_thread_post_def Let_def split_beta posted_def)

lemma handle_rcvd_runs:
  assumes "s_ch_obj s \<noteq> None" and "s_is_bundled s \<longrightarrow> ct_cb (ch_cmd_thread ch) \<noteq> None" and "has_cb \<longrightarrow> ct_cb (s_cmd_thread s) \<noteq> None"
  shows "runs (mm_stream_handle_rcvd_buf e bi has_cb s ch w) (\<lambda>(s', ch', w'). \<exists>t u. s' = s\<lparr>s_cmd_thread := t\<rparr> \<and>
    ch' = ch\<lparr>ch_cmd_thread := u\<rparr> \<and> posted {MM_CAMERA_CMD_TYPE_DATA_CB bi} (s_cmd_thread s) t \<and> (has_cb \<or> t = s_cmd_thread s) \<and>
    posted {MM_CAMERA_CMD_TYPE_DATA_CB bi} (ch_cmd_thread ch) u \<and> (s_is_bundled s \<or> u = ch_cmd_thread ch))"
proof -
  let ?c = "MM_CAMERA_CMD_TYPE_DATA_CB bi"
  let ?Q = "\<lambda>(s', ch', w'). \<exists>t u. s' = s\<lparr>s_cmd_thread := t\<rparr> \<and> ch' = ch\<lparr>ch_cmd_thread := u\<rparr> \<and>
    posted {?c} (s_cmd_thread s) t \<and> (has_cb \<or> t = s_cmd_thread s) \<and> posted {?c} (ch_cmd_thread ch) u \<and> (s_is_bundled s \<or> u = ch_cmd_thread ch)"
  define first where "first = (if s_is_bundled s then
      (let (ok, w) = malloc e w
       in if ok then do {
            _ \<leftarrow> s_ch_obj s;
            (t, w) \<leftarrow> cmd_thread_post e ?c (ch_cmd_thread ch) w;
            Some (ch\<lparr>ch_cmd_thread := t\<rparr>, w)
          }
          else Some (ch, w))
    else Some (ch, w))"
  define second where "second = (\<lambda>(ch :: mm_channel_t) w. if has_cb then
       (let (ok, w) = malloc e w
        in if ok then do {
             (t, w) \<leftarrow> cmd_thread_post e ?c (s_cmd_thread s) w;
             Some (s\<lparr>s_cmd_thread := t\<rparr>, ch, w)
           }
           else Some (s, ch, w))
     else Some (s, ch, w))"
  have one: "runs first (\<lambda>(ch', w'). \<exists>u. ch' = ch\<lparr>ch_cmd_thread := u\<rparr> \<and> posted {?c} (ch_cmd_thread ch) u \<and> (s_is_bundled s \<or> u = ch_cmd_thread ch))"
  proof (cases "s_is_bundled s \<and> fst (malloc e w)")
    case True
    obtain t w1 where "cmd_thread_post e ?c (ch_cmd_thread ch) (snd (malloc e w)) = Some (t, w1)" "posted {?c} (ch_cmd_thread ch) t"
      using post_runs [of "ch_cmd_thread ch" e ?c "snd (malloc e w)"] assms(2) True by (auto simp: runs_iff)
    then show ?thesis using True assms(1) by (auto simp: first_def Let_def split_beta)
  next
    case False
    then show ?thesis by (auto simp: first_def Let_def split_beta intro: exI [of _ "ch_cmd_thread ch"])
  qed
  have two: "runs (second ch1 w1) (\<lambda>(s', ch', w'). \<exists>t. s' = s\<lparr>s_cmd_thread := t\<rparr> \<and> ch' = ch1 \<and> posted {?c} (s_cmd_thread s) t \<and>
      (has_cb \<or> t = s_cmd_thread s))" for ch1 w1
  proof (cases "has_cb \<and> fst (malloc e w1)")
    case True
    obtain t w2 where "cmd_thread_post e ?c (s_cmd_thread s) (snd (malloc e w1)) = Some (t, w2)" "posted {?c} (s_cmd_thread s) t"
      using post_runs [of "s_cmd_thread s" e ?c "snd (malloc e w1)"] assms(3) True by (auto simp: runs_iff)
    then show ?thesis using True by (auto simp: second_def Let_def split_beta)
  next
    case False
    then show ?thesis by (auto simp: second_def Let_def split_beta intro: exI [of _ "s_cmd_thread s"])
  qed
  have "runs (Option.bind first (\<lambda>(ch, w). second ch w)) ?Q"
    unfolding runs_bind by (rule runs_mono [OF one], clarify, rule runs_mono [OF two]) blast
  then show ?thesis by (simp only: mm_stream_handle_rcvd_buf_def first_def second_def)
qed

lemma stream_wf_status:
  assumes "stream_wf s" and "status_ok s" and "s_buf_status s = Some st" and "length st' = length st" and "bufs_ok (s\<lparr>s_buf := bs\<rparr>)"
    and "s_state s = MM_STREAM_STATE_ACTIVE"
    and "t = s_cmd_thread s \<or> stream_has_cb s \<and> thread_ok (unat (s_buf_num s)) t"
  shows "stream_wf (s\<lparr>s_buf := bs, s_buf_status := Some st', s_cmd_thread := t\<rparr>)"
proof -
  let ?s = "s\<lparr>s_buf := bs, s_buf_status := Some st', s_cmd_thread := t\<rparr>"
  have "bufs_ok ?s" using assms(5) by (simp add: bufs_ok_def)
  moreover have "status_ok ?s" using assms(2-4) by (simp add: status_ok_def)
  moreover have "stream_has_cb ?s = stream_has_cb s" "cbs_inf ?s = cbs_inf s" by (simp_all add: stream_has_cb_def cbs_inf_def)
  ultimately show ?thesis using assms(1,6,7) by (auto simp: stream_wf_def)
qed

lemma data_notify_runs:
  assumes "slot_inv k s" and "s_state s = MM_STREAM_STATE_ACTIVE" and "dq_ok e s w"
    and "s_is_bundled s \<longrightarrow> ct_cb (ch_cmd_thread ch) \<noteq> None"
  shows "runs (mm_stream_data_notify e s ch w) (\<lambda>(s', ch', w'). slot_inv k s' \<and> fit_like s s' \<and>
    (\<exists>u. ch' = ch\<lparr>ch_cmd_thread := u\<rparr> \<and> posted (Collect (own_frame s)) (ch_cmd_thread ch) u \<and> (s_is_bundled s \<or> u = ch_cmd_thread ch)))"
proof -
  have wf: "stream_wf s" "frames_ok s" using assms(1) by (auto simp: slot_inv_def)
  have p: "bufs_ok s" "status_ok s" "s_stream_info s \<noteq> None" "s_ch_obj s \<noteq> None" "unat (s_buf_num s) \<le> MM_CAMERA_MAX_NUM_FRAMES"
    and th: "stream_has_cb s \<longrightarrow> thread_ok (unat (s_buf_num s)) (s_cmd_thread s)"
    using wf assms(2) by (auto simp: stream_wf_def frames_ok_def configured_def buffered_def)
  obtain st i where i: "s_buf_status s = Some st" "i < length st" "vb_index (e_dqbuf e (w_trace w)) = of_nat i" "length st = unat (s_buf_num s)"
    using assms(3) p(2) by (auto simp: dq_ok_def status_ok_def)
  have i128: "i < 128" "i < unat (s_buf_num s)" using i(2,4) p(5) by simp_all
  let ?Q = "\<lambda>(s', ch', w'). slot_inv k s' \<and> fit_like s s' \<and> (\<exists>u. ch' = ch\<lparr>ch_cmd_thread := u\<rparr> \<and>
    posted (Collect (own_frame s)) (ch_cmd_thread ch) u \<and> (s_is_bundled s \<or> u = ch_cmd_thread ch))"
  have slot: "slot_inv k (s\<lparr>s_buf := bs, s_buf_status := Some st', s_cmd_thread := t\<rparr>) \<and> fit_like s (s\<lparr>s_buf := bs, s_buf_status := Some st', s_cmd_thread := t\<rparr>)"
    if "bufs_ok (s\<lparr>s_buf := bs\<rparr>)" "length st' = length st" "t = s_cmd_thread s \<or> stream_has_cb s \<and> thread_ok (unat (s_buf_num s)) t" for bs st' t
    using stream_wf_status [OF wf(1) p(2) i(1) that(2,1) assms(2) that(3)] assms(1) i(1) that(2)
    by (auto simp: slot_inv_def frames_ok_def fit_like_def stream_id_def)
  have same: "s_buf_status (s\<lparr>s_buf := bs\<rparr>) = s_buf_status s" "s_is_bundled (s\<lparr>s_buf := bs\<rparr>) = s_is_bundled s"
    "stream_has_cb (s\<lparr>s_buf := bs\<rparr>) = stream_has_cb s" for bs
    by (simp_all add: stream_has_cb_def)
  have rcvd: "runs (mm_stream_handle_rcvd_buf e bi (stream_has_cb s) (s\<lparr>s_buf := bs, s_buf_status := Some st'\<rparr>) ch w1) ?Q"
    if ok: "bufs_ok (s\<lparr>s_buf := bs\<rparr>)" "length st' = length st" and b: "frame_ok bi b" "b_stream_id b = s_my_hdl s" "b_buf_idx b = int i" for bi b bs st' w1
  proof -
    have own: "own_frame s (MM_CAMERA_CMD_TYPE_DATA_CB bi)"
      using b i(1,2) by (auto simp: own_frame_def idx_ok_def)
    have fc: "frame_cmd_ok (unat (s_buf_num s)) (MM_CAMERA_CMD_TYPE_DATA_CB bi)"
      using b i128(2) by (auto simp: frame_ok_def idx_ok_def)
    have t: "t = s_cmd_thread s \<or> stream_has_cb s \<and> thread_ok (unat (s_buf_num s)) t"
      if "posted {MM_CAMERA_CMD_TYPE_DATA_CB bi} (s_cmd_thread s) t" "stream_has_cb s \<or> t = s_cmd_thread s" for t
      using that th fc by (auto simp: posted_def thread_ok_def)
    have u: "posted (Collect (own_frame s)) (ch_cmd_thread ch) u" if "posted {MM_CAMERA_CMD_TYPE_DATA_CB bi} (ch_cmd_thread ch) u" for u
      using that own by (auto simp: posted_def)
    show ?thesis
      by (rule runs_mono [OF handle_rcvd_runs])
        (use p(4) assms(4) th slot [OF ok t] u in \<open>auto simp: thread_ok_def\<close>)
  qed
  have stay: "?Q (s\<lparr>s_buf := bs\<rparr>, ch, w')" if "bufs_ok (s\<lparr>s_buf := bs\<rparr>)" for bs w'
  proof -
    have "s\<lparr>s_buf := bs, s_buf_status := Some st, s_cmd_thread := s_cmd_thread s\<rparr> = s\<lparr>s_buf := bs\<rparr>" using i(1) by simp
    then show ?thesis using slot [OF that, of st "s_cmd_thread s"] by (auto intro: exI [of _ "ch_cmd_thread ch"])
  qed
  show ?thesis
    unfolding mm_stream_data_notify_def using assms(2)
    apply (simp add: runs_bind)
    apply (rule runs_mono [OF read_frame_runs [OF p(1,3) i(3) i128]])
    using stay rcvd i same by (auto simp: frame_ok_def nth_opt_def Let_def)
qed

section \<open>The thread of a stream\<close>

lemma stream_step_runs:
  assumes "slot_inv k s" and "ch_cam_obj ch \<noteq> None"
  shows "runs (thread_step (mm_stream_dispatch_app_data e ch) (s_cmd_thread s) (s, w))
    (\<lambda>(t', s', w'). slot_inv k (s'\<lparr>s_cmd_thread := t'\<rparr>) \<and> fit_like s (s'\<lparr>s_cmd_thread := t'\<rparr>))"
proof (cases "s_state s = MM_STREAM_STATE_ACTIVE \<and> stream_has_cb s")
  case False
  then have z: "ct_cmd_queue (s_cmd_thread s) = []" using assms(1) by (auto simp: slot_inv_def stream_wf_def zero_cmd_thread_def)
  have "s\<lparr>s_cmd_thread := s_cmd_thread s\<rparr> = s" by simp
  then show ?thesis using z assms(1) by (simp add: thread_step_def fit_like_def)
next
  case True
  let ?t = "s_cmd_thread s"
  define I where "I = (\<lambda>p :: mm_stream_t \<times> world. stream_core (fst p) = stream_core s \<and> status_ok (fst p) \<and> s_buf_cb (fst p) = s_buf_cb s)"
  have wf: "stream_wf s" using assms(1) by (simp add: slot_inv_def)
  have p: "thread_ok (unat (s_buf_num s)) ?t" "status_ok s" "s_ch_obj s \<noteq> None" "cbs_inf s" "length (s_buf_cb s) = MM_CAMERA_STREAM_BUF_CB_MAX"
    using wf True by (auto simp: stream_wf_def buffered_def)
  have step: "runs (mm_stream_dispatch_app_data e ch c q) I" if "c \<in> set (ct_cmd_queue ?t)" "I q" for c q
  proof -
    note core = stream_coreD [of "fst q" s]
    have "runs (mm_stream_dispatch_app_data e ch c q) (\<lambda>p'. stream_core (fst p') = stream_core (fst q) \<and> status_ok (fst p') \<and>
        s_buf_cb (fst p') = s_buf_cb (fst q))"
      by (rule dispatch_runs) (use that p assms(2) core in \<open>auto simp: I_def thread_ok_def cbs_inf_def\<close>)
    then show ?thesis by (rule runs_mono) (use that(2) in \<open>simp add: I_def\<close>)
  qed
  have ne: "no_exit (ct_cmd_queue ?t)" using p(1) by (auto simp: thread_ok_def)
  have keep: "slot_inv k (s'\<lparr>s_cmd_thread := t'\<rparr>) \<and> fit_like s (s'\<lparr>s_cmd_thread := t'\<rparr>)"
    if "I (s', w')" "ct_cb t' = ct_cb ?t" "set (ct_cmd_queue t') \<subseteq> set (ct_cmd_queue ?t)" "ct_running t' = ct_running ?t" for s' w' t'
  proof -
    have s': "stream_core s' = stream_core s" "status_ok s'" "s_buf_cb s' = s_buf_cb s" using that(1) by (auto simp: I_def)
    note c = stream_coreD [OF s'(1)]
    have wf': "stream_wf s'" by (rule stream_wf_core [OF wf s'])
    have t': "thread_ok (unat (s_buf_num s)) t'" using that(2-4) p(1) by (auto simp: thread_ok_def)
    have "stream_wf (s'\<lparr>s_cmd_thread := t'\<rparr>)" using wf' t' c True s'(3) by (simp add: stream_wf_def stream_has_cb_def)
    moreover have "stream_id s' = stream_id s" by (rule core_id [OF s'(1)])
    moreover have "map_option length (s_buf_status s') = map_option length (s_buf_status s)"
      using p(2) s'(2) c by (auto simp: status_ok_def)
    ultimately show ?thesis
      using assms(1) c True by (auto simp: slot_inv_def frames_ok_def fit_like_def stream_id_def)
  qed
  have "runs (thread_step (mm_stream_dispatch_app_data e ch) ?t (s, w)) (\<lambda>(t', s'). I s' \<and> ct_cb t' = ct_cb ?t \<and>
      set (ct_cmd_queue t') \<subseteq> set (ct_cmd_queue ?t) \<and> (no_exit (ct_cmd_queue ?t) \<longrightarrow> ct_running t' = ct_running ?t))"
    by (rule thread_step_runs) (use step p(2) in \<open>simp_all add: I_def\<close>)
  then show ?thesis
    by (rule runs_mono) (clarsimp, rule keep, use ne in auto)
qed

section \<open>The thread of the bundle\<close>

text \<open>A bundle that runs: what is queued, and what is still to be handled, belongs to the streams.\<close>

definition bundle_run :: "mm_channel_t \<Rightarrow> bool" where
  "bundle_run ch \<longleftrightarrow> superbuf_inv ch \<and> ct_cb (ch_cmd_thread ch) \<noteq> None \<and> (\<forall>c \<in> set (ct_cmd_queue (ch_cmd_thread ch)). cmd_fits ch c)"

lemma cmd_fits_cong: "(\<And>b. buf_fits (ch_streams ch) b \<Longrightarrow> buf_fits (ch_streams ch') b) \<Longrightarrow> cmd_fits ch c \<Longrightarrow> cmd_fits ch' c"
  by (cases c) auto

lemma bundle_run_upd:
  assumes "bundle_run ch" and "\<And>b. buf_fits (ch_streams ch) b \<Longrightarrow> buf_fits (ch_streams ch') b"
    and "ch_bundle ch' = ch_bundle ch" and "ch_cam_obj ch' = ch_cam_obj ch" and "ct_cb (ch_cb_thread ch') = ct_cb (ch_cb_thread ch)"
    and "ct_cb (ch_cmd_thread ch') = ct_cb (ch_cmd_thread ch)"
    and "\<forall>c \<in> set (ct_cmd_queue (ch_cmd_thread ch')). c \<in> set (ct_cmd_queue (ch_cmd_thread ch)) \<or> cmd_fits ch' c"
  shows "bundle_run ch'"
proof -
  have "superbuf_inv ch'" using assms(1-5) by (auto simp: bundle_run_def superbuf_inv_def bufs_fit_def)
  moreover have "cmd_fits ch' c" if "c \<in> set (ct_cmd_queue (ch_cmd_thread ch'))" for c
    using assms(1,7) cmd_fits_cong [OF assms(2)] that unfolding bundle_run_def by blast
  ultimately show ?thesis using assms(1,6) by (simp add: bundle_run_def)
qed

lemma own_fits:
  assumes "chan_base ch" and "i < MAX_STREAM_NUM_IN_BUNDLE" and "own_frame (ch_streams ch ! i) c"
    and "slot_state ch i \<noteq> MM_STREAM_STATE_NOTUSED"
  shows "cmd_fits ch c"
proof -
  let ?s = "ch_streams ch ! i"
  obtain bi b st where c: "c = MM_CAMERA_CMD_TYPE_DATA_CB bi" "frame_ok bi b" "b_stream_id b = s_my_hdl ?s"
    "s_buf_status ?s = Some st" "idx_ok (length st) b"
    using assms(3) by (auto simp: own_frame_def)
  have "s = ?s" if s: "s \<in> set (ch_streams ch)" "s_state s = MM_STREAM_STATE_ACTIVE" "s_my_hdl s = s_my_hdl ?s" for s
  proof -
    obtain j where j: "j < 4" "s = ch_streams ch ! j" using s(1) assms(1) by (auto simp: chan_base_def in_set_conv_nth)
    have "mm_channel_util_get_stream_by_handler ch (s_my_hdl (ch_streams ch ! j)) = Some j"
      by (rule lookup_slot [OF assms(1)]) (use j s(2) in auto)
    moreover have "s_my_hdl (ch_streams ch ! j) = s_my_hdl ?s" using s(3) unfolding j(2) .
    ultimately have "j = i" using lookup_slot [OF assms(1,2,4)] by (metis option.inject)
    then show ?thesis using j(2) by blast
  qed
  then have "buf_fits (ch_streams ch) b" using c(3-5) by (auto simp: buf_fits_def)
  then show ?thesis using c(1,2) by auto
qed

lemma bundle_step_runs:
  assumes "chan_base ch" and "bundle_run ch"
  shows "runs (thread_step (mm_channel_process_stream_buf e) (ch_cmd_thread ch) (ch, w))
    (\<lambda>(t', ch', w'). chan_keep ch ch' \<and> bundle_run (ch'\<lparr>ch_cmd_thread := t'\<rparr>) \<and> chan_core ch' = chan_core ch)"
proof -
  define I where "I = (\<lambda>(ch', w' :: world). superbuf_inv ch' \<and> chan_core ch' = chan_core ch \<and> counts_step ch ch')"
  have fit: "cmd_fits ch' c" if "counts_step ch ch'" "c \<in> set (ct_cmd_queue (ch_cmd_thread ch))" for ch' c
    by (rule cmd_fits_cong [of ch]) (use that assms(2) in \<open>auto simp: bundle_run_def dest: counts_fits\<close>)
  have step: "runs (mm_channel_process_stream_buf e c p) I" if c: "c \<in> set (ct_cmd_queue (ch_cmd_thread ch))" and i: "I p" for c p
  proof -
    obtain ch1 w1 where p: "p = (ch1, w1)" "superbuf_inv ch1" "chan_core ch1 = chan_core ch" "counts_step ch ch1"
      using i by (cases p) (auto simp: I_def)
    from process_runs [OF p(2) fit [OF p(4) c], of e w1] show ?thesis
      unfolding p(1) by (rule runs_mono) (use p(3,4) in \<open>auto simp: I_def elim: list_all2_counts_trans\<close>)
  qed
  have "runs (thread_step (mm_channel_process_stream_buf e) (ch_cmd_thread ch) (ch, w)) (\<lambda>(t', s'). I s' \<and> ct_cb t' = ct_cb (ch_cmd_thread ch) \<and>
      set (ct_cmd_queue t') \<subseteq> set (ct_cmd_queue (ch_cmd_thread ch)) \<and> (no_exit (ct_cmd_queue (ch_cmd_thread ch)) \<longrightarrow> ct_running t' = ct_running (ch_cmd_thread ch)))"
    by (rule thread_step_runs) (use step assms(2) in \<open>auto simp: I_def bundle_run_def list_all2_refl\<close>)
  then show ?thesis
  proof (rule runs_mono, clarify)
    fix t' :: mm_camera_cmd_thread_t and ch' w'
    assume i: "I (ch', w')" and t: "ct_cb t' = ct_cb (ch_cmd_thread ch)" "set (ct_cmd_queue t') \<subseteq> set (ct_cmd_queue (ch_cmd_thread ch))"
    have i': "superbuf_inv ch'" "chan_core ch' = chan_core ch" "counts_step ch ch'" using i by (auto simp: I_def)
    have "superbuf_inv (ch'\<lparr>ch_cmd_thread := t'\<rparr>)" using i'(1) by (simp add: superbuf_inv_def bufs_fit_def)
    moreover have "cmd_fits (ch'\<lparr>ch_cmd_thread := t'\<rparr>) c" if "c \<in> set (ct_cmd_queue t')" for c
      by (rule cmd_fits_cong [OF _ fit [OF i'(3)]]) (use that t(2) in auto)
    ultimately show "chan_keep ch ch' \<and> bundle_run (ch'\<lparr>ch_cmd_thread := t'\<rparr>) \<and> chan_core ch' = chan_core ch"
      using counts_keep [OF assms(1) i'(2,3)] i'(2) t(1) assms(2) by (simp add: bundle_run_def)
  qed
qed

end
