(* ===== verification/Channel_Events.thy ===== *)
theory Channel_Events
  imports Channel_Threads
begin

text \<open>
  The invariant of a channel, and the events of its state machine: in every state each event
  returns, releases the lock and keeps the invariant.
\<close>

section \<open>The invariant\<close>

definition rest_states :: "mm_stream_state_type_t set" where
  "rest_states = {MM_STREAM_STATE_NOTUSED, MM_STREAM_STATE_ACQUIRED, MM_STREAM_STATE_CFG}"

definition run_states :: "mm_stream_state_type_t set" where
  "run_states = {MM_STREAM_STATE_NOTUSED, MM_STREAM_STATE_ACTIVE}"

definition slots_in :: "mm_stream_state_type_t set \<Rightarrow> mm_channel_t \<Rightarrow> bool" where
  "slots_in S ch \<longleftrightarrow> length (ch_streams ch) = MAX_STREAM_NUM_IN_BUNDLE \<and> ch_cam_obj ch \<noteq> None \<and>
     (\<forall>i < MAX_STREAM_NUM_IN_BUNDLE. slot_inv i (ch_streams ch ! i) \<and> slot_state ch i \<in> S)"

definition bundle_idle :: "mm_channel_t \<Rightarrow> bool" where
  "bundle_idle ch \<longleftrightarrow> ct_cmd_queue (ch_cmd_thread ch) = [] \<and> q_match_cnt (ch_queue ch) = 0 \<and>
     length (q_bundled_streams (ch_queue ch)) = MAX_STREAM_NUM_IN_BUNDLE"

text \<open>
  Between a stop and the next start no stream is buffered and no frame is queued. While the channel
  is active all its streams are, and either the bundle runs or no stream belongs to it.
\<close>

definition chan_inv :: "mm_channel_t \<Rightarrow> bool" where
  "chan_inv ch \<longleftrightarrow>
     (case ch_state ch of
        MM_CHANNEL_STATE_NOTUSED \<Rightarrow> slots_in rest_states ch \<and> bundle_idle ch
      | MM_CHANNEL_STATE_STOPPED \<Rightarrow> slots_in rest_states ch \<and> poll_live (ch_poll_thread ch) \<and> bundle_idle ch
      | MM_CHANNEL_STATE_ACTIVE \<Rightarrow> slots_in run_states ch \<and> poll_live (ch_poll_thread ch) \<and>
          (if bd_is_active (ch_bundle ch) then bundle_run ch
           else bundle_idle ch \<and> (\<forall>i < MAX_STREAM_NUM_IN_BUNDLE. \<not> s_is_bundled (ch_streams ch ! i)))
      | _ \<Rightarrow> False)"

lemma run_fields [simp]:
  "bundle_run (ch\<lparr>ch_state := x\<rparr>) = bundle_run ch" "bundle_run (ch\<lparr>ch_lock := l\<rparr>) = bundle_run ch"
proof -
  have "cmd_fits (ch\<lparr>ch_state := x\<rparr>) c = cmd_fits ch c" "cmd_fits (ch\<lparr>ch_lock := l\<rparr>) c = cmd_fits ch c" for c
    by (cases c; simp)+
  then show "bundle_run (ch\<lparr>ch_state := x\<rparr>) = bundle_run ch" "bundle_run (ch\<lparr>ch_lock := l\<rparr>) = bundle_run ch"
    by (simp_all add: bundle_run_def superbuf_inv_def bufs_fit_def)
qed

lemma slots_in_base: "slots_in S ch \<and> poll_live (ch_poll_thread ch) \<longleftrightarrow> chan_base ch \<and> (\<forall>i < MAX_STREAM_NUM_IN_BUNDLE. slot_state ch i \<in> S)"
  by (auto simp: slots_in_def chan_base_def)

text \<open>A channel stays with its camera and keeps its handle.\<close>

definition kept :: "mm_channel_t \<Rightarrow> mm_channel_t \<Rightarrow> bool" where
  "kept ch ch' \<longleftrightarrow> ch_my_hdl ch' = ch_my_hdl ch \<and> ch_cam_obj ch' = ch_cam_obj ch"

lemma kept_simps [simp]:
  "kept ch ch" "kept ch (ch'\<lparr>ch_state := x\<rparr>) = kept ch ch'" "kept ch (ch'\<lparr>ch_lock := l\<rparr>) = kept ch ch'"
  "kept ch (ch'\<lparr>ch_streams := ss\<rparr>) = kept ch ch'" "kept ch (ch'\<lparr>ch_cmd_thread := t\<rparr>) = kept ch ch'"
  "kept ch (ch'\<lparr>ch_cb_thread := t\<rparr>) = kept ch ch'" "kept ch (ch'\<lparr>ch_poll_thread := pt\<rparr>) = kept ch ch'"
  by (simp_all add: kept_def)

lemma kept_env: "chan_env ch' = chan_env ch \<Longrightarrow> kept ch ch'"
  using chan_envD(1,7) [of ch' ch] by (simp add: kept_def)

lemma bundle_idle_env: "chan_env ch' = chan_env ch \<Longrightarrow> bundle_idle ch' = bundle_idle ch"
  using chan_envD(4,5) [of ch' ch] by (simp add: bundle_idle_def)

text \<open>What the surroundings promise: the allocators and the driver of the client, an answer to every
  message for the server, and room in the pipe of the poll thread.\<close>

definition env_ok :: "env \<Rightarrow> bool" where
  "env_ok e \<longleftrightarrow> alloc_ok e \<and> mem_ok e \<and> (\<forall>tr. e_event e tr \<noteq> None) \<and> (\<forall>tr fd. 1 \<le> e_rc e tr (Sys_write fd))"

section \<open>Events of one stream\<close>

definition parm_evt :: "mm_stream_evt_type_t \<Rightarrow> bool" where
  "parm_evt evt \<longleftrightarrow> (\<exists>p. evt = MM_STREAM_EVT_SET_PARM (Some p) \<or> evt = MM_STREAM_EVT_GET_PARM (Some p)) \<or>
     (\<exists>a. evt = MM_STREAM_EVT_DO_ACTION (Some a))"

lemma parm_evt_runs:
  assumes "parm_evt evt"
  shows "runs (stream_hdl_evt e h evt ch w) (\<lambda>(rc, ch', w'). ch' = ch)"
proof -
  have same: "runs (mm_stream_fsm_fn e evt s ch w) (\<lambda>(rc, s', ch', w'). s' = s \<and> ch' = ch)" for s
    using assms by (auto simp: parm_evt_def stream_fsm_defs split_beta split: mm_stream_state_type_t.split)
  have "i < length (ch_streams ch)" if "mm_channel_util_get_stream_by_handler ch h = Some i" for i
    using that by (auto simp: mm_channel_util_get_stream_by_handler_def dest: find_idxD)
  then show ?thesis
    by (auto simp: stream_hdl_evt_def stream_evt_def runs_bind split: option.split intro!: runs_mono [OF same])
qed

lemma rest_evt_runs:
  assumes "chan_base ch" and "\<forall>i < MAX_STREAM_NUM_IN_BUNDLE. slot_state ch i \<in> rest_states" and "env_ok e"
    and "evt = MM_STREAM_EVT_RELEASE \<or> (\<exists>c. evt = MM_STREAM_EVT_SET_FMT (Some c) \<and> config_ok c)"
  shows "runs (stream_hdl_evt e h evt ch w) (\<lambda>(rc, ch', w'). chan_env ch' = chan_env ch \<and> chan_base ch' \<and>
    (\<forall>i < MAX_STREAM_NUM_IN_BUNDLE. slot_state ch' i \<in> rest_states))"
proof (cases "mm_channel_util_get_stream_by_handler ch h")
  case None
  then show ?thesis using assms(1,2) by (simp add: stream_hdl_evt_def)
next
  case (Some i)
  then have i: "i < 4" using assms(1) by (auto simp: mm_channel_util_get_stream_by_handler_def chan_base_def dest: find_idxD)
  have st: "slot_state ch i \<in> rest_states" using assms(2) i by simp
  then have nx: "stream_next (slot_state ch i) evt rc \<in> rest_states" for rc using assms(4) by (auto simp: rest_states_def)
  have "runs (stream_evt e i evt ch w) (\<lambda>(rc, ch', w'). slot_step i ch (stream_next (slot_state ch i) evt rc) ch')"
    by (rule stream_evt_runs [OF assms(1)]) (use i st assms(3,4) in \<open>auto simp: env_ok_def rest_states_def\<close>)
  then show ?thesis
    unfolding stream_hdl_evt_def Some option.case
  proof (rule runs_mono, clarify)
    fix rc ch' w' assume "slot_step i ch (stream_next (slot_state ch i) evt rc) ch'"
    then show "chan_env ch' = chan_env ch \<and> chan_base ch' \<and> (\<forall>k < MAX_STREAM_NUM_IN_BUNDLE. slot_state ch' k \<in> rest_states)"
      using nx [of rc] assms(1,2) i by (auto simp: slot_step_def nth_list_update chan_base_def)
  qed
qed

section \<open>Mapping buffers\<close>

lemma sendmsg_runs:
  assumes "env_ok e"
  shows "runs (mm_camera_util_sendmsg e cam msg fd w) (\<lambda>_. True)"
proof -
  have "runs (e_event e tr) (\<lambda>_. True)" for tr using assms by (auto simp: env_ok_def runs_iff)
  then show ?thesis by (simp add: mm_camera_util_sendmsg_def mm_camera_util_wait_for_event_def split_beta)
qed

lemma map_runs:
  assumes "env_ok e"
  shows "runs (mm_channel_map_stream_buf e p ch w) (\<lambda>_. True)" and "runs (mm_channel_unmap_stream_buf e u ch w) (\<lambda>_. True)"
  using sendmsg_runs [OF assms]
  by (auto simp: mm_channel_map_stream_buf_def mm_channel_unmap_stream_buf_def mm_stream_map_buf_def mm_stream_unmap_buf_def split: option.split)

section \<open>Deleting the channel\<close>

lemma release_runs_chan:
  assumes "env_ok e" and "poll_live (ch_poll_thread ch)"
  shows "runs (mm_channel_release e ch w) (\<lambda>(ch', w'). \<exists>pt. ch' = ch\<lparr>ch_poll_thread := pt, ch_state := MM_CHANNEL_STATE_NOTUSED\<rparr>)"
proof -
  have "\<not> e_rc e tr (Sys_write fd) < 1" for fd tr using assms(1) by (simp add: env_ok_def not_less)
  then show ?thesis
    using assms(2) by (auto intro: exI [of _ "ch_poll_thread ch"] simp: mm_channel_release_def mm_camera_poll_thread_release_def mm_camera_poll_sig_def poll_live_def
        mm_camera_poll_proc_pipe_def mm_camera_poll_sig_done_def mm_camera_poll_set_state_def Let_def split_beta)
qed

section \<open>Requests\<close>

lemma post_cmd_runs:
  assumes "bundle_run ch" and "cmd_fits ch c"
  shows "runs (post_cmd e c ch w) (\<lambda>(rc, ch', w'). (\<exists>t. ch' = ch\<lparr>ch_cmd_thread := t\<rparr>) \<and> bundle_run ch')"
proof -
  have up: "bundle_run (ch\<lparr>ch_cmd_thread := t\<rparr>)" if "posted {c} (ch_cmd_thread ch) t" for t
  proof (rule bundle_run_upd [OF assms(1)])
    have "cmd_fits (ch\<lparr>ch_cmd_thread := t\<rparr>) c" by (rule cmd_fits_cong [OF _ assms(2)]) simp
    then show "\<forall>d \<in> set (ct_cmd_queue (ch_cmd_thread (ch\<lparr>ch_cmd_thread := t\<rparr>))). d \<in> set (ct_cmd_queue (ch_cmd_thread ch)) \<or> cmd_fits (ch\<lparr>ch_cmd_thread := t\<rparr>) d"
      using that by (auto simp: posted_def)
  qed (use that in \<open>auto simp: posted_def\<close>)
  have "ct_cb (ch_cmd_thread ch) \<noteq> None" using assms(1) by (simp add: bundle_run_def)
  note post = post_runs [OF this, of e c]
  show ?thesis
    unfolding post_cmd_def
    using assms(1) by (auto simp: split_beta runs_bind intro!: runs_mono [OF post] intro: up exI [of _ "ch_cmd_thread ch"])
qed

section \<open>Adding a stream\<close>

lemma slot_inv_zero [simp]: "slot_inv i zero_stream"
  using stream_wf_zero by (simp add: slot_inv_def frames_ok_def zero_stream_def)

definition fresh_stream :: "uint32_t \<Rightarrow> mm_channel_t \<Rightarrow> mm_stream_t" where
  "fresh_stream h ch = zero_stream\<lparr>s_my_hdl := h, s_ch_obj := Some (ch_my_hdl ch), s_state := MM_STREAM_STATE_INITED\<rparr>"

lemma fresh_slot:
  assumes "h = fst (mm_camera_util_generate_handler (of_nat i) w)"
  shows "slot_inv i (fresh_stream h ch)"
proof -
  have "stream_wf (fresh_stream h ch)"
    using stream_wf_zero by (simp add: fresh_stream_def stream_wf_def configured_def buffered_def cbs_inf_def zero_stream_def stream_has_cb_def)
  then show ?thesis
    using assms hdl.gen_nonzero [of "of_nat i" w] hdl.idx_gen [of "of_nat i" w]
    by (simp add: slot_inv_def frames_ok_def fresh_stream_def)
qed

text \<open>
  The first free slot gets a new handle and is acquired; when that fails it is free again, and the
  result is 0, as when no slot is free.
\<close>

definition added :: "mm_channel_t \<Rightarrow> world \<Rightarrow> uint32_t \<Rightarrow> mm_channel_t \<Rightarrow> bool" where
  "added ch w h ch' \<longleftrightarrow>
     (case find_idx (\<lambda>s. s_state s = MM_STREAM_STATE_NOTUSED) (ch_streams ch) of
        None \<Rightarrow> h = 0 \<and> ch' = ch
      | Some i \<Rightarrow> (\<exists>pt s. ch' = ch\<lparr>ch_poll_thread := pt, ch_streams := (ch_streams ch)[i := s]\<rparr> \<and>
          (if h = 0 then s = zero_stream
           else h = fst (mm_camera_util_generate_handler (of_nat i) w) \<and> s_my_hdl s = h \<and> \<not> s_is_bundled s \<and>
             s_state s = MM_STREAM_STATE_ACQUIRED)))"

lemma add_stream_runs:
  assumes "chan_base ch" and "env_ok e" and "chan_live ch w"
  shows "runs (mm_channel_add_stream e ch w) (\<lambda>(h, ch', w'). chan_base ch' \<and> added ch w h ch')"
proof (cases "find_idx (\<lambda>s. s_state s = MM_STREAM_STATE_NOTUSED) (ch_streams ch)")
  case None
  then show ?thesis using assms(1) by (simp add: mm_channel_add_stream_def added_def)
next
  case (Some i)
  have len: "length (ch_streams ch) = 4" and slots: "\<forall>k < 4. slot_inv k (ch_streams ch ! k)" using assms(1) by (auto simp: chan_base_def)
  have i: "i < 4" using find_idxD [OF Some] len by simp
  define h where "h = fst (mm_camera_util_generate_handler (of_nat i) w)"
  define w1 where "w1 = snd (mm_camera_util_generate_handler (of_nat i) w)"
  define c where "c = ch\<lparr>ch_streams := (ch_streams ch)[i := fresh_stream h ch]\<rparr>"
  have h: "h \<noteq> 0" using hdl.gen_nonzero [of "of_nat i" w] by (simp add: h_def)
  have base: "chan_base c"
    using assms(1) fresh_slot [OF h_def] i by (auto simp: c_def chan_base_def nth_list_update)
  have ci: "ch_streams c ! i = fresh_stream h ch" using i len by (simp add: c_def)
  have "chan_live c w1" using assms(3) by (auto simp: chan_live_def c_def w1_def mm_camera_util_generate_handler_def mm_camera_util_get_dev_name_def Let_def)
  then have "runs (stream_evt e i MM_STREAM_EVT_ACQUIRE c w1) (\<lambda>(rc, ch', w'). slot_step i c (stream_next (slot_state c i) MM_STREAM_EVT_ACQUIRE rc) ch')"
    by (intro stream_evt_runs [OF base]) (use i assms(2) in \<open>auto simp: env_ok_def\<close>)
  then have acq: "runs (stream_evt e i MM_STREAM_EVT_ACQUIRE c w1) (\<lambda>(rc, ch', w'). chan_base ch' \<and>
      (\<exists>pt s. ch' = c\<lparr>ch_poll_thread := pt, ch_streams := (ch_streams ch)[i := s]\<rparr> \<and>
         (rc = 0 \<longrightarrow> s_state s = MM_STREAM_STATE_ACQUIRED \<and> s_my_hdl s = h \<and> \<not> s_is_bundled s)))"
  proof (rule runs_mono, clarify)
    fix rc ch' w' assume st: "slot_step i c (stream_next (slot_state c i) MM_STREAM_EVT_ACQUIRE rc) ch'"
    then obtain pt s where s: "ch' = c\<lparr>ch_poll_thread := pt, ch_streams := (ch_streams c)[i := s]\<rparr>" "chan_base ch'"
      "s_state s = stream_next (slot_state c i) MM_STREAM_EVT_ACQUIRE rc"
      "stream_id s = stream_id (ch_streams c ! i) \<or> s_state s = MM_STREAM_STATE_NOTUSED"
      by (auto simp: slot_step_def)
    have "rc = 0 \<longrightarrow> s_state s = MM_STREAM_STATE_ACQUIRED \<and> s_my_hdl s = h \<and> \<not> s_is_bundled s"
      using s(3,4) unfolding ci by (auto simp: stream_id_def fresh_stream_def zero_stream_def)
    moreover have "ch' = c\<lparr>ch_poll_thread := pt, ch_streams := (ch_streams ch)[i := s]\<rparr>" using s(1) by (simp add: c_def)
    ultimately show "chan_base ch' \<and> (\<exists>pt s. ch' = c\<lparr>ch_poll_thread := pt, ch_streams := (ch_streams ch)[i := s]\<rparr> \<and>
         (rc = 0 \<longrightarrow> s_state s = MM_STREAM_STATE_ACQUIRED \<and> s_my_hdl s = h \<and> \<not> s_is_bundled s))"
      using s(2) by blast
  qed
  have body: "mm_channel_add_stream e ch w = Option.bind (stream_evt e i MM_STREAM_EVT_ACQUIRE c w1) (\<lambda>(rc, ch, w).
      if rc = 0 then Some (h, ch, w) else Some (0, ch\<lparr>ch_streams := (ch_streams ch)[i := zero_stream]\<rparr>, w))"
    unfolding h_def w1_def c_def fresh_stream_def mm_channel_add_stream_def using Some by (simp add: split_beta Let_def)
  show ?thesis
    unfolding body runs_bind
  proof (rule runs_mono [OF acq], clarify)
    fix rc ch' w' pt s
    let ?c = "c\<lparr>ch_poll_thread := pt, ch_streams := (ch_streams ch)[i := s]\<rparr>"
    assume b: "chan_base ?c" and s: "rc = 0 \<longrightarrow> s_state s = MM_STREAM_STATE_ACQUIRED \<and> s_my_hdl s = h \<and> \<not> s_is_bundled s"
    have eq: "?c = ch\<lparr>ch_poll_thread := pt, ch_streams := (ch_streams ch)[i := s]\<rparr>" by (simp add: c_def)
    have z: "chan_base (?c\<lparr>ch_streams := (ch_streams ?c)[i := zero_stream]\<rparr>)"
      using b slots i by (auto simp: chan_base_def nth_list_update)
    have "added ch w h ?c" if "rc = 0" using Some s h that unfolding eq by (auto simp: added_def h_def)
    moreover have "added ch w 0 (?c\<lparr>ch_streams := (ch_streams ?c)[i := zero_stream]\<rparr>)"
      using Some unfolding eq by (auto simp: added_def)
    ultimately show "runs (if rc = 0 then Some (h, ?c, w') else Some (0, ?c\<lparr>ch_streams := (ch_streams ?c)[i := zero_stream]\<rparr>, w'))
        (\<lambda>(h, ch', w'). chan_base ch' \<and> added ch w h ch')"
      using b z by simp
  qed
qed

section \<open>Bundle information\<close>

definition bundle_info :: "uint32_t \<Rightarrow> uint32_t list \<Rightarrow> cam_bundle_config_t" where
  "bundle_info h ids = \<lparr>bundle_id = h, num_of_streams = of_nat (length ids),
     stream_ids = ids @ replicate (MAX_STREAM_NUM_IN_BUNDLE - length ids) 0\<rparr>"

abbreviation image_slot :: "mm_channel_t \<Rightarrow> nat \<Rightarrow> bool" where
  "image_slot ch i \<equiv> slot_state ch i \<noteq> MM_STREAM_STATE_NOTUSED \<and> \<not> is_meta ch i"

lemma bundle_loop:
  assumes "chan_base ch" and "\<forall>i \<in> set (used ch). s_stream_info (ch_streams ch ! i) \<noteq> None"
    and "\<forall>i \<in> set is. i < MAX_STREAM_NUM_IN_BUNDLE" and "length ids + length is \<le> MAX_STREAM_NUM_IN_BUNDLE"
  shows "bundle_info_loop ch is (bundle_info h ids) =
    Some (0, bundle_info h (ids @ map (\<lambda>i. s_server_stream_id (ch_streams ch ! i)) (filter (image_slot ch) is)))"
  using assms(3,4)
proof (induction "is" arbitrary: ids)
  case (Cons i js)
  let ?s = "ch_streams ch ! i"
  have i: "i < 4" "nth_opt (ch_streams ch) (int i) = Some ?s" using Cons.prems(1) assms(1) by (auto simp: nth_opt_def chan_base_def)
  have IH: "bundle_info_loop ch js (bundle_info h ids') = Some (0, bundle_info h (ids' @ map (\<lambda>i. s_server_stream_id (ch_streams ch ! i))
      (filter (image_slot ch) js)))" if "length ids' + length js \<le> 4" for ids'
    using Cons.IH [of ids'] Cons.prems(1) that by simp
  show ?case
  proof (cases "slot_state ch i = MM_STREAM_STATE_NOTUSED")
    case True
    then show ?thesis using slot_hdl [OF assms(1), of i] i IH [of ids] Cons.prems(2) by simp
  next
    case False
    then obtain si where si: "s_stream_info ?s = Some si" using assms(2) i(1) by auto
    have hd: "0 < s_my_hdl ?s" "mm_channel_util_get_stream_by_handler ch (s_my_hdl ?s) = Some i"
      using slot_hdl [OF assms(1), of i] lookup_slot [OF assms(1), of i] False i(1) by auto
    have n: "unat (of_nat (length ids) :: uint8_t) = length ids" "length ids < 4"
      using Cons.prems(2) by (auto simp: unat_of_nat)
    have "(bundle_info h ids)\<lparr>stream_ids := (stream_ids (bundle_info h ids))[unat (num_of_streams (bundle_info h ids)) := x],
        num_of_streams := num_of_streams (bundle_info h ids) + 1\<rparr> = bundle_info h (ids @ [x])" for x
      using n by (auto simp: bundle_info_def list_update_append unat_of_nat Suc_diff_Suc [symmetric])
    then show ?thesis
      using False si hd i IH [of ids] IH [of "ids @ [s_server_stream_id ?s]"] Cons.prems(2) by (simp add: is_meta_def)
  qed
qed simp

lemma get_bundle_info:
  assumes "chan_base ch" and "\<forall>i \<in> set (used ch). s_stream_info (ch_streams ch ! i) \<noteq> None"
  shows "mm_channel_get_bundle_info ch =
    Some (0, bundle_info (ch_my_hdl ch) (map (\<lambda>i. s_server_stream_id (ch_streams ch ! i)) (filter (image_slot ch) [0..<MAX_STREAM_NUM_IN_BUNDLE])))"
proof -
  have "zero_bundle_config\<lparr>bundle_id := ch_my_hdl ch\<rparr> = bundle_info (ch_my_hdl ch) []"
    by (simp add: zero_bundle_config_def bundle_info_def)
  then show ?thesis
    using bundle_loop [OF assms, of "[0..<4]" "[]"] by (simp add: mm_channel_get_bundle_info_def)
qed

section \<open>Start\<close>

lemma start_bundle_run:
  assumes "bundle_idle ch" and "ch_cam_obj ch \<noteq> None" and "length objs \<le> MAX_STREAM_NUM_IN_BUNDLE"
  shows "bd_super_buf_notify_cb (ch_bundle ch) \<noteq> None \<Longrightarrow> bd_is_active (ch_bundle (start_bundle objs ch)) \<and> bundle_run (start_bundle objs ch)"
    and "bundle_idle (start_bundle objs ch)"
proof -
  have l: "unat (of_nat (length objs) :: uint8_t) = length objs" using assms(3) by (simp add: unat_of_nat)
  then show "bd_super_buf_notify_cb (ch_bundle ch) \<noteq> None \<Longrightarrow> bd_is_active (ch_bundle (start_bundle objs ch)) \<and> bundle_run (start_bundle objs ch)"
    using assms by (auto simp: start_bundle_def bundle_streams_def bundle_idle_def bundle_run_def superbuf_inv_def queue_ok_def queue_shape_def
        bufs_fit_def queue_bufs_def mm_channel_superbuf_queue_init_def mm_camera_cmd_thread_launch_def Let_def)
  show "bundle_idle (start_bundle objs ch)"
    using assms by (auto simp: start_bundle_def bundle_streams_def bundle_idle_def mm_channel_superbuf_queue_init_def
        mm_camera_cmd_thread_launch_def Let_def)
qed

lemma start_bundle_env:
  assumes "chan_env ch' = chan_env (start_bundle objs ch)" and "bundle_idle ch" and "ch_cam_obj ch \<noteq> None"
    and "length objs \<le> MAX_STREAM_NUM_IN_BUNDLE" and "bd_super_buf_notify_cb (ch_bundle ch) \<noteq> None"
  shows "bd_is_active (ch_bundle ch')" and "bundle_run ch'"
proof -
  let ?b = "start_bundle objs ch"
  note r = start_bundle_run [OF assms(2-4)]
  note d = chan_envD [OF assms(1)]
  have q: "q_que (ch_queue ?b) = []" using assms(5)
    by (auto simp: start_bundle_def bundle_streams_def mm_channel_superbuf_queue_init_def Let_def)
  show "bd_is_active (ch_bundle ch')" using r(1) [OF assms(5)] d(4) by simp
  show "bundle_run ch'"
    using r d(4-7) q assms(5) by (simp add: bundle_run_def superbuf_inv_def bundle_idle_def bufs_fit_def queue_bufs_def)
qed

lemma length_start_order: "length (start_order (objs, m)) = length objs"
  by (simp add: start_order_def swap_def)

lemma length_used: "length (used ch) \<le> MAX_STREAM_NUM_IN_BUNDLE"
  using length_filter_le [of _ "[0..<4]"] by (simp add: used_def)

lemma start_event_runs:
  assumes "chan_inv ch" and "ch_state ch = MM_CHANNEL_STATE_STOPPED" and "env_ok e"
    and "\<forall>k < MAX_STREAM_NUM_IN_BUNDLE. slot_state ch k \<in> {MM_STREAM_STATE_NOTUSED, MM_STREAM_STATE_CFG}"
    and "\<not> bd_is_active (ch_bundle ch)"
    and "bd_super_buf_notify_cb (ch_bundle ch) = None \<longrightarrow> (\<forall>k < MAX_STREAM_NUM_IN_BUNDLE. \<not> s_is_bundled (ch_streams ch ! k))"
  shows "runs (mm_channel_start e ch w) (\<lambda>(rc, ch', w'). kept ch ch' \<and> ch_state ch' = ch_state ch \<and>
    chan_inv (if rc = 0 then ch'\<lparr>ch_state := MM_CHANNEL_STATE_ACTIVE\<rparr> else ch'))"
proof -
  have b: "chan_base ch" "bundle_idle ch" "ch_cam_obj ch \<noteq> None" using assms(1,2) by (auto simp: chan_inv_def slots_in_def chan_base_def)
  show ?thesis
  proof (rule runs_mono [OF channel_start_runs [OF b(1)]], use assms(3) in \<open>simp add: env_ok_def\<close>, use assms(3) in \<open>simp add: env_ok_def\<close>, rule assms(4), clarify)
    fix rc ch' w' m
    let ?b = "start_bundle (start_order (used ch, m)) ch"
    assume l: "chan_like ?b ch'" and s: "settled ch (if rc = 0 then MM_STREAM_STATE_ACTIVE else MM_STREAM_STATE_CFG) ch'"
    have len: "length (start_order (used ch, m)) \<le> 4" using length_start_order length_used by simp
    have base: "chan_base ch'" and env: "chan_env ch' = chan_env ?b" using l by (auto simp: chan_like_def)
    have st: "ch_state ch' = MM_CHANNEL_STATE_STOPPED" using chan_envD(2) [OF env] start_bundle_same assms(2) by simp
    have idle: "bundle_idle ch'" using bundle_idle_env [OF env] start_bundle_run(2) [OF b(2,3) len] by simp
    have slots: "slots_in (if rc = 0 then run_states else rest_states) ch' \<and> poll_live (ch_poll_thread ch')"
      unfolding slots_in_base using base s by (auto simp: settled_def run_states_def rest_states_def)
    have run: "if bd_is_active (ch_bundle ch') then bundle_run ch' else \<forall>k < 4. \<not> s_is_bundled (ch_streams ch' ! k)"
    proof (cases "bd_super_buf_notify_cb (ch_bundle ch) = None")
      case True
      then have eq: "?b = ch" by (simp add: start_bundle_def)
      have "\<not> s_is_bundled (ch_streams ch' ! k)" if "k < 4" for k
        using l assms(6) True that unfolding eq by (auto simp: chan_like_def stream_id_def)
      then show ?thesis using chan_envD(4) [OF env] assms(5) unfolding eq by simp
    next
      case False
      from start_bundle_env [OF env b(2,3) len False] show ?thesis by simp
    qed
    have k: "kept ch ch'" using chan_envD(1,7) [OF env] start_bundle_same by (simp add: kept_def)
    have "chan_inv (if rc = 0 then ch'\<lparr>ch_state := MM_CHANNEL_STATE_ACTIVE\<rparr> else ch')"
    proof (cases "rc = 0")
      case True
      then show ?thesis using True slots run idle by (auto simp: chan_inv_def slots_in_def bundle_idle_def)
    next
      case False
      then show ?thesis using slots st idle by (simp add: chan_inv_def)
    qed
    with k st assms(2) show "kept ch ch' \<and> ch_state ch' = ch_state ch \<and>
        chan_inv (if rc = 0 then ch'\<lparr>ch_state := MM_CHANNEL_STATE_ACTIVE\<rparr> else ch')" by simp
  qed
qed

section \<open>Stop\<close>

lemma run_frames: "bundle_run ch \<Longrightarrow> superbuf_inv ch \<and> frames_only ch"
  by (fastforce simp: bundle_run_def frames_only_def)

lemma stop_event_runs:
  assumes "chan_inv ch" and "ch_state ch = MM_CHANNEL_STATE_ACTIVE" and "env_ok e"
  shows "runs (mm_channel_stop e ch w) (\<lambda>(rc, ch', w'). rc = 0 \<and> stopped_post ch ch' \<and> chan_inv (ch'\<lparr>ch_state := MM_CHANNEL_STATE_STOPPED\<rparr>))"
proof -
  have i: "slots_in run_states ch \<and> poll_live (ch_poll_thread ch)"
    and r: "if bd_is_active (ch_bundle ch) then bundle_run ch else bundle_idle ch"
    using assms(1,2) by (auto simp: chan_inv_def split: if_splits)
  have b: "chan_base ch" "\<forall>k < 4. slot_state ch k \<in> {MM_STREAM_STATE_NOTUSED, MM_STREAM_STATE_ACTIVE}"
    using i unfolding slots_in_base by (auto simp: run_states_def)
  have e: "alloc_ok e" "mem_ok e" using assms(3) by (auto simp: env_ok_def)
  have f: "bd_is_active (ch_bundle ch) \<longrightarrow> superbuf_inv ch \<and> frames_only ch" using r run_frames by auto
  show ?thesis
  proof (rule runs_mono [OF channel_stop_runs [OF b(1) e b(2) f]], clarify, intro conjI)
    fix ch' w' assume s: "stopped_post ch ch'"
    have slots: "slots_in rest_states ch' \<and> poll_live (ch_poll_thread ch')"
      unfolding slots_in_base using s by (auto simp: stopped_post_def settled_def rest_states_def)
    have "bundle_idle ch'"
      using s r bundle_idle_env [of ch' ch]
      by (auto simp: stopped_post_def bundle_idle_def zero_bundle_def zero_queue_def zero_cmd_thread_def split: if_splits)
    then show "chan_inv (ch'\<lparr>ch_state := MM_CHANNEL_STATE_STOPPED\<rparr>)"
      using slots by (simp add: chan_inv_def slots_in_def bundle_idle_def)
  qed simp_all
qed

end
