(* ===== verification/Channel_Safe.thy ===== *)
theory Channel_Safe
  imports Channel_Events
begin

text \<open>
  The channel as a whole: clients send it events, the poll thread brings frames, the threads of its
  streams and of its bundle handle them, and buffers come back, in any order.
\<close>

section \<open>Events\<close>

text \<open>
  What a client has to respect. A stream is added while the camera is open. The configuration
  carries a stream description and the operations on memory. The channel is started, and asked for
  its bundle, when all its streams are configured; it is not started over the threads of a start that
  failed, nor, after a stop has erased the callback, with streams that still count as bundled.
  Requests for superbuffers need a running bundle.
\<close>

fun evt_allowed :: "mm_channel_state_type_t \<Rightarrow> mm_channel_evt_type_t \<Rightarrow> mm_channel_t \<Rightarrow> world \<Rightarrow> bool" where
  "evt_allowed MM_CHANNEL_STATE_STOPPED MM_CHANNEL_EVT_ADD_STREAM ch w \<longleftrightarrow> chan_live ch w"
| "evt_allowed MM_CHANNEL_STATE_STOPPED (MM_CHANNEL_EVT_CONFIG_STREAM p) ch w \<longleftrightarrow> (\<exists>c. cs_config p = Some c \<and> config_ok c)"
| "evt_allowed MM_CHANNEL_STATE_STOPPED MM_CHANNEL_EVT_GET_BUNDLE_INFO ch w \<longleftrightarrow>
     (\<forall>i \<in> set (used ch). s_stream_info (ch_streams ch ! i) \<noteq> None)"
| "evt_allowed MM_CHANNEL_STATE_STOPPED MM_CHANNEL_EVT_START ch w \<longleftrightarrow>
     (\<forall>i \<in> set (used ch). slot_state ch i = MM_STREAM_STATE_CFG) \<and> \<not> bd_is_active (ch_bundle ch) \<and>
     (bd_super_buf_notify_cb (ch_bundle ch) = None \<longrightarrow> (\<forall>i < MAX_STREAM_NUM_IN_BUNDLE. \<not> s_is_bundled (ch_streams ch ! i)))"
| "evt_allowed MM_CHANNEL_STATE_ACTIVE (MM_CHANNEL_EVT_REQUEST_SUPER_BUF n) ch w \<longleftrightarrow> bd_is_active (ch_bundle ch)"
| "evt_allowed MM_CHANNEL_STATE_ACTIVE MM_CHANNEL_EVT_CANCEL_REQUEST_SUPER_BUF ch w \<longleftrightarrow> bd_is_active (ch_bundle ch)"
| "evt_allowed MM_CHANNEL_STATE_ACTIVE (MM_CHANNEL_EVT_FLUSH_SUPER_BUF_QUEUE f) ch w \<longleftrightarrow> bd_is_active (ch_bundle ch)"
| "evt_allowed MM_CHANNEL_STATE_ACTIVE (MM_CHANNEL_EVT_CONFIG_NOTIFY_MODE m) ch w \<longleftrightarrow> bd_is_active (ch_bundle ch)"
| "evt_allowed st evt ch w \<longleftrightarrow> True"

definition chan_evt_ok :: "mm_channel_evt_type_t \<Rightarrow> mm_channel_t \<Rightarrow> world \<Rightarrow> bool" where
  "chan_evt_ok evt ch w \<longleftrightarrow> evt_allowed (ch_state ch) evt ch w"

lemma chan_inv_lock [simp]: "chan_inv (ch\<lparr>ch_lock := l\<rparr>) = chan_inv ch"
  by (simp add: chan_inv_def slots_in_def bundle_idle_def cong: mm_channel_state_type_t.case_cong)

text \<open>After an event; only a channel that is deleted becomes unused.\<close>

definition evt_post :: "bool \<Rightarrow> mm_channel_t \<Rightarrow> mm_channel_t \<Rightarrow> bool" where
  "evt_post del ch ch' \<longleftrightarrow> chan_inv ch' \<and> kept ch ch' \<and>
     (ch_state ch' = MM_CHANNEL_STATE_NOTUSED \<longrightarrow> del \<or> ch_state ch = MM_CHANNEL_STATE_NOTUSED)"

lemma evt_post_same: "chan_inv ch \<Longrightarrow> evt_post d ch ch"
  by (simp add: evt_post_def)

lemma no_out_runs: "runs r (\<lambda>(rc, ch', w'). evt_post d ch ch') \<Longrightarrow> runs (no_out r) (\<lambda>(rc, out, ch', w'). evt_post d ch ch')"
  by (auto simp: no_out_def runs_bind elim!: runs_mono)

lemma stopped_rest:
  assumes "chan_inv ch" and "ch_state ch = MM_CHANNEL_STATE_STOPPED" and "chan_env ch' = chan_env ch" and "chan_base ch'"
    and "\<forall>i < MAX_STREAM_NUM_IN_BUNDLE. slot_state ch' i \<in> rest_states"
  shows "evt_post d ch ch'"
proof -
  have "ch_state ch' = MM_CHANNEL_STATE_STOPPED" using chan_envD(2) [OF assms(3)] assms(2) by simp
  moreover have "bundle_idle ch'" using bundle_idle_env [OF assms(3)] assms(1,2) by (simp add: chan_inv_def)
  moreover have "slots_in rest_states ch' \<and> poll_live (ch_poll_thread ch')" unfolding slots_in_base using assms(4,5) by blast
  ultimately show ?thesis using kept_env [OF assms(3)] by (simp add: chan_inv_def evt_post_def)
qed

lemma added_inv:
  assumes "chan_inv ch" and "ch_state ch = MM_CHANNEL_STATE_STOPPED" and "chan_base ch'" and "added ch w h ch'"
  shows "evt_post d ch ch'"
proof (rule stopped_rest [OF assms(1,2) _ assms(3)])
  show "chan_env ch' = chan_env ch" using assms(4) by (auto simp: added_def split: option.splits)
  have r: "slot_state ch k \<in> rest_states" "k < length (ch_streams ch)" if "k < 4" for k
    using assms(1,2) that by (auto simp: chan_inv_def slots_in_def)
  have "ch_streams ch' = ch_streams ch \<or> (\<exists>i s. ch_streams ch' = (ch_streams ch)[i := s] \<and> s_state s \<in> rest_states)"
  proof (cases "find_idx (\<lambda>s. s_state s = MM_STREAM_STATE_NOTUSED) (ch_streams ch)")
    case (Some i)
    then obtain pt s where s: "ch' = ch\<lparr>ch_poll_thread := pt, ch_streams := (ch_streams ch)[i := s]\<rparr>"
      "s = zero_stream \<or> s_state s = MM_STREAM_STATE_ACQUIRED"
      using assms(4) by (auto simp: added_def split: if_splits)
    have "s_state s \<in> rest_states" using s(2) by (auto simp: rest_states_def zero_stream_def)
    then show ?thesis using s(1) by auto
  qed (use assms(4) in \<open>simp add: added_def\<close>)
  then show "\<forall>k < MAX_STREAM_NUM_IN_BUNDLE. slot_state ch' k \<in> rest_states"
    using r by (metis nth_list_update_eq nth_list_update_neq)
qed

lemma parm_evts_runs:
  assumes "chan_inv ch"
  shows "runs (stream_hdl_evt e h (MM_STREAM_EVT_SET_PARM (Some p)) ch w) (\<lambda>(rc, ch', w'). evt_post d ch ch')"
    and "runs (stream_hdl_evt e h (MM_STREAM_EVT_GET_PARM (Some p)) ch w) (\<lambda>(rc, ch', w'). evt_post d ch ch')"
    and "runs (stream_hdl_evt e h (MM_STREAM_EVT_DO_ACTION (Some a)) ch w) (\<lambda>(rc, ch', w'). evt_post d ch ch')"
  by (rule runs_mono [OF parm_evt_runs]; use assms in \<open>auto simp: parm_evt_def evt_post_def\<close>)+

lemma stopped_evt_runs:
  assumes "chan_inv ch" and st: "ch_state ch = MM_CHANNEL_STATE_STOPPED" and "env_ok e" and "chan_evt_ok evt ch w"
  shows "runs (mm_channel_fsm_fn_stopped e evt ch w) (\<lambda>(rc, out, ch', w'). evt_post (evt = MM_CHANNEL_EVT_DELETE) ch ch')"
proof -
  have b: "chan_base ch" "\<forall>i < 4. slot_state ch i \<in> rest_states" and p: "poll_live (ch_poll_thread ch)"
    using assms(1) st slots_in_base [of rest_states ch] by (auto simp: chan_inv_def)
  have rest: "runs (stream_hdl_evt e h v ch w) (\<lambda>(rc, ch', w'). evt_post d ch ch')"
    if "v = MM_STREAM_EVT_RELEASE \<or> (\<exists>c. v = MM_STREAM_EVT_SET_FMT (Some c) \<and> config_ok c)" for h v d
    by (rule runs_mono [OF rest_evt_runs [OF b assms(3) that]]) (auto intro: stopped_rest [OF assms(1) st])
  note parm = parm_evts_runs [OF assms(1)]
  have start: "runs (mm_channel_start e ch w) (\<lambda>(rc, ch', w'). kept ch ch' \<and> ch_state ch' = ch_state ch \<and> chan_inv (if rc = 0 then ch'\<lparr>ch_state := MM_CHANNEL_STATE_ACTIVE\<rparr> else ch'))"
    if "evt = MM_CHANNEL_EVT_START"
    by (rule start_event_runs [OF assms(1) st assms(3)]) (use assms(4) st that in \<open>auto simp: chan_evt_ok_def\<close>)
  have gone: "evt_post True ch (ch\<lparr>ch_poll_thread := pt, ch_state := MM_CHANNEL_STATE_NOTUSED\<rparr>)" for pt
    using assms(1) st by (simp add: chan_inv_def slots_in_def bundle_idle_def evt_post_def)
  have same: "evt_post d ch ch" for d by (rule evt_post_same [OF assms(1)])
  show ?thesis
    using assms(4) st
    by (cases evt) (auto simp: mm_channel_fsm_fn_stopped_def chan_evt_ok_def same runs_bind
        mm_channel_del_stream_def mm_channel_config_stream_def mm_channel_set_stream_parm_def mm_channel_get_stream_parm_def
        mm_channel_do_stream_action_def get_bundle_info [OF b(1)]
        intro!: no_out_runs rest parm runs_mono [OF start] runs_mono [OF add_stream_runs [OF b(1) assms(3)]]
          runs_mono [OF map_runs(1) [OF assms(3)]] runs_mono [OF map_runs(2) [OF assms(3)]] runs_mono [OF release_runs_chan [OF assms(3) p]]
        intro: added_inv [OF assms(1) st] gone, auto simp: evt_post_def)
qed

lemma run_post:
  assumes "chan_inv ch" and "ch_state ch = MM_CHANNEL_STATE_ACTIVE" and "bd_is_active (ch_bundle ch)" and "cmd_fits ch c"
  shows "runs (post_cmd e c ch w) (\<lambda>(rc, ch', w'). evt_post d ch ch')"
proof -
  have "bundle_run ch" using assms(1-3) by (simp add: chan_inv_def)
  then show ?thesis
    by (rule runs_mono [OF post_cmd_runs [OF _ assms(4)]]) (use assms(1-3) in \<open>auto simp: chan_inv_def slots_in_def evt_post_def\<close>)
qed

lemma active_evt_runs:
  assumes "chan_inv ch" and st: "ch_state ch = MM_CHANNEL_STATE_ACTIVE" and "env_ok e" and "chan_evt_ok evt ch w"
  shows "runs (mm_channel_fsm_fn_active e evt ch w) (\<lambda>(rc, out, ch', w'). evt_post d ch ch')"
  using assms(4) st
  by (cases evt) (auto simp: mm_channel_fsm_fn_active_def chan_evt_ok_def evt_post_same [OF assms(1)] runs_bind
      mm_channel_set_stream_parm_def mm_channel_get_stream_parm_def mm_channel_do_stream_action_def
      mm_channel_request_super_buf_def mm_channel_cancel_super_buf_request_def mm_channel_flush_super_buf_queue_def mm_channel_config_notify_mode_def
      intro!: no_out_runs parm_evts_runs [OF assms(1)] run_post [OF assms(1) st] runs_mono [OF stop_event_runs [OF assms(1) st assms(3)]]
        runs_mono [OF map_runs(1) [OF assms(3)]] runs_mono [OF map_runs(2) [OF assms(3)]],
      auto simp: evt_post_def stopped_post_def kept_def)

lemma channel_evt_runs:
  assumes "chan_inv ch" and "env_ok e" and "chan_evt_ok evt ch w"
  shows "runs (mm_channel_fsm_fn e evt ch w) (\<lambda>(rc, out, ch', w'). evt_post (evt = MM_CHANNEL_EVT_DELETE) ch ch' \<and> \<not> ch_lock ch')"
proof -
  have "runs (case ch_state ch of
          MM_CHANNEL_STATE_NOTUSED \<Rightarrow> mm_channel_fsm_fn_notused e evt ch w
        | MM_CHANNEL_STATE_STOPPED \<Rightarrow> mm_channel_fsm_fn_stopped e evt ch w
        | MM_CHANNEL_STATE_ACTIVE \<Rightarrow> mm_channel_fsm_fn_active e evt ch w
        | MM_CHANNEL_STATE_PAUSED \<Rightarrow> mm_channel_fsm_fn_paused e evt ch w
        | MM_CHANNEL_STATE_MAX \<Rightarrow> Some (-1, No_out, ch, w)) (\<lambda>(rc, out, ch', w'). evt_post (evt = MM_CHANNEL_EVT_DELETE) ch ch')"
    using stopped_evt_runs [OF assms(1) _ assms(2,3)] active_evt_runs [OF assms(1) _ assms(2,3)] evt_post_same [OF assms(1)]
    by (cases "ch_state ch") (auto simp: mm_channel_fsm_fn_notused_def mm_channel_fsm_fn_paused_def)
  then show ?thesis
    unfolding mm_channel_fsm_fn_def runs_bind by (rule runs_mono) (auto simp: evt_post_def)
qed

section \<open>Actions\<close>

text \<open>
  The threads that work on a channel: clients with events, the poll thread with a frame of a stream,
  the thread of a stream, the two threads of the bundle, and clients that return a buffer. An event
  holds the lock of the channel from its first to its last step.
\<close>

datatype chan_act =
    Act_event mm_channel_evt_type_t
  | Act_frame nat
  | Act_stream nat
  | Act_cmd
  | Act_cb
  | Act_qbuf mm_camera_buf_def_t

fun chan_do :: "env \<Rightarrow> chan_act \<Rightarrow> mm_channel_t \<times> world \<Rightarrow> (mm_channel_t \<times> world) option" where
  "chan_do e (Act_event evt) (ch, w) = do {
     (_, _, ch, w) \<leftarrow> mm_channel_fsm_fn e evt ch w;
     Some (ch, w)
   }"
| "chan_do e (Act_frame i) (ch, w) = do {
     s \<leftarrow> nth_opt (ch_streams ch) (int i);
     (s, ch, w) \<leftarrow> mm_stream_data_notify e s ch w;
     Some (ch\<lparr>ch_streams := (ch_streams ch)[i := s]\<rparr>, w)
   }"
| "chan_do e (Act_stream i) (ch, w) = do {
     s \<leftarrow> nth_opt (ch_streams ch) (int i);
     (t, s, w) \<leftarrow> thread_step (mm_stream_dispatch_app_data e ch) (s_cmd_thread s) (s, w);
     Some (ch\<lparr>ch_streams := (ch_streams ch)[i := s\<lparr>s_cmd_thread := t\<rparr>]\<rparr>, w)
   }"
| "chan_do e Act_cmd (ch, w) = do {
     (t, ch, w) \<leftarrow> thread_step (mm_channel_process_stream_buf e) (ch_cmd_thread ch) (ch, w);
     Some (ch\<lparr>ch_cmd_thread := t\<rparr>, w)
   }"
| "chan_do e Act_cb (ch, w) = do {
     (t, ch, w) \<leftarrow> thread_step (\<lambda>c (ch, w). Some (ch, mm_channel_dispatch_super_buf e c ch w)) (ch_cb_thread ch) (ch, w);
     Some (ch\<lparr>ch_cb_thread := t\<rparr>, w)
   }"
| "chan_do e (Act_qbuf b) (ch, w) = do {
     (_, ch, w) \<leftarrow> mm_channel_qbuf e (Some b) ch w;
     Some (ch, w)
   }"

text \<open>The driver hands out buffers the stream knows, and clients return buffers they have been given.\<close>

fun act_ok :: "env \<Rightarrow> chan_act \<Rightarrow> mm_channel_t \<times> world \<Rightarrow> bool" where
  "act_ok e (Act_event evt) (ch, w) \<longleftrightarrow> chan_evt_ok evt ch w"
| "act_ok e (Act_frame i) (ch, w) \<longleftrightarrow> i < MAX_STREAM_NUM_IN_BUNDLE \<and>
     (slot_state ch i = MM_STREAM_STATE_ACTIVE \<longrightarrow> dq_ok e (ch_streams ch ! i) w)"
| "act_ok e (Act_stream i) (ch, w) \<longleftrightarrow> i < MAX_STREAM_NUM_IN_BUNDLE"
| "act_ok e Act_cmd (ch, w) \<longleftrightarrow> True"
| "act_ok e Act_cb (ch, w) \<longleftrightarrow> True"
| "act_ok e (Act_qbuf b) (ch, w) \<longleftrightarrow> buf_fits (ch_streams ch) b"

inductive chan_run :: "env \<Rightarrow> mm_channel_t \<times> world \<Rightarrow> mm_channel_t \<times> world \<Rightarrow> bool" for e where
  start: "chan_run e p p"
| step: "chan_run e p q \<Longrightarrow> act_ok e act q \<Longrightarrow> chan_do e act q = Some r \<Longrightarrow> chan_run e p r"

lemma streams_upd_inv:
  assumes "chan_inv ch" and "length ss = length (ch_streams ch)"
    and "\<And>k. k < MAX_STREAM_NUM_IN_BUNDLE \<Longrightarrow> slot_inv k (ch_streams ch ! k) \<Longrightarrow> slot_inv k (ss ! k) \<and> fit_like (ch_streams ch ! k) (ss ! k)"
    and "\<And>b. buf_fits (ch_streams ch) b \<Longrightarrow> buf_fits ss b"
  shows "chan_inv (ch\<lparr>ch_streams := ss\<rparr>)"
proof -
  let ?c = "ch\<lparr>ch_streams := ss\<rparr>"
  have sl: "slots_in S ?c" if "slots_in S ch" for S
    using that assms(2,3) by (auto simp: slots_in_def fit_like_def)
  have bd: "s_is_bundled (ss ! k) = s_is_bundled (ch_streams ch ! k)" if "slots_in S ch" "k < 4" for S k
    using that assms(3) [of k] by (simp add: fit_like_def stream_id_def slots_in_def)
  have "bundle_run ?c" if "bundle_run ch"
    by (rule bundle_run_upd [OF that]) (use assms(4) in auto)
  moreover have "bundle_idle ?c = bundle_idle ch" by (simp add: bundle_idle_def)
  ultimately show ?thesis
    using assms(1) sl bd unfolding chan_inv_def
    by (cases "ch_state ch") (auto split: if_splits)
qed

lemma fit_like_refl [simp]: "fit_like s s"
  by (simp add: fit_like_def)

lemma slot_upd_inv:
  assumes "chan_inv ch" and "slot_inv i s'" and "fit_like (ch_streams ch ! i) s'"
  shows "chan_inv (ch\<lparr>ch_streams := (ch_streams ch)[i := s']\<rparr>)"
proof (rule streams_upd_inv [OF assms(1)])
  fix k assume "slot_inv k (ch_streams ch ! k)"
  then show "slot_inv k ((ch_streams ch)[i := s'] ! k) \<and> fit_like (ch_streams ch ! k) ((ch_streams ch)[i := s'] ! k)"
    using assms(2,3) by (cases "i < length (ch_streams ch)") (auto simp: nth_list_update list_update_beyond)
qed (use fit_like_fits [OF assms(3)] in auto)

lemma counts_inv:
  assumes "chan_inv ch" and "list_all2 counts_only (ch_streams ch) ss"
  shows "chan_inv (ch\<lparr>ch_streams := ss\<rparr>)"
proof (rule streams_upd_inv [OF assms(1)])
  have len: "length ss = length (ch_streams ch)" using assms(2) by (simp add: list_all2_lengthD)
  then show "length ss = length (ch_streams ch)" .
  fix k assume k: "k < MAX_STREAM_NUM_IN_BUNDLE" "slot_inv k (ch_streams ch ! k)"
  have "length (ch_streams ch) = 4" using assms(1) by (auto simp: chan_inv_def slots_in_def split: mm_channel_state_type_t.splits)
  then have "counts_only (ch_streams ch ! k) (ss ! k)" using assms(2) k(1) by (simp add: list_all2_conv_all_nth)
  then show "slot_inv k (ss ! k) \<and> fit_like (ch_streams ch ! k) (ss ! k)"
    using counts_slot [of "ch_streams ch ! k" "ss ! k"] k(2) by (auto simp: fit_like_def counts_only_def)
next
  fix b assume "buf_fits (ch_streams ch) b"
  then show "buf_fits ss b" by (rule counts_fits [OF assms(2)])
qed

section \<open>Every action keeps the invariant\<close>

lemma inv_slot:
  assumes "chan_inv ch" and "i < MAX_STREAM_NUM_IN_BUNDLE"
  shows "nth_opt (ch_streams ch) (int i) = Some (ch_streams ch ! i)" and "slot_inv i (ch_streams ch ! i)" and "ch_cam_obj ch \<noteq> None"
    and "i < length (ch_streams ch)"
  using assms by (auto simp: chan_inv_def slots_in_def nth_opt_def split: mm_channel_state_type_t.splits)

lemma inv_active:
  assumes "chan_inv ch" and "i < MAX_STREAM_NUM_IN_BUNDLE" and "slot_state ch i = MM_STREAM_STATE_ACTIVE"
  shows "ch_state ch = MM_CHANNEL_STATE_ACTIVE" and "chan_base ch"
    and "if bd_is_active (ch_bundle ch) then bundle_run ch else bundle_idle ch \<and> \<not> s_is_bundled (ch_streams ch ! i)"
proof -
  have "slot_state ch i \<notin> rest_states" using assms(3) by (simp add: rest_states_def)
  then show "ch_state ch = MM_CHANNEL_STATE_ACTIVE"
    using assms(1,2) by (auto simp: chan_inv_def slots_in_def split: mm_channel_state_type_t.splits)
  then show "chan_base ch" "if bd_is_active (ch_bundle ch) then bundle_run ch else bundle_idle ch \<and> \<not> s_is_bundled (ch_streams ch ! i)"
    using assms(1,2) slots_in_base [of run_states ch] by (auto simp: chan_inv_def)
qed

text \<open>A thread of the channel never changes the lock of the channel.\<close>

definition thread_post :: "mm_channel_t \<Rightarrow> mm_channel_t \<Rightarrow> bool" where
  "thread_post ch ch' \<longleftrightarrow> chan_inv ch' \<and> kept ch ch' \<and> ch_state ch' = ch_state ch \<and> ch_lock ch' = ch_lock ch"

lemma frame_act_runs:
  assumes "chan_inv ch" and "act_ok e (Act_frame i) (ch, w)"
  shows "runs (chan_do e (Act_frame i) (ch, w)) (\<lambda>(ch', w'). thread_post ch ch')"
proof (cases "slot_state ch i = MM_STREAM_STATE_ACTIVE")
  case False
  then show ?thesis using assms inv_slot [of ch i] by (simp add: mm_stream_data_notify_def thread_post_def)
next
  case True
  have i: "i < 4" "dq_ok e (ch_streams ch ! i) w" using assms(2) True by auto
  note s = inv_slot [OF assms(1) i(1)] and a = inv_active [OF assms(1) i(1) True]
  let ?s = "ch_streams ch ! i"
  have cb: "s_is_bundled ?s \<longrightarrow> ct_cb (ch_cmd_thread ch) \<noteq> None" using a(3) by (auto simp: bundle_run_def split: if_splits)
  have keep: "chan_inv (ch\<lparr>ch_cmd_thread := u, ch_streams := (ch_streams ch)[i := s']\<rparr>)"
    if t: "slot_inv i s'" "fit_like ?s s'" "posted (Collect (own_frame ?s)) (ch_cmd_thread ch) u" "s_is_bundled ?s \<or> u = ch_cmd_thread ch" for s' u
  proof -
    let ?c = "ch\<lparr>ch_streams := (ch_streams ch)[i := s']\<rparr>"
    let ?d = "?c\<lparr>ch_cmd_thread := u\<rparr>"
    have c: "chan_inv ?c" by (rule slot_upd_inv [OF assms(1) t(1,2)])
    have "bundle_run ?d" if "bundle_run ch"
    proof (rule bundle_run_upd [OF that])
      have "cmd_fits ?d x" if "own_frame ?s x" for x
        by (rule cmd_fits_cong [OF _ own_fits [OF a(2) i(1) that]]) (use True fit_like_fits [OF t(2)] in auto)
      then show "\<forall>x \<in> set (ct_cmd_queue (ch_cmd_thread ?d)). x \<in> set (ct_cmd_queue (ch_cmd_thread ch)) \<or> cmd_fits ?d x"
        using t(3) by (auto simp: posted_def)
    qed (use t(3) fit_like_fits [OF t(2)] in \<open>auto simp: posted_def\<close>)
    then have "chan_inv ?d"
      using c a(1,3) t(4) by (auto simp: chan_inv_def slots_in_def bundle_idle_def split: if_splits)
    moreover have "?d = ch\<lparr>ch_cmd_thread := u, ch_streams := (ch_streams ch)[i := s']\<rparr>" by (cases ch) simp
    ultimately show ?thesis by simp
  qed
  show ?thesis
    using s(1) by (auto simp: runs_bind intro!: runs_mono [OF data_notify_runs [OF s(2) True i(2) cb]] intro: keep slot_upd_inv [OF assms(1)] simp: thread_post_def)
qed

lemma stream_act_runs:
  assumes "chan_inv ch" and "i < MAX_STREAM_NUM_IN_BUNDLE"
  shows "runs (chan_do e (Act_stream i) (ch, w)) (\<lambda>(ch', w'). thread_post ch ch')"
  using inv_slot [OF assms]
  by (auto simp: runs_bind intro!: runs_mono [OF stream_step_runs [of i]] intro: slot_upd_inv [OF assms(1)] simp: thread_post_def)

lemma cb_act_runs:
  assumes "chan_inv ch"
  shows "runs (chan_do e Act_cb (ch, w)) (\<lambda>(ch', w'). thread_post ch ch')"
proof -
  have keep: "chan_inv (ch\<lparr>ch_cb_thread := t\<rparr>)" if "ct_cb t = ct_cb (ch_cb_thread ch)" for t
  proof -
    have "bundle_run (ch\<lparr>ch_cb_thread := t\<rparr>)" if "bundle_run ch"
      by (rule bundle_run_upd [OF that]) (use \<open>ct_cb t = _\<close> in auto)
    then show ?thesis
      using assms unfolding chan_inv_def by (cases "ch_state ch") (auto simp: slots_in_def bundle_idle_def)
  qed
  have "runs (thread_step (\<lambda>c (ch, w). Some (ch, mm_channel_dispatch_super_buf e c ch w)) (ch_cb_thread ch) (ch, w))
      (\<lambda>(t', s'). fst s' = ch \<and> ct_cb t' = ct_cb (ch_cb_thread ch) \<and> set (ct_cmd_queue t') \<subseteq> set (ct_cmd_queue (ch_cb_thread ch)) \<and>
        (no_exit (ct_cmd_queue (ch_cb_thread ch)) \<longrightarrow> ct_running t' = ct_running (ch_cb_thread ch)))"
    by (rule thread_step_runs) auto
  then show ?thesis
    unfolding chan_do.simps runs_bind by (rule runs_mono) (auto intro: keep simp: thread_post_def)
qed

lemma cmd_act_runs:
  assumes "chan_inv ch"
  shows "runs (chan_do e Act_cmd (ch, w)) (\<lambda>(ch', w'). thread_post ch ch')"
proof (cases "ch_state ch = MM_CHANNEL_STATE_ACTIVE \<and> bd_is_active (ch_bundle ch)")
  case False
  then have "ct_cmd_queue (ch_cmd_thread ch) = []"
    using assms by (auto simp: chan_inv_def bundle_idle_def split: mm_channel_state_type_t.splits)
  then show ?thesis using assms by (simp add: thread_step_def thread_post_def)
next
  case True
  then have b: "chan_base ch" "bundle_run ch" "slots_in run_states ch"
    using assms slots_in_base [of run_states ch] by (auto simp: chan_inv_def)
  have "thread_post ch (ch'\<lparr>ch_cmd_thread := t\<rparr>)" if "chan_keep ch ch'" "bundle_run (ch'\<lparr>ch_cmd_thread := t\<rparr>)" "chan_core ch' = chan_core ch" for ch' t
  proof -
    have "slots_in run_states ch' \<and> poll_live (ch_poll_thread ch')"
      unfolding slots_in_base using that(1) b(3) by (auto simp: chan_keep_def slots_in_def)
    then show ?thesis using that True by (simp add: chan_inv_def slots_in_def chan_core_def thread_post_def kept_def)
  qed
  then show ?thesis
    unfolding chan_do.simps runs_bind by (intro runs_mono [OF bundle_step_runs [OF b(1,2)]]) auto
qed

lemma qbuf_act_runs:
  assumes "chan_inv ch" and "buf_fits (ch_streams ch) b"
  shows "runs (chan_do e (Act_qbuf b) (ch, w)) (\<lambda>(ch', w'). thread_post ch ch')"
proof -
  obtain rc ch' w' where q: "mm_channel_qbuf e (Some b) ch w = Some (rc, ch', w')"
    using qbuf_runs [OF assms(2), of e w] by (auto simp: runs_iff)
  obtain ss where "ch' = ch\<lparr>ch_streams := ss\<rparr>" "list_all2 counts_only (ch_streams ch) ss" using qbuf_Some [OF q] by blast
  then show ?thesis using q counts_inv [OF assms(1)] by (simp add: thread_post_def)
qed

lemma thread_act_runs:
  assumes "chan_inv ch" and "act_ok e act (ch, w)" and "\<And>evt. act \<noteq> Act_event evt"
  shows "runs (chan_do e act (ch, w)) (\<lambda>(ch', w'). thread_post ch ch')"
proof (cases act)
  case (Act_event evt)
  then show ?thesis using assms(3) by simp
qed (use assms(1,2) frame_act_runs stream_act_runs cb_act_runs cmd_act_runs qbuf_act_runs in \<open>auto simp del: chan_do.simps\<close>)

lemma act_runs:
  assumes "chan_inv ch" and "env_ok e" and "act_ok e act (ch, w)"
  shows "runs (chan_do e act (ch, w)) (\<lambda>(ch', w'). evt_post (act = Act_event MM_CHANNEL_EVT_DELETE) ch ch')"
proof (cases act)
  case (Act_event evt)
  then show ?thesis
    using assms by (auto simp: runs_bind intro!: runs_mono [OF channel_evt_runs [OF assms(1,2)]])
qed (rule runs_mono [OF thread_act_runs [OF assms(1,3)]]; auto simp: evt_post_def thread_post_def)+

lemma chan_run_inv:
  assumes "chan_run e p q" and "chan_inv (fst p)" and "env_ok e"
  shows "chan_inv (fst q)"
  using assms
proof (induction rule: chan_run.induct)
  case (step p q act r)
  then show ?case using act_runs [of "fst q" e act "snd q"] by (auto simp: runs_iff evt_post_def)
qed

end
