(* ===== verification/Channel_Correct.thy ===== *)
theory Channel_Correct
  imports Channel_Safe
begin

text \<open>
  Properties of channels: whatever the order in which clients and threads work on a channel, no
  action faults or blocks; starting is all or nothing; stopping leaves nothing behind; and two
  sequences of events that the code does not survive.
\<close>

section \<open>A channel to start from\<close>

definition new_channel :: "uint32_t \<Rightarrow> cam_obj_ref \<Rightarrow> mm_channel_t" where
  "new_channel h cam = zero_channel\<lparr>ch_my_hdl := h, ch_cam_obj := Some cam\<rparr>"

lemma init_inv:
  assumes "0 \<le> e_rc e (w_trace w) Sys_pipe"
  shows "chan_inv (fst (snd (mm_channel_init e attr cb ud (new_channel h cam) w)))"
proof -
  have "poll_live (fst (snd (mm_camera_poll_thread_launch e MM_CAMERA_POLL_TYPE_DATA zero_poll_thread w)))"
    using assms by (auto simp: mm_camera_poll_thread_launch_def mm_camera_poll_thread_def mm_camera_poll_sig_done_def
        mm_camera_poll_set_state_def poll_live_def poll_wf_def zero_poll_thread_def Let_def split_beta)
  then show ?thesis
    by (auto simp: mm_channel_init_def new_channel_def zero_channel_def chan_inv_def slots_in_def bundle_idle_def rest_states_def
        zero_bundle_def zero_queue_def zero_cmd_thread_def set_queue_def Let_def split_beta split: option.split)
      (simp_all add: zero_stream_def)
qed

text \<open>A stopped channel with a callback, a preview stream and a metadata stream, both configured.\<close>

definition sample_cfg :: "uint32_t \<Rightarrow> cam_stream_type_t \<Rightarrow> mm_stream_t" where
  "sample_cfg h ty = sample_buffed\<lparr>s_my_hdl := h, s_state := MM_STREAM_STATE_CFG, s_buf_num := 0, s_buf := None, s_buf_status := None,
     s_stream_info := Some (sample_stream_info\<lparr>si_stream_type := ty\<rparr>)\<rparr>"

definition sample_ready :: mm_channel_t where
  "sample_ready = sample_channel\<lparr>ch_bundle := zero_bundle\<lparr>bd_super_buf_notify_cb := Some 5\<rparr>,
     ch_streams := [sample_cfg 0x300 CAM_STREAM_TYPE_PREVIEW, sample_cfg 0x401 CAM_STREAM_TYPE_METADATA, zero_stream, zero_stream]\<rparr>"

lemma sample_cfg_slot:
  "slot_inv 0 (sample_cfg 0x300 ty)" "slot_inv (Suc 0) (sample_cfg 0x401 ty)"
  by (simp_all add: slot_inv_def stream_wf_def frames_ok_def sample_cfg_def sample_buffed_def sample_stream_def zero_stream_def
      configured_def buffered_def vtbl_ok_def cbs_inf_def zero_data_cb_def mm_camera_util_get_index_by_handler_def all_less_4)

lemma sample_ready_inv: "chan_inv sample_ready" "ch_state sample_ready = MM_CHANNEL_STATE_STOPPED"
proof -
  have "poll_live (sample_poll_thread 0)" using sample_poll_thread [of 0] by (simp add: poll_live_def)
  then show "chan_inv sample_ready"
    using sample_cfg_slot
    by (simp add: chan_inv_def slots_in_def bundle_idle_def all_less_4 sample_ready_def sample_channel_def zero_channel_def
        zero_bundle_def zero_queue_def zero_cmd_thread_def rest_states_def)
      (simp add: sample_cfg_def zero_stream_def)
  show "ch_state sample_ready = MM_CHANNEL_STATE_STOPPED" by (simp add: sample_ready_def sample_channel_def)
qed

lemma calm_ok: "env_ok (calm_env 2)"
  using calm_env_ok by (simp add: env_ok_def) (simp add: calm_env_def calm_rc_def)

section \<open>Starting\<close>

definition started_post :: "mm_channel_t \<Rightarrow> int \<Rightarrow> mm_channel_t \<Rightarrow> bool" where
  "started_post ch rc ch' \<longleftrightarrow> settled ch (if rc = 0 then MM_STREAM_STATE_ACTIVE else MM_STREAM_STATE_CFG) ch' \<and>
     ch_state ch' = ch_state ch \<and> (\<forall>i < MAX_STREAM_NUM_IN_BUNDLE. s_my_hdl (ch_streams ch' ! i) = s_my_hdl (ch_streams ch ! i)) \<and>
     (if bd_super_buf_notify_cb (ch_bundle ch) = None then chan_like ch ch'
      else bd_is_active (ch_bundle ch') \<and> ct_running (ch_cmd_thread ch') \<and> ct_running (ch_cb_thread ch'))"

lemma start_bundle_hdl:
  assumes "length (ch_streams ch) = MAX_STREAM_NUM_IN_BUNDLE" and "i < MAX_STREAM_NUM_IN_BUNDLE"
  shows "s_my_hdl (ch_streams (start_bundle objs ch) ! i) = s_my_hdl (ch_streams ch ! i)"
  using assms by (simp add: start_bundle_def bundle_streams_def Let_def fold_bundled)

lemma start_post_runs:
  assumes "chan_inv ch" and "ch_state ch = MM_CHANNEL_STATE_STOPPED" and "env_ok e" and "chan_evt_ok MM_CHANNEL_EVT_START ch w0"
  shows "runs (mm_channel_start e ch w) (\<lambda>(rc, ch', w'). started_post ch rc ch')"
proof -
  have b: "chan_base ch" "ch_cam_obj ch \<noteq> None" and idle: "bundle_idle ch"
    using assms(1,2) slots_in_base [of rest_states ch] by (auto simp: chan_inv_def slots_in_def)
  have len: "length (ch_streams ch) = 4" using b(1) by (simp add: chan_base_def)
  have st: "\<forall>k < 4. slot_state ch k \<in> {MM_STREAM_STATE_NOTUSED, MM_STREAM_STATE_CFG}"
    using assms(2,4) by (auto simp: chan_evt_ok_def)
  have e: "alloc_ok e" "mem_ok e" using assms(3) by (auto simp: env_ok_def)
  show ?thesis
  proof (rule runs_mono [OF channel_start_runs [OF b(1) e st]], clarify)
    fix rc :: int and ch' w' m
    let ?b = "start_bundle (start_order (used ch, m)) ch"
    assume l: "chan_like ?b ch'" and s: "settled ch (if rc = 0 then MM_STREAM_STATE_ACTIVE else MM_STREAM_STATE_CFG) ch'"
    have env: "chan_env ch' = chan_env ?b" using l by (simp add: chan_like_def)
    have "s_my_hdl (ch_streams ch' ! i) = s_my_hdl (ch_streams ch ! i)" if "i < 4" for i
      using l start_bundle_hdl [of ch i] len that by (simp add: chan_like_def stream_id_def)
    moreover have "ct_running (ch_cmd_thread ?b)" "ct_running (ch_cb_thread ?b)" "bd_is_active (ch_bundle ?b)"
      if "bd_super_buf_notify_cb (ch_bundle ch) \<noteq> None"
      using that by (auto simp: start_bundle_def bundle_streams_def mm_camera_cmd_thread_launch_def Let_def)
    ultimately show "started_post ch rc ch'"
      using s l chan_envD [OF env] start_bundle_same by (auto simp: started_post_def start_bundle_def)
  qed
qed

lemma read_frame_bundled:
  assumes "mm_stream_read_msm_frame e s w = Some (rc, bi, s', w')"
  shows "s_is_bundled s' = s_is_bundled s"
  using assms by (auto simp: mm_stream_read_msm_frame_def Some_simps split: if_splits option.splits)

section \<open>Properties\<close>

text \<open>
  C2. No interleaving breaks a channel. Start from a channel that has just been initialised, and let
  clients send events, the driver deliver frames, the threads of the streams and of the bundle take
  their commands and clients return buffers, in any order and any number; then every further action
  returns: no null pointer is followed, no index is out of range, no loop or wait goes on for ever.
  The surroundings keep their contracts (the allocators, the server, the pipe) and clients respect
  the order of calls that the interface asks for.
\<close>

theorem channel_interleaving_safe:
  assumes "env_ok e" and "0 \<le> e_rc e (w_trace w) Sys_pipe" and "mm_channel_init e attr cb ud (new_channel h cam) w = (rc, p)"
    and "chan_run e p q" and "act_ok e act q"
  shows "\<exists>r. chan_do e act q = Some r"
proof -
  have "chan_inv (fst p)" using init_inv [OF assms(2), of attr cb ud h cam] assms(3) by simp
  then have "chan_inv (fst q)" by (rule chan_run_inv [OF assms(4) _ assms(1)])
  from act_runs [OF this assms(1), of act "snd q"] show ?thesis using assms(5) by (auto simp: runs_iff)
qed

theorem channel_interleaving_safe_witness:
  "\<exists>r. chan_do (calm_env 2) (Act_event MM_CHANNEL_EVT_ADD_STREAM)
     (snd (mm_channel_init (calm_env 2) None (Some 5) 0 (new_channel 0x200 \<lparr>co_my_hdl = 0x100, co_ctrl_fd = 5, co_ds_fd = 6\<rparr>) sample_world)) = Some r"
proof -
  let ?c = "new_channel 0x200 \<lparr>co_my_hdl = 0x100, co_ctrl_fd = 5, co_ds_fd = 6\<rparr>"
  let ?r = "mm_channel_init (calm_env 2) None (Some 5) 0 ?c sample_world"
  have pipe: "0 \<le> e_rc (calm_env 2) (w_trace sample_world) Sys_pipe" by (simp add: calm_env_def calm_rc_def)
  have st: "ch_state (fst (snd ?r)) = MM_CHANNEL_STATE_STOPPED" by (simp add: mm_channel_init_def Let_def split_beta)
  have "poll_live (ch_poll_thread (fst (snd ?r)))" using init_inv [OF pipe, of None "Some 5" 0 "0x200" "\<lparr>co_my_hdl = 0x100, co_ctrl_fd = 5, co_ds_fd = 6\<rparr>"] st
    by (simp add: chan_inv_def)
  then have "chan_live (fst (snd ?r)) (snd (snd ?r))"
    by (simp add: chan_live_def mm_channel_init_def new_channel_def mm_camera_poll_thread_launch_def mm_camera_util_get_dev_name_def
        mm_camera_util_get_index_by_handler_def sample_world_def calm_env_def calm_rc_def calm_world_def nth_opt_def Let_def split_beta sys_def)
  then have "act_ok (calm_env 2) (Act_event MM_CHANNEL_EVT_ADD_STREAM) (snd ?r)"
    using st by (cases "snd ?r") (simp add: chan_evt_ok_def)
  then show ?thesis
    using channel_interleaving_safe [OF calm_ok pipe, of None "Some 5" 0 _ _ "fst ?r" "snd ?r" "snd ?r"] chan_run.start by fastforce
qed

text \<open>
  C13. Every event of the channel returns and releases the lock of the channel, on every path and in
  every state, and keeps the invariant: between events a stopped channel has no buffered stream and
  nothing queued, an active one has all its streams active and, when it has a bundle, a consistent
  queue of superbuffers whose buffers belong to the streams.
\<close>

theorem channel_events_keep_invariant:
  assumes "chan_inv ch" and "env_ok e" and "chan_evt_ok evt ch w"
  shows "\<exists>rc out ch' w'. mm_channel_fsm_fn e evt ch w = Some (rc, out, ch', w') \<and> chan_inv ch' \<and> \<not> ch_lock ch'"
  using channel_evt_runs [OF assms] by (auto simp: runs_iff evt_post_def)

lemma sample_start_ok: "chan_evt_ok MM_CHANNEL_EVT_START sample_ready w"
  by (simp add: chan_evt_ok_def sample_ready_inv(2) used_def upt_rec)
    (simp add: sample_ready_def sample_cfg_def sample_channel_def zero_channel_def zero_bundle_def zero_stream_def nth_Cons')

theorem channel_events_keep_invariant_witness:
  "\<exists>rc out ch' w'. mm_channel_fsm_fn (calm_env 2) MM_CHANNEL_EVT_START sample_ready sample_world = Some (rc, out, ch', w') \<and>
     chan_inv ch' \<and> \<not> ch_lock ch'"
  by (rule channel_events_keep_invariant [OF sample_ready_inv(1) calm_ok sample_start_ok])

text \<open>
  C11. Starting is all or nothing. Either every stream of the channel becomes active and so does the
  channel, or the result is an error, every stream that had been started is stopped, unregistered and
  unbuffered again, and the channel stays stopped. No stream is lost or exchanged.
\<close>

theorem channel_start_all_or_none:
  assumes "chan_inv ch" and "env_ok e" and "ch_state ch = MM_CHANNEL_STATE_STOPPED" and "chan_evt_ok MM_CHANNEL_EVT_START ch w"
  shows "\<exists>rc ch' w'. mm_channel_fsm_fn e MM_CHANNEL_EVT_START ch w = Some (rc, No_out, ch', w') \<and>
    ch_state ch' = (if rc = 0 then MM_CHANNEL_STATE_ACTIVE else MM_CHANNEL_STATE_STOPPED) \<and>
    (\<forall>i < MAX_STREAM_NUM_IN_BUNDLE. s_my_hdl (ch_streams ch' ! i) = s_my_hdl (ch_streams ch ! i) \<and>
       slot_state ch' i = (if slot_state ch i = MM_STREAM_STATE_NOTUSED then MM_STREAM_STATE_NOTUSED
         else if rc = 0 then MM_STREAM_STATE_ACTIVE else MM_STREAM_STATE_CFG))"
proof -
  obtain rc ch' w' where r: "mm_channel_start e ch w = Some (rc, ch', w')" and p: "started_post ch rc ch'"
    using start_post_runs [OF assms(1,3,2,4), of w] by (auto simp: runs_iff)
  then show ?thesis
    using assms(3) by (auto simp: mm_channel_fsm_fn_def mm_channel_fsm_fn_stopped_def started_post_def settled_def)
qed

theorem channel_start_all_or_none_witness:
  "\<exists>rc ch' w'. mm_channel_fsm_fn (calm_env 2) MM_CHANNEL_EVT_START sample_ready sample_world = Some (rc, No_out, ch', w') \<and>
     ch_state ch' = (if rc = 0 then MM_CHANNEL_STATE_ACTIVE else MM_CHANNEL_STATE_STOPPED) \<and>
     slot_state ch' 0 = (if rc = 0 then MM_STREAM_STATE_ACTIVE else MM_STREAM_STATE_CFG)"
proof -
  have "slot_state sample_ready 0 = MM_STREAM_STATE_CFG" by (simp add: sample_ready_def sample_cfg_def)
  then show ?thesis
    using channel_start_all_or_none [OF sample_ready_inv(1) calm_ok sample_ready_inv(2) sample_start_ok, of sample_world] by fastforce
qed

text \<open>
  C12. Stopping always succeeds and leaves nothing running: every stream is stopped, unregistered and
  unbuffered, and configured as before; the two threads of the bundle have handled what was queued
  and are gone, and the bundle is cleared.
\<close>

theorem channel_stop_complete:
  assumes "chan_inv ch" and "env_ok e" and "ch_state ch = MM_CHANNEL_STATE_ACTIVE"
  shows "\<exists>ch' w'. mm_channel_fsm_fn e MM_CHANNEL_EVT_STOP ch w = Some (0, No_out, ch', w') \<and> ch_state ch' = MM_CHANNEL_STATE_STOPPED \<and>
    (\<forall>i < MAX_STREAM_NUM_IN_BUNDLE. s_my_hdl (ch_streams ch' ! i) = s_my_hdl (ch_streams ch ! i) \<and>
       slot_state ch' i = (if slot_state ch i = MM_STREAM_STATE_NOTUSED then MM_STREAM_STATE_NOTUSED else MM_STREAM_STATE_CFG)) \<and>
    (bd_is_active (ch_bundle ch) \<longrightarrow> ch_bundle ch' = zero_bundle \<and> ch_cmd_thread ch' = zero_cmd_thread \<and> ch_cb_thread ch' = zero_cmd_thread)"
proof -
  obtain ch' w' where r: "mm_channel_stop e ch w = Some (0, ch', w')" and p: "stopped_post ch ch'"
    using stop_event_runs [OF assms(1,3,2), of w] by (auto simp: runs_iff)
  then show ?thesis
    using assms(3) by (auto simp: mm_channel_fsm_fn_def mm_channel_fsm_fn_active_def stopped_post_def settled_def stream_id_def)
qed

lemma sample_active:
  obtains ch w where "mm_channel_fsm_fn (calm_env 2) MM_CHANNEL_EVT_START sample_ready sample_world = Some (0, No_out, ch, w)"
    and "chan_inv ch" and "ch_state ch = MM_CHANNEL_STATE_ACTIVE" and "bd_is_active (ch_bundle ch)" and "s_is_bundled (ch_streams ch ! 0)"
    and "slot_state ch 0 = MM_STREAM_STATE_ACTIVE"
proof -
  have "map_option (\<lambda>(rc, _, ch, _). (rc, s_is_bundled (ch_streams ch ! 0)))
      (mm_channel_fsm_fn (calm_env 2) MM_CHANNEL_EVT_START sample_ready sample_world) = Some (0, True)"
    by code_simp
  moreover obtain rc ch w where s: "mm_channel_start (calm_env 2) sample_ready sample_world = Some (rc, ch, w)" "started_post sample_ready rc ch"
    using start_post_runs [OF sample_ready_inv calm_ok sample_start_ok, of sample_world] by (auto simp: runs_iff)
  ultimately have rc: "rc = 0" "s_is_bundled (ch_streams ch ! 0)"
    and eq: "mm_channel_fsm_fn (calm_env 2) MM_CHANNEL_EVT_START sample_ready sample_world =
        Some (0, No_out, ch\<lparr>ch_state := MM_CHANNEL_STATE_ACTIVE, ch_lock := False\<rparr>, w)"
    using sample_ready_inv(2) by (auto simp: mm_channel_fsm_fn_def mm_channel_fsm_fn_stopped_def split: if_splits)
  have inv: "chan_inv (ch\<lparr>ch_state := MM_CHANNEL_STATE_ACTIVE, ch_lock := False\<rparr>)"
    using channel_evt_runs [OF sample_ready_inv(1) calm_ok sample_start_ok, of sample_world] eq by (simp add: evt_post_def)
  have cb: "bd_super_buf_notify_cb (ch_bundle sample_ready) \<noteq> None" "slot_state sample_ready 0 = MM_STREAM_STATE_CFG"
    by (simp_all add: sample_ready_def sample_cfg_def)
  show thesis
    by (rule that [OF eq inv]) (use s(2) cb rc in \<open>auto simp: started_post_def settled_def\<close>)
qed

theorem channel_stop_complete_witness:
  "\<exists>ch w ch' w'. mm_channel_fsm_fn (calm_env 2) MM_CHANNEL_EVT_START sample_ready sample_world = Some (0, No_out, ch, w) \<and>
     mm_channel_fsm_fn (calm_env 2) MM_CHANNEL_EVT_STOP ch w = Some (0, No_out, ch', w') \<and> ch_bundle ch' = zero_bundle"
proof -
  obtain ch w where s: "mm_channel_fsm_fn (calm_env 2) MM_CHANNEL_EVT_START sample_ready sample_world = Some (0, No_out, ch, w)"
    "chan_inv ch" "ch_state ch = MM_CHANNEL_STATE_ACTIVE" "bd_is_active (ch_bundle ch)"
    by (rule sample_active)
  then show ?thesis using channel_stop_complete [OF s(2) calm_ok s(3), of w] by blast
qed


lemma sample_ready_used:
  "chan_base sample_ready" "\<forall>i \<in> set (used sample_ready). s_stream_info (ch_streams sample_ready ! i) \<noteq> None"
  "1 \<in> set (used sample_ready)" "is_meta sample_ready 1"
proof -
  show "chan_base sample_ready" using sample_ready_inv slots_in_base [of rest_states sample_ready] by (simp add: chan_inv_def)
  show "\<forall>i \<in> set (used sample_ready). s_stream_info (ch_streams sample_ready ! i) \<noteq> None"
    by (simp add: used_def upt_rec) (simp add: sample_ready_def sample_cfg_def zero_stream_def nth_Cons')
  show "1 \<in> set (used sample_ready)" "is_meta sample_ready 1" by (simp_all add: sample_ready_def sample_cfg_def is_meta_def)
qed


text \<open>
  C17. A stream that has been added is found. When \<^verbatim>\<open>mm_channel_add_stream\<close> returns a handle, a slot
  that was free holds an acquired stream, a search by that handle leads to it, and the other streams
  are as before; the handle differs from the handles of all of them.
\<close>

theorem channel_add_stream_found:
  assumes "chan_base ch" and "env_ok e" and "chan_live ch w" and "mm_channel_add_stream e ch w = Some (h, ch', w')" and "h \<noteq> 0"
  shows "\<exists>i < MAX_STREAM_NUM_IN_BUNDLE. slot_state ch i = MM_STREAM_STATE_NOTUSED \<and>
    mm_channel_util_get_stream_by_handler ch' h = Some i \<and> slot_state ch' i = MM_STREAM_STATE_ACQUIRED \<and>
    (\<forall>k < MAX_STREAM_NUM_IN_BUNDLE. k \<noteq> i \<longrightarrow> ch_streams ch' ! k = ch_streams ch ! k \<and> s_my_hdl (ch_streams ch ! k) \<noteq> h)"
proof -
  have b: "chan_base ch'" and a: "added ch w h ch'" using add_stream_runs [OF assms(1-3)] assms(4) by (auto simp: runs_iff)
  have len: "length (ch_streams ch) = 4" using assms(1) by (simp add: chan_base_def)
  obtain i pt s where i: "find_idx (\<lambda>s. s_state s = MM_STREAM_STATE_NOTUSED) (ch_streams ch) = Some i"
    and s: "ch' = ch\<lparr>ch_poll_thread := pt, ch_streams := (ch_streams ch)[i := s]\<rparr>" "s_my_hdl s = h" "s_state s = MM_STREAM_STATE_ACQUIRED"
    using a assms(5) by (auto simp: added_def split: option.splits if_splits)
  have i4: "i < 4" "slot_state ch i = MM_STREAM_STATE_NOTUSED" using find_idxD [OF i] len by auto
  have f: "mm_channel_util_get_stream_by_handler ch' h = Some i"
    using lookup_slot [OF b, of i] i4(1) s len by simp
  have "s_my_hdl (ch_streams ch ! k) \<noteq> h" if "k < 4" "k \<noteq> i" for k
  proof
    assume h: "s_my_hdl (ch_streams ch ! k) = h"
    then have eq: "s_my_hdl (ch_streams ch' ! k) = h" using s(1) that by simp
    then have "slot_state ch' k \<noteq> MM_STREAM_STATE_NOTUSED" using slot_hdl [OF b that(1)] assms(5) by (simp add: word_greater_zero_iff)
    then show False using lookup_slot [OF b that(1)] eq f that(2) by simp
  qed
  then show ?thesis using i4 f s len by (intro exI [of _ i]) auto
qed

theorem channel_add_stream_found_witness:
  "\<exists>h ch' w' i. mm_channel_add_stream (calm_env 2) sample_ready sample_world = Some (h, ch', w') \<and> h \<noteq> 0 \<and>
     mm_channel_util_get_stream_by_handler ch' h = Some i \<and> slot_state ch' i = MM_STREAM_STATE_ACQUIRED"
proof -
  have live: "chan_live sample_ready sample_world"
    using sample_channel_live by (simp add: chan_live_def sample_ready_def)
  have "map_option (\<lambda>r. fst r \<noteq> 0) (mm_channel_add_stream (calm_env 2) sample_ready sample_world) = Some True" by code_simp
  then obtain h ch' w' where r: "mm_channel_add_stream (calm_env 2) sample_ready sample_world = Some (h, ch', w')" "h \<noteq> 0" by auto
  from channel_add_stream_found [OF sample_ready_used(1) calm_ok live r] r show ?thesis by blast
qed

text \<open>
  C19. A start that fails leaves the threads of the bundle behind. The streams are rolled back, but
  the two threads launched for the bundle keep running and the bundle stays marked active, while the
  channel counts as stopped, a state in which no event releases them.
\<close>

theorem channel_failed_start_leaves_threads:
  assumes "chan_inv ch" and "env_ok e" and "ch_state ch = MM_CHANNEL_STATE_STOPPED" and "chan_evt_ok MM_CHANNEL_EVT_START ch w"
    and "bd_super_buf_notify_cb (ch_bundle ch) \<noteq> None" and "mm_channel_fsm_fn e MM_CHANNEL_EVT_START ch w = Some (rc, out, ch', w')" and "rc \<noteq> 0"
  shows "ch_state ch' = MM_CHANNEL_STATE_STOPPED \<and> bd_is_active (ch_bundle ch') \<and> ct_running (ch_cmd_thread ch') \<and> ct_running (ch_cb_thread ch')"
proof -
  obtain rc1 ch1 w1 where r: "mm_channel_start e ch w = Some (rc1, ch1, w1)" and p: "started_post ch rc1 ch1"
    using start_post_runs [OF assms(1,3,2,4), of w] by (auto simp: runs_iff)
  then show ?thesis
    using assms(3,5-7) by (auto simp: mm_channel_fsm_fn_def mm_channel_fsm_fn_stopped_def started_post_def)
qed

text \<open>Surroundings in which the client has no buffers.\<close>

definition starved_env :: env where
  "starved_env = (calm_env 2)\<lparr>e_get_bufs := (\<lambda>_. \<lparr>gb_rc = -1, gb_num_bufs = 0, gb_reg_flags = None, gb_bufs = None\<rparr>)\<rparr>"

lemma starved_ok: "env_ok starved_env"
  using calm_ok by (simp add: env_ok_def starved_env_def alloc_ok_def mem_ok_def)

theorem channel_failed_start_leaves_threads_witness:
  "\<exists>rc out ch' w'. mm_channel_fsm_fn starved_env MM_CHANNEL_EVT_START sample_ready sample_world = Some (rc, out, ch', w') \<and> rc \<noteq> 0 \<and>
     ch_state ch' = MM_CHANNEL_STATE_STOPPED \<and> ct_running (ch_cmd_thread ch')"
proof -
  have "map_option (\<lambda>r. fst r \<noteq> 0) (mm_channel_fsm_fn starved_env MM_CHANNEL_EVT_START sample_ready sample_world) = Some True" by code_simp
  then obtain rc out ch' w' where r: "mm_channel_fsm_fn starved_env MM_CHANNEL_EVT_START sample_ready sample_world = Some (rc, out, ch', w')" "rc \<noteq> 0"
    by auto
  have cb: "bd_super_buf_notify_cb (ch_bundle sample_ready) \<noteq> None" by (simp add: sample_ready_def)
  from channel_failed_start_leaves_threads [OF sample_ready_inv(1) starved_ok sample_ready_inv(2) sample_start_ok cb r] r show ?thesis by blast
qed

text \<open>
  C18. Stopping and starting again is not survived. Take an active channel with a bundle, stop it
  and start it again successfully: stopping has erased the callback, so the second start launches no
  thread, but the streams still count as bundled, and the first frame any of them brings is posted
  to the queue of a thread that does not exist, which follows a null pointer.
\<close>

theorem channel_restart_faults:
  assumes "chan_inv ch" and "env_ok e" and "ch_state ch = MM_CHANNEL_STATE_ACTIVE" and "bd_is_active (ch_bundle ch)"
    and "mm_channel_fsm_fn e MM_CHANNEL_EVT_STOP ch w = Some (rc1, out1, ch1, w1)"
    and "mm_channel_fsm_fn e MM_CHANNEL_EVT_START ch1 w1 = Some (0, out2, ch2, w2)"
    and "i < MAX_STREAM_NUM_IN_BUNDLE" and "slot_state ch i = MM_STREAM_STATE_ACTIVE" and "s_is_bundled (ch_streams ch ! i)"
    and "mm_stream_read_msm_frame e (ch_streams ch2 ! i) w3 = Some (0, bi, s', w4)"
  shows "chan_do e (Act_frame i) (ch2, w3) = None"
proof -
  obtain ch0 w0 where r: "mm_channel_stop e ch w = Some (0, ch0, w0)" and p: "stopped_post ch ch0"
    using stop_event_runs [OF assms(1,3,2), of w] by (auto simp: runs_iff)
  have ch1: "ch1 = ch0\<lparr>ch_state := MM_CHANNEL_STATE_STOPPED, ch_lock := False\<rparr>"
    using assms(3,5) r by (simp add: mm_channel_fsm_fn_def mm_channel_fsm_fn_active_def)
  have b1: "chan_base ch1" using p by (auto simp: ch1 stopped_post_def chan_base_def)
  have st1: "\<forall>k < 4. slot_state ch1 k \<in> {MM_STREAM_STATE_NOTUSED, MM_STREAM_STATE_CFG}"
    using p by (simp add: ch1 stopped_post_def settled_def)
  have s1: "slot_state ch1 i = MM_STREAM_STATE_CFG" "s_is_bundled (ch_streams ch1 ! i)" "ch_cmd_thread ch1 = zero_cmd_thread"
    "bd_super_buf_notify_cb (ch_bundle ch1) = None"
    using p assms(4,7-9) by (auto simp: ch1 stopped_post_def settled_def stream_id_def zero_bundle_def)
  have e: "alloc_ok e" "mem_ok e" using assms(2) by (auto simp: env_ok_def)
  obtain rc c w5 where c: "mm_channel_start e ch1 w1 = Some (rc, c, w5)" "chan_like ch1 c"
      "settled ch1 (if rc = 0 then MM_STREAM_STATE_ACTIVE else MM_STREAM_STATE_CFG) c"
    using channel_start_runs [OF b1 e st1, of w1] s1(4) by (auto simp: runs_iff start_bundle_def)
  have rc: "rc = 0" and ch2: "ch2 = c\<lparr>ch_state := MM_CHANNEL_STATE_ACTIVE, ch_lock := False\<rparr>"
    using assms(6) c(1) by (auto simp: mm_channel_fsm_fn_def mm_channel_fsm_fn_stopped_def ch1 split: if_splits)
  have t: "ct_cb (ch_cmd_thread ch2) = None" "slot_state ch2 i = MM_STREAM_STATE_ACTIVE" "s_is_bundled (ch_streams ch2 ! i)" "chan_base ch2"
    using c(2,3) s1 rc assms(7) chan_envD(5) [of c ch1]
    by (auto simp: ch2 chan_like_def settled_def stream_id_def zero_cmd_thread_def chan_base_def)
  have bd: "s_is_bundled s'" using read_frame_bundled [OF assms(10)] t(3) by simp
  have "mm_stream_handle_rcvd_buf e bi h (s'\<lparr>s_buf_status := x\<rparr>) ch2 w4 = None" for h x
    using bd e(2) t(1) by (auto simp: mm_stream_handle_rcvd_buf_def cmd_thread_post_def Let_def split_beta bind_eq_None_conv)
  then have "mm_stream_data_notify e (ch_streams ch2 ! i) ch2 w3 = None"
    using t(2) assms(10) by (auto simp: mm_stream_data_notify_def Let_def bind_eq_None_conv)
  then show ?thesis using t(4) assms(7) by (simp add: nth_opt_def chan_base_def)
qed

theorem channel_restart_faults_witness:
  "\<exists>ch w ch1 w1 ch2 w2. mm_channel_fsm_fn (calm_env 2) MM_CHANNEL_EVT_START sample_ready sample_world = Some (0, No_out, ch, w) \<and>
     mm_channel_fsm_fn (calm_env 2) MM_CHANNEL_EVT_STOP ch w = Some (0, No_out, ch1, w1) \<and>
     mm_channel_fsm_fn (calm_env 2) MM_CHANNEL_EVT_START ch1 w1 = Some (0, No_out, ch2, w2) \<and>
     chan_do (calm_env 2) (Act_frame 0) (ch2, w2) = None"
proof -
  let ?e = "calm_env 2"
  obtain ch w where s: "mm_channel_fsm_fn ?e MM_CHANNEL_EVT_START sample_ready sample_world = Some (0, No_out, ch, w)"
    "chan_inv ch" "ch_state ch = MM_CHANNEL_STATE_ACTIVE" "bd_is_active (ch_bundle ch)" "s_is_bundled (ch_streams ch ! 0)"
    "slot_state ch 0 = MM_STREAM_STATE_ACTIVE"
    by (rule sample_active)
  have "do { (_, _, ch, w) \<leftarrow> mm_channel_fsm_fn ?e MM_CHANNEL_EVT_START sample_ready sample_world;
      (rc1, out1, ch1, w1) \<leftarrow> mm_channel_fsm_fn ?e MM_CHANNEL_EVT_STOP ch w;
      (rc2, out2, ch2, w2) \<leftarrow> mm_channel_fsm_fn ?e MM_CHANNEL_EVT_START ch1 w1;
      (rc3, _) \<leftarrow> mm_stream_read_msm_frame ?e (ch_streams ch2 ! 0) w2;
      Some (rc1, out1, rc2, out2, rc3) } = Some (0, No_out, 0, No_out, 0)"
    by code_simp
  then obtain ch1 w1 ch2 w2 bi s' w3 where r: "mm_channel_fsm_fn ?e MM_CHANNEL_EVT_STOP ch w = Some (0, No_out, ch1, w1)"
    "mm_channel_fsm_fn ?e MM_CHANNEL_EVT_START ch1 w1 = Some (0, No_out, ch2, w2)"
    "mm_stream_read_msm_frame ?e (ch_streams ch2 ! 0) w2 = Some (0, bi, s', w3)"
    using s(1) by (auto simp: Some_simps)
  have "chan_do ?e (Act_frame 0) (ch2, w2) = None"
    by (rule channel_restart_faults [OF s(2) calm_ok s(3,4) r(1,2) _ s(6,5) r(3)]) simp
  then show ?thesis using s(1) r(1,2) by blast
qed

text \<open>
  C21. The bundle information lists the image streams: under the handle of the channel, the identifiers
  the server has given to the streams that do not carry metadata, in the order of their slots, with
  their number, and zero in the places that are left.
\<close>

theorem channel_bundle_info_lists_streams:
  assumes "chan_base ch" and "\<forall>i \<in> set (used ch). s_stream_info (ch_streams ch ! i) \<noteq> None"
  shows "mm_channel_get_bundle_info ch = (let ids = map (\<lambda>i. s_server_stream_id (ch_streams ch ! i))
      [i \<leftarrow> [0..<MAX_STREAM_NUM_IN_BUNDLE]. slot_state ch i \<noteq> MM_STREAM_STATE_NOTUSED \<and> \<not> is_meta ch i]
    in Some (0, \<lparr>bundle_id = ch_my_hdl ch, num_of_streams = of_nat (length ids),
        stream_ids = ids @ replicate (MAX_STREAM_NUM_IN_BUNDLE - length ids) 0\<rparr>))"
  using get_bundle_info [OF assms] by (simp only: bundle_info_def Let_def)

theorem channel_bundle_info_lists_streams_witness:
  "mm_channel_get_bundle_info sample_ready = Some (0, \<lparr>bundle_id = 0x200, num_of_streams = 1, stream_ids = [0, 0, 0, 0]\<rparr>)"
proof -
  have m: "\<not> is_meta sample_ready 0" "is_meta sample_ready (Suc 0)"
    by (simp_all add: is_meta_def sample_ready_def sample_cfg_def)
  have s: "slot_state sample_ready 0 \<noteq> MM_STREAM_STATE_NOTUSED" "slot_state sample_ready 2 = MM_STREAM_STATE_NOTUSED"
    "slot_state sample_ready 3 = MM_STREAM_STATE_NOTUSED" "s_server_stream_id (ch_streams sample_ready ! 0) = 0" "ch_my_hdl sample_ready = 0x200"
    by (simp_all add: sample_ready_def sample_cfg_def sample_buffed_def sample_stream_def sample_channel_def zero_stream_def)
  have "[0..<4] = [0, Suc 0, 2, 3]" by (simp add: upt_rec)
  then show ?thesis
    using channel_bundle_info_lists_streams [OF sample_ready_used(1,2)] m s by (simp add: numeral_eq_Suc)
qed

end
