(* ===== verification/Camera_Inv.thy ===== *)
theory Camera_Inv
  imports Interface Channel_Correct
begin

text \<open>
  The invariant of an open camera, and that every operation on a camera returns, releases the lock
  of the camera and keeps the invariant.
\<close>

section \<open>Invariant\<close>

definition evt_thread_ok :: "mm_camera_cmd_thread_t \<Rightarrow> bool" where
  "evt_thread_ok t \<longleftrightarrow> ct_running t \<and> ct_cb t = Some Fn_mm_camera_dispatch_app_event \<and>
     (\<forall>c \<in> set (ct_cmd_queue t). \<exists>ev. c = MM_CAMERA_CMD_TYPE_EVT_CB ev)"

definition evt_poll_ok :: "mm_camera_poll_thread_t \<Rightarrow> bool" where
  "evt_poll_ok pt \<longleftrightarrow> poll_wf pt \<and> pt_running pt \<and> pt_poll_type pt = MM_CAMERA_POLL_TYPE_EVT"

text \<open>An entry of the table of channels is erased or holds a channel of the camera.\<close>

definition ch_entry :: "cam_obj_ref \<Rightarrow> nat \<Rightarrow> mm_channel_t \<Rightarrow> bool" where
  "ch_entry cam i ch \<longleftrightarrow> ch = zero_channel \<or> (chan_inv ch \<and> ch_state ch \<noteq> MM_CHANNEL_STATE_NOTUSED \<and> \<not> ch_lock ch \<and>
     ch_my_hdl ch \<noteq> 0 \<and> mm_camera_util_get_index_by_handler (ch_my_hdl ch) = of_nat i \<and> ch_cam_obj ch = Some cam)"

lemma unused_entry: "ch_entry r i ch \<Longrightarrow> ch_state ch = MM_CHANNEL_STATE_NOTUSED \<longleftrightarrow> ch = zero_channel"
  by (auto simp: ch_entry_def zero_channel_def)

definition cam_inv :: "mm_camera_obj_t \<Rightarrow> bool" where
  "cam_inv cam \<longleftrightarrow> length (cam_ch cam) = MM_CAMERA_CHANNEL_MAX \<and>
     (\<forall>i < MM_CAMERA_CHANNEL_MAX. ch_entry (cam_ref cam) i (cam_ch cam ! i)) \<and>
     length (cam_evt cam) = MM_CAMERA_EVT_ENTRY_MAX \<and> evt_thread_ok (cam_evt_thread cam) \<and> evt_poll_ok (cam_evt_poll_thread cam)"

definition cam_id :: "mm_camera_obj_t \<Rightarrow> uint32_t \<times> uint32_t \<times> int \<times> int \<times> int" where
  "cam_id cam = (cam_my_hdl cam, cam_vtbl_handle cam, cam_ref_count cam, cam_ctrl_fd cam, cam_ds_fd cam)"

text \<open>What an operation leaves of a camera.\<close>

definition op_post :: "mm_camera_obj_t \<Rightarrow> 'a \<times> mm_camera_obj_t \<times> world \<Rightarrow> bool" where
  "op_post cam = (\<lambda>(r, cam', w'). cam_inv cam' \<and> \<not> cam_lock cam' \<and> cam_id cam' = cam_id cam)"

lemma cam_inv_simps [simp]:
  "cam_inv (unlock cam) = cam_inv cam" "cam_inv (cam\<lparr>cam_lock := l\<rparr>) = cam_inv cam" "cam_inv (cam\<lparr>cam_reg_count := n\<rparr>) = cam_inv cam"
  "cam_inv (cam\<lparr>cam_evt_rcvd := v\<rparr>) = cam_inv cam"
  by (simp_all add: cam_inv_def unlock_def cam_ref_def)

lemma cam_id_simps [simp]:
  "cam_id (unlock cam) = cam_id cam" "cam_id (cam\<lparr>cam_lock := l\<rparr>) = cam_id cam" "cam_id (cam\<lparr>cam_ch := cs\<rparr>) = cam_id cam"
  "cam_id (cam\<lparr>cam_evt := ev\<rparr>) = cam_id cam" "cam_id (cam\<lparr>cam_reg_count := n\<rparr>) = cam_id cam"
  "cam_id (cam\<lparr>cam_evt_rcvd := v\<rparr>) = cam_id cam" "cam_id (cam\<lparr>cam_evt_thread := t\<rparr>) = cam_id cam"
  "\<not> cam_lock (unlock cam)"
  by (simp_all add: cam_id_def unlock_def)

lemma op_post_unlock: "cam_inv cam \<Longrightarrow> op_post cam (r, unlock (cam\<lparr>cam_lock := True\<rparr>), w)"
  by (simp add: op_post_def)

section \<open>Operations that do not touch channels\<close>

lemma plain_ops:
  assumes "cam_inv cam"
  shows "runs (mm_camera_query_capability e (cam\<lparr>cam_lock := True\<rparr>) w) (op_post cam)"
    and "runs (mm_camera_set_parms e p (cam\<lparr>cam_lock := True\<rparr>) w) (op_post cam)"
    and "runs (mm_camera_get_parms e p (cam\<lparr>cam_lock := True\<rparr>) w) (op_post cam)"
    and "runs (mm_camera_do_auto_focus e (cam\<lparr>cam_lock := True\<rparr>) w) (op_post cam)"
    and "runs (mm_camera_cancel_auto_focus e (cam\<lparr>cam_lock := True\<rparr>) w) (op_post cam)"
    and "runs (mm_camera_prepare_snapshot e f (cam\<lparr>cam_lock := True\<rparr>) w) (op_post cam)"
  by (simp_all add: mm_camera_query_capability_def mm_camera_set_parms_def mm_camera_get_parms_def mm_camera_do_auto_focus_def
      mm_camera_cancel_auto_focus_def mm_camera_prepare_snapshot_def Let_def split_beta op_post_unlock [OF assms])

lemma buf_ops:
  assumes "cam_inv cam" and "env_ok e"
  shows "runs (mm_camera_map_buf e ty fd sz (cam\<lparr>cam_lock := True\<rparr>) w) (op_post cam)"
    and "runs (mm_camera_unmap_buf e ty (cam\<lparr>cam_lock := True\<rparr>) w) (op_post cam)"
  by (auto simp: mm_camera_map_buf_def mm_camera_unmap_buf_def runs_bind op_post_unlock [OF assms(1)]
      intro!: runs_mono [OF sendmsg_runs [OF assms(2)]])

lemma register_op:
  assumes "cam_inv cam"
  shows "runs (mm_camera_register_event_notify cb ud (cam\<lparr>cam_lock := True\<rparr>) w) (op_post cam)"
  using assms
  by (auto simp: mm_camera_register_event_notify_def mm_camera_register_event_notify_internal_def op_post_def cam_inv_def cam_ref_def unlock_def cam_id_def
      split: option.split)

section \<open>Operations on channels\<close>

lemma entry_lookup:
  assumes "mm_camera_util_get_channel_by_handler cam h = Some i" and "cam_inv cam"
  shows "i < MM_CAMERA_CHANNEL_MAX" and "ch_entry (cam_ref cam) i (cam_ch cam ! i)"
  using find_idxD [OF assms(1) [unfolded mm_camera_util_get_channel_by_handler_def]] assms(2) by (auto simp: cam_inv_def)

lemma cam_inv_ch:
  assumes "cam_inv cam" and "ch_entry (cam_ref cam) i ch"
  shows "cam_inv (cam\<lparr>cam_ch := (cam_ch cam)[i := ch]\<rparr>)"
proof -
  have "ch_entry (cam_ref cam) k ((cam_ch cam)[i := ch] ! k)" if "k < 16" for k
    using assms that by (cases "k = i"; cases "i < length (cam_ch cam)") (auto simp: cam_inv_def)
  then show ?thesis using assms(1) by (simp add: cam_inv_def cam_ref_def)
qed

lemma evt_ok_lock [simp]: "chan_evt_ok evt (ch\<lparr>ch_lock := l\<rparr>) w = chan_evt_ok evt ch w"
  by (cases "ch_state ch"; cases evt) (simp_all add: chan_evt_ok_def chan_live_def used_def)

lemma zero_evt: "mm_channel_fsm_fn e evt (zero_channel\<lparr>ch_lock := l\<rparr>) w = Some (-1, No_out, zero_channel, w)"
  by (simp add: mm_channel_fsm_fn_def mm_channel_fsm_fn_notused_def zero_channel_def)

text \<open>An event for a channel in the table.\<close>

lemma entry_evt_runs:
  assumes "ch_entry r i ch" and "env_ok e" and "ch \<noteq> zero_channel \<longrightarrow> chan_evt_ok evt ch w" and "evt \<noteq> MM_CHANNEL_EVT_DELETE"
  shows "runs (mm_channel_fsm_fn e evt (ch\<lparr>ch_lock := True\<rparr>) w) (\<lambda>(rc, out, ch', w'). ch_entry r i ch')"
proof (cases "ch = zero_channel")
  case True
  then show ?thesis by (simp add: zero_evt ch_entry_def)
next
  case False
  have inv: "chan_inv (ch\<lparr>ch_lock := True\<rparr>)" "chan_evt_ok evt (ch\<lparr>ch_lock := True\<rparr>) w" using assms(1,3) False by (auto simp: ch_entry_def)
  show ?thesis
    by (rule runs_mono [OF channel_evt_runs [OF inv(1) assms(2) inv(2)]])
      (use assms(1,4) False in \<open>auto simp: ch_entry_def evt_post_def kept_def\<close>)
qed

definition call_ok :: "mm_channel_evt_type_t \<Rightarrow> uint32_t \<Rightarrow> mm_camera_obj_t \<Rightarrow> world \<Rightarrow> bool" where
  "call_ok evt h cam w \<longleftrightarrow>
     (case mm_camera_util_get_channel_by_handler cam h of
        None \<Rightarrow> True
      | Some i \<Rightarrow> ch_state (cam_ch cam ! i) = MM_CHANNEL_STATE_NOTUSED \<or> chan_evt_ok evt (cam_ch cam ! i) w)"

lemma lookup_lock [simp]: "mm_camera_util_get_channel_by_handler (cam\<lparr>cam_lock := l\<rparr>) h = mm_camera_util_get_channel_by_handler cam h"
  by (simp add: mm_camera_util_get_channel_by_handler_def)

lemma channel_call_runs:
  assumes "cam_inv cam" and "env_ok e" and "call_ok evt h cam w" and "evt \<noteq> MM_CHANNEL_EVT_DELETE"
  shows "runs (channel_call e h evt (cam\<lparr>cam_lock := True\<rparr>) w) (op_post cam)"
proof (cases "mm_camera_util_get_channel_by_handler cam h")
  case None
  then show ?thesis by (simp add: channel_call_def op_post_unlock [OF assms(1)])
next
  case (Some i)
  note en = entry_lookup [OF Some assms(1)]
  have ev: "cam_ch cam ! i \<noteq> zero_channel \<longrightarrow> chan_evt_ok evt (cam_ch cam ! i) w" using assms(3) Some unused_entry [OF en(2)] by (auto simp: call_ok_def)
  have lk: "\<not> ch_lock (cam_ch cam ! i)" using en(2) by (auto simp: ch_entry_def zero_channel_def)
  have post: "op_post cam (r, (unlock (cam\<lparr>cam_lock := True\<rparr>))\<lparr>cam_ch := (cam_ch cam)[i := ch]\<rparr>, w')"
    if "ch_entry (cam_ref cam) i ch" for r ch w'
  proof -
    have "(unlock (cam\<lparr>cam_lock := True\<rparr>))\<lparr>cam_ch := (cam_ch cam)[i := ch]\<rparr> = unlock (cam\<lparr>cam_ch := (cam_ch cam)[i := ch]\<rparr>)"
      by (simp add: unlock_def)
    then show ?thesis using cam_inv_ch [OF assms(1) that] by (simp add: op_post_def)
  qed
  show ?thesis
    using Some lk unfolding channel_call_def
    by (auto simp: runs_bind intro!: runs_mono [OF entry_evt_runs [OF en(2) assms(2) ev assms(4)]] intro: post)
qed

lemma channel_rc_runs:
  assumes "cam_inv cam" and "env_ok e" and "call_ok evt h cam w" and "evt \<noteq> MM_CHANNEL_EVT_DELETE"
  shows "runs (channel_rc d e h evt (cam\<lparr>cam_lock := True\<rparr>) w) (op_post cam)"
  unfolding channel_rc_def runs_bind by (rule runs_mono [OF channel_call_runs [OF assms]]) (auto simp: op_post_def)

lemma channel_out_ops:
  assumes "cam_inv cam" and "env_ok e"
  shows "call_ok MM_CHANNEL_EVT_GET_BUNDLE_INFO h cam w \<Longrightarrow> runs (mm_camera_get_bundle_info e h (cam\<lparr>cam_lock := True\<rparr>) w) (op_post cam)"
    and "call_ok MM_CHANNEL_EVT_ADD_STREAM h cam w \<Longrightarrow> runs (mm_camera_add_stream e h (cam\<lparr>cam_lock := True\<rparr>) w) (op_post cam)"
  unfolding mm_camera_get_bundle_info_def mm_camera_add_stream_def runs_bind
  by (rule runs_mono [OF channel_call_runs [OF assms]]; auto simp: op_post_def)+

text \<open>A channel is deleted when it is stopped and no thread of a bundle is left.\<close>

definition del_ok :: "uint32_t \<Rightarrow> mm_camera_obj_t \<Rightarrow> bool" where
  "del_ok h cam \<longleftrightarrow>
     (case mm_camera_util_get_channel_by_handler cam h of
        None \<Rightarrow> True
      | Some i \<Rightarrow> ch_state (cam_ch cam ! i) = MM_CHANNEL_STATE_NOTUSED \<or> (ch_state (cam_ch cam ! i) = MM_CHANNEL_STATE_STOPPED \<and> \<not> bd_is_active (ch_bundle (cam_ch cam ! i))))"

lemma del_channel_op:
  assumes "cam_inv cam" and "env_ok e" and "del_ok h cam"
  shows "runs (mm_camera_del_channel e h (cam\<lparr>cam_lock := True\<rparr>) w) (op_post cam)"
proof (cases "mm_camera_util_get_channel_by_handler cam h")
  case None
  then show ?thesis by (simp add: mm_camera_del_channel_def channel_rc_def channel_call_def op_post_unlock [OF assms(1)])
next
  case (Some i)
  let ?ch = "cam_ch cam ! i"
  note en = entry_lookup [OF Some assms(1)]
  have lk: "\<not> ch_lock ?ch" using en(2) by (auto simp: ch_entry_def zero_channel_def)
  have z: "ch_entry (cam_ref cam) i zero_channel" by (simp add: ch_entry_def)
  have post: "op_post cam (r, (unlock (cam\<lparr>cam_lock := True\<rparr>))\<lparr>cam_ch := (cam_ch cam)[i := zero_channel]\<rparr>, w')" for r w'
  proof -
    have "(unlock (cam\<lparr>cam_lock := True\<rparr>))\<lparr>cam_ch := (cam_ch cam)[i := zero_channel]\<rparr> = unlock (cam\<lparr>cam_ch := (cam_ch cam)[i := zero_channel]\<rparr>)"
      by (simp add: unlock_def)
    then show ?thesis using cam_inv_ch [OF assms(1) z] by (simp add: op_post_def)
  qed
  have "runs (mm_channel_fsm_fn e MM_CHANNEL_EVT_DELETE (?ch\<lparr>ch_lock := True\<rparr>) w) (\<lambda>_. True)"
  proof (cases "?ch = zero_channel")
    case True
    then show ?thesis by (simp add: zero_evt)
  next
    case False
    then have "chan_inv (?ch\<lparr>ch_lock := True\<rparr>)" using en(2) by (auto simp: ch_entry_def)
    moreover have "chan_evt_ok MM_CHANNEL_EVT_DELETE (?ch\<lparr>ch_lock := True\<rparr>) w" by (cases "ch_state ?ch") (simp_all add: chan_evt_ok_def)
    ultimately show ?thesis by (intro runs_mono [OF channel_evt_runs [OF _ assms(2)]]) auto
  qed
  then show ?thesis
    using Some lk post unfolding mm_camera_del_channel_def channel_rc_def channel_call_def
    by (auto simp: runs_bind elim!: runs_mono)
qed

definition lib_env :: "env \<Rightarrow> bool" where
  "lib_env e \<longleftrightarrow> env_ok e \<and> (\<forall>tr. 0 \<le> e_rc e tr Sys_pipe)"

lemma add_channel_op:
  assumes "cam_inv cam" and "lib_env e"
  shows "runs (mm_camera_add_channel e attr cb ud (cam\<lparr>cam_lock := True\<rparr>) w) (op_post cam)"
proof (cases "find_idx (\<lambda>ch. ch_state ch = MM_CHANNEL_STATE_NOTUSED) (cam_ch cam)")
  case None
  then show ?thesis by (simp add: mm_camera_add_channel_def op_post_unlock [OF assms(1)])
next
  case (Some i)
  define h where "h = fst (mm_camera_util_generate_handler (of_nat i) w)"
  define w1 where "w1 = snd (mm_camera_util_generate_handler (of_nat i) w)"
  let ?r = "mm_channel_init e attr cb ud (new_channel h (cam_ref cam)) w1"
  let ?ch = "fst (snd ?r)"
  have eq: "mm_channel_init e attr cb ud (zero_channel\<lparr>ch_my_hdl := h, ch_state := MM_CHANNEL_STATE_STOPPED, ch_cam_obj := Some (cam_ref cam)\<rparr>) w1 = ?r"
    by (simp add: mm_channel_init_def new_channel_def set_queue_def Let_def split_beta split: option.split)
  have f: "ch_state ?ch = MM_CHANNEL_STATE_STOPPED" "ch_my_hdl ?ch = h" "ch_cam_obj ?ch = Some (cam_ref cam)" "\<not> ch_lock ?ch"
    by (simp_all add: mm_channel_init_def new_channel_def set_queue_def zero_channel_def Let_def split_beta split: option.split)
  have "chan_inv ?ch" by (rule init_inv) (use assms(2) in \<open>simp add: lib_env_def\<close>)
  then have en: "ch_entry (cam_ref cam) i ?ch"
    using f hdl.gen_nonzero [of "of_nat i" w] hdl.idx_gen [of "of_nat i" w] by (simp add: ch_entry_def h_def)
  have "(unlock (cam\<lparr>cam_lock := True\<rparr>))\<lparr>cam_ch := (cam_ch cam)[i := ?ch]\<rparr> = unlock (cam\<lparr>cam_ch := (cam_ch cam)[i := ?ch]\<rparr>)"
    by (simp add: unlock_def)
  then have "op_post cam (h, (unlock (cam\<lparr>cam_lock := True\<rparr>))\<lparr>cam_ch := (cam_ch cam)[i := ?ch]\<rparr>, snd (snd ?r))"
    using cam_inv_ch [OF assms(1) en] by (simp add: op_post_def)
  moreover have "mm_camera_add_channel e attr cb ud (cam\<lparr>cam_lock := True\<rparr>) w =
      Some (h, (unlock (cam\<lparr>cam_lock := True\<rparr>))\<lparr>cam_ch := (cam_ch cam)[i := ?ch]\<rparr>, snd (snd ?r))"
    unfolding eq [symmetric] using Some
    by (simp add: mm_camera_add_channel_def h_def w1_def Let_def split_beta cam_ref_def)
  ultimately show ?thesis by simp
qed

text \<open>A buffer is returned to a channel that knows it.\<close>

definition qbuf_ok :: "uint32_t \<Rightarrow> mm_camera_buf_def_t option \<Rightarrow> mm_camera_obj_t \<Rightarrow> bool" where
  "qbuf_ok h buf cam \<longleftrightarrow>
     (case mm_camera_util_get_channel_by_handler cam h of
        None \<Rightarrow> True
      | Some i \<Rightarrow> (case buf of None \<Rightarrow> False | Some b \<Rightarrow> buf_fits (ch_streams (cam_ch cam ! i)) b))"

lemma entry_act_runs:
  assumes "ch_entry r i ch" and "ch \<noteq> zero_channel" and "act_ok e act (ch, w)" and "\<And>evt. act \<noteq> Act_event evt"
  shows "runs (chan_do e act (ch, w)) (\<lambda>(ch', w'). ch_entry r i ch')"
proof -
  have "chan_inv ch" using assms(1,2) by (auto simp: ch_entry_def)
  from thread_act_runs [OF this assms(3,4)] show ?thesis
    by (rule runs_mono) (use assms(1,2) in \<open>auto simp: ch_entry_def thread_post_def kept_def\<close>)
qed

end
