(* ===== verification/Library.thy ===== *)
theory Library
  imports Camera_Inv
begin

text \<open>
  The library as its client sees it: a table of cameras that are opened and closed by reference
  count, the calls of the interface, and the threads that run between them. The invariant of the
  table is kept by every call and every step of a thread, and each of them returns.
\<close>

section \<open>Opening and closing a camera\<close>

lemma evt_poll_add:
  assumes "evt_poll_ok pt"
  shows "runs (mm_camera_poll_thread_add_poll_fd e h fd cb u pt w) (\<lambda>(rc, pt', w'). evt_poll_ok pt')"
  using assms poll_sig_updated [of "pt\<lparr>pt_poll_entries := (pt_poll_entries pt)[poll_idx pt h :=
      \<lparr>pe_fd = fd, pe_notify_cb = cb, pe_handler = h, pe_user_data = u\<rparr>]\<rparr>" e w]
  by (auto simp: evt_poll_ok_def poll_wf_def mm_camera_poll_thread_add_poll_fd_def Let_def elim!: runs_mono)

lemma evt_poll_del:
  assumes "evt_poll_ok pt"
  shows "runs (mm_camera_poll_thread_del_poll_fd e h pt w) (\<lambda>(rc, pt', w'). evt_poll_ok pt')"
  using assms poll_sig_updated [of "pt\<lparr>pt_poll_entries := (pt_poll_entries pt)[poll_idx pt h :=
      (pt_poll_entries pt ! poll_idx pt h)\<lparr>pe_fd := -1, pe_handler := 0, pe_notify_cb := None\<rparr>]\<rparr>" e w]
  by (auto simp: evt_poll_ok_def poll_wf_def mm_camera_poll_thread_del_poll_fd_def Let_def elim!: runs_mono)

lemma evt_sub_runs:
  assumes "evt_poll_ok (cam_evt_poll_thread cam)"
  shows "runs (mm_camera_evt_sub e reg cam w) (\<lambda>(rc, cam', w'). \<exists>pt. evt_poll_ok pt \<and> cam' = cam\<lparr>cam_evt_poll_thread := pt\<rparr>)"
proof -
  have "\<exists>pt. evt_poll_ok pt \<and> cam = cam\<lparr>cam_evt_poll_thread := pt\<rparr>"
    by (rule exI [of _ "cam_evt_poll_thread cam"]) (use assms in simp)
  then show ?thesis
    by (auto simp: mm_camera_evt_sub_def Let_def split_beta runs_bind intro!: runs_mono [OF evt_poll_add [OF assms]] runs_mono [OF evt_poll_del [OF assms]])
qed

definition fresh_camera :: "uint32_t \<Rightarrow> mm_camera_obj_t" where
  "fresh_camera h = zero_camera\<lparr>cam_ref_count := 1, cam_my_hdl := h, cam_vtbl_handle := h\<rparr>"

text \<open>What an entry of the table of cameras satisfies.\<close>

definition cam_entry :: "nat \<Rightarrow> mm_camera_obj_t \<Rightarrow> bool" where
  "cam_entry i cam \<longleftrightarrow> cam_inv cam \<and> \<not> cam_lock cam \<and> mm_camera_util_get_index_by_handler (cam_my_hdl cam) = of_nat i \<and>
     cam_my_hdl cam \<noteq> 0 \<and> cam_vtbl_handle cam = cam_my_hdl cam \<and> 1 \<le> cam_ref_count cam \<and> 0 < cam_ctrl_fd cam \<and> 0 < cam_ds_fd cam"

lemma launch_ok:
  assumes "lib_env e"
  shows "evt_poll_ok (fst (snd (mm_camera_poll_thread_launch e MM_CAMERA_POLL_TYPE_EVT zero_poll_thread w)))"
  using assms
  by (simp add: lib_env_def mm_camera_poll_thread_launch_def mm_camera_poll_thread_def mm_camera_poll_sig_done_def mm_camera_poll_set_state_def
      evt_poll_ok_def poll_wf_def zero_poll_thread_def Let_def split_beta not_less)

lemma opened_inv:
  assumes "evt_poll_ok pt"
  shows "cam_inv ((fresh_camera h)\<lparr>cam_ctrl_fd := a, cam_ds_fd := b,
    cam_evt_thread := mm_camera_cmd_thread_launch Fn_mm_camera_dispatch_app_event u zero_cmd_thread, cam_evt_poll_thread := pt\<rparr>)"
  using assms
  by (simp add: cam_inv_def fresh_camera_def zero_camera_def ch_entry_def evt_thread_ok_def mm_camera_cmd_thread_launch_def)

lemma close_fds_nonpos: "cam_ctrl_fd (fst (close_fds e cam w)) \<le> 0 \<and> cam_ds_fd (fst (close_fds e cam w)) \<le> 0"
  by (simp add: close_fds_def Let_def)

text \<open>Opening gives an open camera, or fails with the descriptors closed.\<close>

lemma open_runs:
  assumes "lib_env e" and "mm_camera_util_get_dev_name h w \<noteq> None" and "h \<noteq> 0" and "mm_camera_util_get_index_by_handler h = of_nat i"
  shows "runs (mm_camera_open e (fresh_camera h) w) (\<lambda>(rc, cam, w').
    if rc = 0 then cam_entry i cam \<and> cam_my_hdl cam = h \<and> cam_ref_count cam = 1
    else rc = -1 \<and> cam_ctrl_fd cam \<le> 0 \<and> cam_ds_fd cam \<le> 0)"
proof -
  obtain name where n: "mm_camera_util_get_dev_name h w = Some name" using assms(2) by blast
  define dn where "dn = take (MM_CAMERA_DEV_NAME_LEN - 1) (''/dev/'' @ name)"
  define a where "a = open_ctrl_fd e dn (MM_CAMERA_DEV_OPEN_TRIES - 1) w"
  define b where "b = open_ds_fd e (MM_CAMERA_DEV_OPEN_TRIES - 1) (snd a)"
  let ?l = "mm_camera_poll_thread_launch e MM_CAMERA_POLL_TYPE_EVT zero_poll_thread (snd b)"
  let ?cam = "(fresh_camera h)\<lparr>cam_ctrl_fd := fst a, cam_ds_fd := fst b, cam_evt_thread := mm_camera_cmd_thread_launch Fn_mm_camera_dispatch_app_event h zero_cmd_thread, cam_evt_poll_thread := fst (snd ?l)\<rparr>"
  have f: "cam_my_hdl (fresh_camera h) = h" "cam_evt_thread (fresh_camera h) = zero_cmd_thread" "cam_evt_poll_thread (fresh_camera h) = zero_poll_thread"
    "cam_ds_fd (fresh_camera h) = 0" by (simp_all add: fresh_camera_def zero_camera_def)
  have ent: "cam_entry i (?cam\<lparr>cam_evt_poll_thread := pt\<rparr>) \<and> cam_my_hdl (?cam\<lparr>cam_evt_poll_thread := pt\<rparr>) = h \<and> cam_ref_count (?cam\<lparr>cam_evt_poll_thread := pt\<rparr>) = 1"
    if "evt_poll_ok pt" "0 < fst a" "0 < fst b" for pt
    using opened_inv [OF that(1), where h = h and a = "fst a" and b = "fst b" and u = h] that assms(3,4) by (simp add: cam_entry_def fresh_camera_def zero_camera_def)
  have sub: "runs (mm_camera_evt_sub e True ?cam (snd (snd ?l))) (\<lambda>(rc, cam', w'). \<exists>pt. evt_poll_ok pt \<and> cam' = ?cam\<lparr>cam_evt_poll_thread := pt\<rparr>)"
    by (rule evt_sub_runs) (use launch_ok [OF assms(1)] in simp)
  have sub': "runs (mm_camera_evt_sub e True ?cam (snd (snd ?l))) (\<lambda>(rc, cam, w'). cam_entry i cam \<and> cam_my_hdl cam = h \<and> cam_ref_count cam = 1)"
    if "0 < fst a" "0 < fst b" by (rule runs_mono [OF sub]) (use ent that in auto)
  have "mm_camera_open e (fresh_camera h) w =
    (if fst a \<le> 0 then Some (-1, close_fds e ((fresh_camera h)\<lparr>cam_ctrl_fd := fst a\<rparr>) (snd a))
     else if fst b \<le> 0 then Some (-1, close_fds e ((fresh_camera h)\<lparr>cam_ctrl_fd := fst a, cam_ds_fd := fst b\<rparr>) (snd b))
     else do { (_, cam, w) \<leftarrow> mm_camera_evt_sub e True ?cam (snd (snd ?l)); Some (0, cam, w) })"
    unfolding mm_camera_open_def a_def b_def dn_def by (simp add: Let_def split_beta f n del: open_ctrl_fd.simps open_ds_fd.simps)
  then show ?thesis
    using sub' close_fds_nonpos by (auto simp: runs_bind split_beta elim!: runs_mono)
qed

text \<open>Closing ends both threads, after the events that wait have been told to the clients.\<close>

lemma evt_dispatch_runs:
  assumes "c = MM_CAMERA_CMD_TYPE_EVT_CB ev"
  shows "runs (mm_camera_dispatch_app_event e c p) (\<lambda>p'. fst p' = fst p)"
  by (simp add: assms mm_camera_dispatch_app_event_def split_beta)

lemma poll_release_runs:
  assumes "env_ok e" and "evt_poll_ok pt"
  shows "runs (mm_camera_poll_thread_release e pt w) (\<lambda>_. True)"
proof -
  have "\<not> e_rc e tr (Sys_write fd) < 1" for fd tr using assms(1) by (simp add: env_ok_def not_less)
  then show ?thesis
    using assms(2) by (auto simp: mm_camera_poll_thread_release_def mm_camera_poll_sig_def evt_poll_ok_def
        mm_camera_poll_proc_pipe_def mm_camera_poll_sig_done_def mm_camera_poll_set_state_def Let_def split_beta)
qed

lemma close_runs:
  assumes "cam_inv cam" and "env_ok e"
  shows "runs (mm_camera_close e cam w) (\<lambda>(rc, cam', w'). rc = 0 \<and> cam_ctrl_fd cam' \<le> 0 \<and> cam_ds_fd cam' \<le> 0)"
proof -
  have t: "evt_thread_ok (cam_evt_thread cam)" and p: "evt_poll_ok (cam_evt_poll_thread cam)" using assms(1) by (auto simp: cam_inv_def)
  have m: "mem_ok e" using assms(2) by (simp add: env_ok_def)
  have rel: "runs (mm_camera_cmd_thread_release e (map_option (\<lambda>_. mm_camera_dispatch_app_event e) (ct_cb (cam_evt_thread cam))) (cam_evt_thread cam) c w1) (\<lambda>_. True)" for c w1
    by (rule runs_mono [OF release_opt_runs [OF m, where I = "\<lambda>p. fst p = c"]])
      (use t evt_dispatch_runs in \<open>auto simp: evt_thread_ok_def\<close>)
  show ?thesis
    unfolding mm_camera_close_def
    by (auto simp: runs_bind Let_def split_beta close_fds_nonpos intro!: runs_mono [OF evt_sub_runs [OF p]]
        runs_mono [OF poll_release_runs [OF assms(2)]] runs_mono [OF rel])
qed

section \<open>The table of cameras\<close>

definition table_inv :: "mm_camera_ctrl_t \<Rightarrow> bool" where
  "table_inv g \<longleftrightarrow> \<not> g_intf_lock g \<and> length (g_cam_obj g) \<le> 256 \<and> num_cam g \<le> int (length (g_cam_obj g)) \<and>
     (\<forall>i < length (g_cam_obj g). pred_option (cam_entry i) (g_cam_obj g ! i))"

lemma table_upd:
  assumes "table_inv g" and "pred_option (cam_entry i) x"
  shows "table_inv (g\<lparr>g_cam_obj := (g_cam_obj g)[i := x]\<rparr>)"
proof -
  have "pred_option (cam_entry k) ((g_cam_obj g)[i := x] ! k)" if "k < length (g_cam_obj g)" for k
    using assms that by (cases "k = i") (auto simp: table_inv_def)
  then show ?thesis using assms(1) by (simp add: table_inv_def)
qed

lemma camera_lookup:
  assumes "mm_camera_util_get_camera_by_handler h g = Some (i, cam)" and "table_inv g"
  shows "i < length (g_cam_obj g)" and "g_cam_obj g ! i = Some cam" and "cam_entry i cam" and "cam_my_hdl cam = h"
proof -
  show *: "i < length (g_cam_obj g)" "g_cam_obj g ! i = Some cam" "cam_my_hdl cam = h"
    using assms(1) by (auto simp: mm_camera_util_get_camera_by_handler_def Let_def split: if_splits option.splits)
  show "cam_entry i cam" using assms(2) *(1,2) by (auto simp: table_inv_def dest!: spec [of _ i])
qed

text \<open>The handle of an entry of the table finds it.\<close>

lemma lookup_entry:
  assumes "table_inv g" and "i < length (g_cam_obj g)" and "g_cam_obj g ! i = Some cam"
  shows "mm_camera_util_get_camera_by_handler (cam_my_hdl cam) g = Some (i, cam)"
proof -
  have "cam_entry i cam" "i < 256" using assms by (auto simp: table_inv_def dest!: spec [of _ i])
  then have "unat (mm_camera_util_get_index_by_handler (cam_my_hdl cam)) = i" by (simp add: cam_entry_def unat_of_nat)
  then show ?thesis using assms(2,3) by (simp add: mm_camera_util_get_camera_by_handler_def)
qed

lemma entry_op_post: "cam_entry i cam \<Longrightarrow> op_post cam (r, cam', w) \<Longrightarrow> cam_entry i cam'"
  by (simp add: cam_entry_def op_post_def cam_id_def)

text \<open>An operation of the camera gives an operation of the interface.\<close>

lemma intf_call_runs:
  assumes "table_inv g" and "\<And>i cam. mm_camera_util_get_camera_by_handler h g = Some (i, cam) \<Longrightarrow> cam_inv cam \<Longrightarrow> runs (f (cam\<lparr>cam_lock := True\<rparr>) w) (op_post cam)"
  shows "runs (intf_call d f h g w) (\<lambda>(r, g', w'). table_inv g')"
proof (cases "mm_camera_util_get_camera_by_handler h g")
  case None
  then show ?thesis using assms(1) by (simp add: intf_call_def table_inv_def)
next
  case (Some p)
  obtain i cam where p: "p = (i, cam)" by (cases p)
  note c = camera_lookup [OF Some [unfolded p] assms(1)]
  have "runs (f (cam\<lparr>cam_lock := True\<rparr>) w) (op_post cam)" using assms(2) [OF Some [unfolded p]] c(3) by (simp add: cam_entry_def)
  moreover have "\<not> g_intf_lock g" "\<not> cam_lock cam" using assms(1) c(3) by (simp_all add: table_inv_def cam_entry_def)
  ultimately show ?thesis
    using Some p by (auto simp: intf_call_def runs_bind intro!: table_upd [OF assms(1)] entry_op_post [OF c(3)] elim!: runs_mono)
qed

section \<open>References\<close>

text \<open>The contract of opening and closing: the number of references to each camera.\<close>

definition refs :: "mm_camera_ctrl_t \<Rightarrow> int list" where
  "refs g = map (\<lambda>x. case x of None \<Rightarrow> 0 | Some cam \<Rightarrow> cam_ref_count cam) (g_cam_obj g)"

lemma refs_nth: "i < length (g_cam_obj g) \<Longrightarrow> refs g ! i = (case g_cam_obj g ! i of None \<Rightarrow> 0 | Some cam \<Rightarrow> cam_ref_count cam)"
  by (simp add: refs_def)

lemma refs_upd: "refs (g\<lparr>g_cam_obj := (g_cam_obj g)[i := x]\<rparr>) = (refs g)[i := (case x of None \<Rightarrow> 0 | Some cam \<Rightarrow> cam_ref_count cam)]"
  by (simp add: refs_def map_update)

lemma refs_upd_None: "i < length (g_cam_obj g) \<Longrightarrow> g_cam_obj g ! i = None \<Longrightarrow> refs (g\<lparr>g_cam_obj := (g_cam_obj g)[i := None]\<rparr>) = refs g"
  by (metis list_update_id mm_camera_ctrl_t.surjective mm_camera_ctrl_t.update_convs(2))

definition opened :: "nat \<Rightarrow> mm_camera_ctrl_t \<Rightarrow> uint32_t option \<Rightarrow> mm_camera_ctrl_t \<Rightarrow> bool" where
  "opened i g r g' \<longleftrightarrow> table_inv g' \<and>
     (case r of
        None \<Rightarrow> refs g' = refs g
      | Some h \<Rightarrow> refs g' = (refs g)[i := refs g ! i + 1] \<and> (\<exists>cam. mm_camera_util_get_camera_by_handler h g' = Some (i, cam)))"

lemma opened_fresh:
  assumes "table_inv g" and "i < length (g_cam_obj g)" and "cam_entry i cam"
    and "cam_ref_count cam = refs g ! i + 1" and "g' = g\<lparr>g_cam_obj := (g_cam_obj g)[i := Some cam]\<rparr>"
  shows "opened i g (Some (cam_vtbl_handle cam)) g'"
proof -
  have t: "table_inv g'" using table_upd [OF assms(1), of i "Some cam"] assms(3,5) by simp
  have "mm_camera_util_get_camera_by_handler (cam_my_hdl cam) g' = Some (i, cam)" by (rule lookup_entry [OF t]) (use assms in simp_all)
  then show ?thesis using t assms by (simp add: opened_def refs_upd cam_entry_def)
qed

text \<open>A sensor that can be opened has been found, and has the name of its device.\<close>

definition open_ok :: "uint8_t \<Rightarrow> mm_camera_ctrl_t \<Rightarrow> world \<Rightarrow> bool" where
  "open_ok idx g w \<longleftrightarrow> uint idx < num_cam g \<longrightarrow> unat idx < length (g_video_dev_name w)"

lemma unat_less_iff_uint: "unat (x :: uint8_t) < n \<longleftrightarrow> uint x < int n"
  by (metis of_nat_less_iff uint_nat)

lemma camera_open_runs:
  assumes "table_inv g" and "lib_env e" and "open_ok idx g w"
  shows "runs (camera_open e idx g w) (\<lambda>(r, g', w'). opened (unat idx) g r g')"
proof (cases "num_cam g \<le> uint idx")
  case True
  then show ?thesis using assms(1) by (simp add: camera_open_def opened_def)
next
  case False
  let ?i = "unat idx"
  have i: "?i < length (g_cam_obj g)" "?i < length (g_video_dev_name w)" "\<not> g_intf_lock g"
    using False assms(1,3) by (auto simp: table_inv_def open_ok_def unat_less_iff_uint)
  show ?thesis
  proof (cases "g_cam_obj g ! ?i")
    case (Some cam)
    have en: "cam_entry ?i cam" using assms(1) i(1) Some by (auto simp: table_inv_def dest!: spec [of _ ?i])
    have "opened ?i g (Some (cam_vtbl_handle (cam\<lparr>cam_ref_count := cam_ref_count cam + 1\<rparr>))) (g\<lparr>g_cam_obj := (g_cam_obj g)[?i := Some (cam\<lparr>cam_ref_count := cam_ref_count cam + 1\<rparr>)]\<rparr>)"
      by (rule opened_fresh [OF assms(1) i(1)]) (use en Some in \<open>auto simp: cam_entry_def cam_inv_def cam_ref_def refs_nth [OF i(1)]\<close>)
    then show ?thesis using False i Some by (simp add: camera_open_def)
  next
    case None
    define w1 where "w1 = snd (malloc e w)"
    define h where "h = fst (mm_camera_util_generate_handler idx w1)"
    define w2 where "w2 = snd (mm_camera_util_generate_handler idx w1)"
    have h: "h \<noteq> 0" "mm_camera_util_get_index_by_handler h = idx" using hdl.gen_nonzero hdl.idx_gen by (simp_all add: h_def)
    have "g_video_dev_name w2 = g_video_dev_name w" by (simp add: w2_def w1_def malloc_def sys_def mm_camera_util_generate_handler_def Let_def)
    then have nm: "mm_camera_util_get_dev_name h w2 \<noteq> None" using i(2) h(2) by (simp add: mm_camera_util_get_dev_name_def)
    have op: "runs (mm_camera_open e (fresh_camera h) w2) (\<lambda>(rc, cam, w'). if rc = 0 then cam_entry ?i cam \<and> cam_my_hdl cam = h \<and> cam_ref_count cam = 1
        else rc = -1 \<and> cam_ctrl_fd cam \<le> 0 \<and> cam_ds_fd cam \<le> 0)"
      by (rule open_runs [OF assms(2) nm h(1)]) (simp add: h(2))
    have ok: "opened ?i g (Some (cam_vtbl_handle cam)) (g\<lparr>g_cam_obj := (g_cam_obj g)[?i := Some cam]\<rparr>)"
      if "cam_entry ?i cam" "cam_ref_count cam = 1" for cam
      by (rule opened_fresh [OF assms(1) i(1) that(1)]) (use that None in \<open>simp_all add: refs_nth [OF i(1)]\<close>)
    have bad: "opened ?i g None (g\<lparr>g_cam_obj := (g_cam_obj g)[?i := None]\<rparr>)"
      using table_upd [OF assms(1), of ?i None] refs_upd_None [OF i(1) None] by (simp add: opened_def)
    have same: "opened ?i g None g" using assms(1) by (simp add: opened_def)
    have nth: "nth_opt (g_cam_obj g) (uint idx) = Some None" using i(1) None by simp
    have "camera_open e idx g w = (if \<not> fst (malloc e w) then Some (None, g, w1)
       else do {
         (rc, cam, w) \<leftarrow> mm_camera_open e (fresh_camera h) w2;
         if rc \<noteq> 0 then Some (None, g\<lparr>g_cam_obj := (g_cam_obj g)[?i := None]\<rparr>, w)
         else Some (Some (cam_vtbl_handle cam), g\<lparr>g_cam_obj := (g_cam_obj g)[?i := Some cam]\<rparr>, w) })"
      using False i None by (simp add: camera_open_def nth w1_def h_def w2_def Let_def split_beta fresh_camera_def)
    then show ?thesis using same bad ok by (auto simp: runs_bind split: if_splits intro!: runs_mono [OF op])
  qed
qed

text \<open>After the last reference the entry is empty.\<close>

definition closed :: "uint32_t \<Rightarrow> mm_camera_ctrl_t \<Rightarrow> int \<Rightarrow> mm_camera_ctrl_t \<Rightarrow> bool" where
  "closed h g rc g' \<longleftrightarrow> table_inv g' \<and>
     (case mm_camera_util_get_camera_by_handler h g of
        None \<Rightarrow> rc = -1 \<and> g' = g
      | Some (i, cam) \<Rightarrow> rc = 0 \<and> refs g' = (refs g)[i := refs g ! i - 1] \<and>
          (refs g ! i = 1 \<longrightarrow> mm_camera_util_get_camera_by_handler h g' = None))"

lemma lookup_cleared:
  "mm_camera_util_get_camera_by_handler h g = Some (i, cam) \<Longrightarrow> mm_camera_util_get_camera_by_handler h (g\<lparr>g_cam_obj := (g_cam_obj g)[i := None]\<rparr>) = None"
  by (auto simp: mm_camera_util_get_camera_by_handler_def Let_def split: if_splits option.splits)

lemma camera_close_runs:
  assumes "table_inv g" and "lib_env e"
  shows "runs (mm_camera_intf_close e h g w) (\<lambda>(rc, g', w'). closed h g rc g')"
proof (cases "mm_camera_util_get_camera_by_handler h g")
  case None
  then show ?thesis using assms(1) by (simp add: mm_camera_intf_close_def closed_def table_inv_def)
next
  case (Some p)
  obtain i cam where p: "p = (i, cam)" by (cases p)
  note c = camera_lookup [OF Some [unfolded p] assms(1)]
  let ?cam = "cam\<lparr>cam_ref_count := cam_ref_count cam - 1\<rparr>"
  have inv: "cam_inv (?cam\<lparr>cam_lock := True\<rparr>)" "\<not> cam_lock cam" "\<not> g_intf_lock g" "1 \<le> cam_ref_count cam"
    using c(3) assms(1) by (auto simp: cam_entry_def table_inv_def cam_inv_def cam_ref_def)
  have r: "refs g ! i = cam_ref_count cam" using c(1,2) by (simp add: refs_nth)
  have more: "closed h g 0 (g\<lparr>g_cam_obj := (g_cam_obj g)[i := Some ?cam]\<rparr>)" if "0 < cam_ref_count cam - 1"
  proof -
    have "cam_entry i ?cam" using c(3) that by (simp add: cam_entry_def cam_inv_def cam_ref_def)
    then show ?thesis using table_upd [OF assms(1), of i "Some ?cam"] Some p r that by (simp add: closed_def refs_upd)
  qed
  have last: "closed h g 0 (g\<lparr>g_cam_obj := (g_cam_obj g)[i := None]\<rparr>)" if "\<not> 0 < cam_ref_count cam - 1"
    using table_upd [OF assms(1), of i None] Some p r that inv(4) lookup_cleared [OF Some [unfolded p]] by (simp add: closed_def refs_upd)
  have "env_ok e" using assms(2) by (simp add: lib_env_def)
  note cl = close_runs [OF inv(1) this, of w]
  show ?thesis
    using Some p inv(2,3) more last
    by (auto simp: mm_camera_intf_close_def Let_def runs_bind intro!: runs_mono [OF cl])
qed

section \<open>Finding the sensors\<close>

text \<open>The devices with the right model are no more than the table has entries.\<close>

fun sensors :: "string \<Rightarrow> media_device list \<Rightarrow> nat" where
  "sensors model [] = 0"
| "sensors model (d # ds) = (if md_info d = Some model then Suc (sensors model ds) else sensors model ds)"

lemma enum_cameras_runs:
  assumes "unat n + sensors model ds \<le> length names" and "length names \<le> 127"
  shows "runs (enum_cameras model ds n names) (\<lambda>(n', names'). unat n' \<le> length names \<and> length names' = length names)"
  using assms
proof (induction model ds n names rule: enum_cameras.induct)
  case (2 model d ds n names)
  have n: "unat (n + 1) = unat n + 1" if "md_info d = Some model"
    using 2(4,5) that by (subst unat_add_lem [THEN iffD1]) auto
  show ?case
  proof (cases "md_info d")
    case (Some m)
    show ?thesis
    proof (cases "m = model")
      case True
      have "runs (enum_cameras model ds (n + 1) names) (\<lambda>(n', names'). unat n' \<le> length names \<and> length names' = length names)"
        if "enum_entities (md_entities d) = None"
        by (rule 2(2) [OF Some _ that]) (use True 2(4,5) n Some in auto)
      moreover have "runs (enum_cameras model ds (n + 1) (names[unat n := name])) (\<lambda>(n', names'). unat n' \<le> length names \<and> length names' = length names)"
        if "enum_entities (md_entities d) = Some name" for name
        using 2(3) [OF Some _ that] True 2(4,5) n Some by auto
      ultimately show ?thesis using True 2(4) Some by (auto split: option.split)
    qed (use 2 Some in auto)
  qed simp
qed simp

section \<open>Calls of the client\<close>

datatype cam_call =
    Call_query_capability
  | Call_set_parms "nat option"
  | Call_get_parms "nat option"
  | Call_do_auto_focus
  | Call_cancel_auto_focus
  | Call_prepare_snapshot int
  | Call_register_event_notify "nat option" nat
  | Call_map_buf cam_mapping_buf_type int uint32_t
  | Call_unmap_buf cam_mapping_buf_type
  | Call_add_channel "mm_camera_channel_attr_t option" "nat option" nat
  | Call_del_channel uint32_t
  | Call_get_bundle_info uint32_t
  | Call_qbuf uint32_t "mm_camera_buf_def_t option"
  | Call_add_stream uint32_t
  | Call_del_stream uint32_t uint32_t
  | Call_config_stream uint32_t uint32_t "mm_camera_stream_config_t option"
  | Call_start_channel uint32_t
  | Call_stop_channel uint32_t
  | Call_request_super_buf uint32_t uint32_t
  | Call_cancel_super_buf_request uint32_t
  | Call_flush_super_buf_queue uint32_t uint32_t
  | Call_configure_notify_mode uint32_t mm_camera_super_buf_notify_mode_t
  | Call_set_stream_parms uint32_t uint32_t "nat option"
  | Call_get_stream_parms uint32_t uint32_t "nat option"
  | Call_map_stream_buf uint32_t uint32_t cam_mapping_buf_type uint32_t int int uint32_t
  | Call_unmap_stream_buf uint32_t uint32_t cam_mapping_buf_type uint32_t int

abbreviation (input) state_of :: "('a \<times> 's) option \<Rightarrow> 's option" where
  "state_of \<equiv> map_option snd"

fun intf_do :: "env \<Rightarrow> uint32_t \<Rightarrow> cam_call \<Rightarrow> mm_camera_ctrl_t \<Rightarrow> world \<Rightarrow> (mm_camera_ctrl_t \<times> world) option" where
  "intf_do e h Call_query_capability g w = state_of (mm_camera_intf_query_capability e h g w)"
| "intf_do e h (Call_set_parms p) g w = state_of (mm_camera_intf_set_parms e h p g w)"
| "intf_do e h (Call_get_parms p) g w = state_of (mm_camera_intf_get_parms e h p g w)"
| "intf_do e h Call_do_auto_focus g w = state_of (mm_camera_intf_do_auto_focus e h g w)"
| "intf_do e h Call_cancel_auto_focus g w = state_of (mm_camera_intf_cancel_auto_focus e h g w)"
| "intf_do e h (Call_prepare_snapshot f) g w = state_of (mm_camera_intf_prepare_snapshot e h f g w)"
| "intf_do e h (Call_register_event_notify cb u) g w = state_of (mm_camera_intf_register_event_notify h cb u g w)"
| "intf_do e h (Call_map_buf ty fd sz) g w = state_of (mm_camera_intf_map_buf e h ty fd sz g w)"
| "intf_do e h (Call_unmap_buf ty) g w = state_of (mm_camera_intf_unmap_buf e h ty g w)"
| "intf_do e h (Call_add_channel a cb u) g w = state_of (mm_camera_intf_add_channel e h a cb u g w)"
| "intf_do e h (Call_del_channel c) g w = state_of (mm_camera_intf_del_channel e h c g w)"
| "intf_do e h (Call_get_bundle_info c) g w = state_of (mm_camera_intf_get_bundle_info e h c g w)"
| "intf_do e h (Call_qbuf c b) g w = state_of (mm_camera_intf_qbuf e h c b g w)"
| "intf_do e h (Call_add_stream c) g w = state_of (mm_camera_intf_add_stream e h c g w)"
| "intf_do e h (Call_del_stream c s) g w = state_of (mm_camera_intf_del_stream e h c s g w)"
| "intf_do e h (Call_config_stream c s cfg) g w = state_of (mm_camera_intf_config_stream e h c s cfg g w)"
| "intf_do e h (Call_start_channel c) g w = state_of (mm_camera_intf_start_channel e h c g w)"
| "intf_do e h (Call_stop_channel c) g w = state_of (mm_camera_intf_stop_channel e h c g w)"
| "intf_do e h (Call_request_super_buf c n) g w = state_of (mm_camera_intf_request_super_buf e h c n g w)"
| "intf_do e h (Call_cancel_super_buf_request c) g w = state_of (mm_camera_intf_cancel_super_buf_request e h c g w)"
| "intf_do e h (Call_flush_super_buf_queue c n) g w = state_of (mm_camera_intf_flush_super_buf_queue e h c n g w)"
| "intf_do e h (Call_configure_notify_mode c m) g w = state_of (mm_camera_intf_configure_notify_mode e h c m g w)"
| "intf_do e h (Call_set_stream_parms c s p) g w = state_of (mm_camera_intf_set_stream_parms e h c s p g w)"
| "intf_do e h (Call_get_stream_parms c s p) g w = state_of (mm_camera_intf_get_stream_parms e h c s p g w)"
| "intf_do e h (Call_map_stream_buf c s ty i pl fd sz) g w = state_of (mm_camera_intf_map_stream_buf e h c s ty i pl fd sz g w)"
| "intf_do e h (Call_unmap_stream_buf c s ty i pl) g w = state_of (mm_camera_intf_unmap_stream_buf e h c s ty i pl g w)"

text \<open>
  What a call asks of the camera it is made for: the event it sends is one the channel permits
  (\<^const>\<open>chan_evt_ok\<close>), a deleted channel is stopped, a returned buffer is known to the channel.
\<close>

fun cam_call_ok :: "cam_call \<Rightarrow> mm_camera_obj_t \<Rightarrow> world \<Rightarrow> bool" where
  "cam_call_ok (Call_del_channel c) cam w \<longleftrightarrow> del_ok c cam"
| "cam_call_ok (Call_qbuf c b) cam w \<longleftrightarrow> qbuf_ok c b cam"
| "cam_call_ok (Call_get_bundle_info c) cam w \<longleftrightarrow> call_ok MM_CHANNEL_EVT_GET_BUNDLE_INFO c cam w"
| "cam_call_ok (Call_add_stream c) cam w \<longleftrightarrow> call_ok MM_CHANNEL_EVT_ADD_STREAM c cam w"
| "cam_call_ok (Call_del_stream c s) cam w \<longleftrightarrow> call_ok (MM_CHANNEL_EVT_DEL_STREAM s) c cam w"
| "cam_call_ok (Call_config_stream c s cfg) cam w \<longleftrightarrow> call_ok (MM_CHANNEL_EVT_CONFIG_STREAM \<lparr>cs_stream_id = s, cs_config = cfg\<rparr>) c cam w"
| "cam_call_ok (Call_start_channel c) cam w \<longleftrightarrow> call_ok MM_CHANNEL_EVT_START c cam w"
| "cam_call_ok (Call_stop_channel c) cam w \<longleftrightarrow> call_ok MM_CHANNEL_EVT_STOP c cam w"
| "cam_call_ok (Call_request_super_buf c n) cam w \<longleftrightarrow> call_ok (MM_CHANNEL_EVT_REQUEST_SUPER_BUF n) c cam w"
| "cam_call_ok (Call_cancel_super_buf_request c) cam w \<longleftrightarrow> call_ok MM_CHANNEL_EVT_CANCEL_REQUEST_SUPER_BUF c cam w"
| "cam_call_ok (Call_flush_super_buf_queue c n) cam w \<longleftrightarrow> call_ok (MM_CHANNEL_EVT_FLUSH_SUPER_BUF_QUEUE n) c cam w"
| "cam_call_ok (Call_configure_notify_mode c m) cam w \<longleftrightarrow> call_ok (MM_CHANNEL_EVT_CONFIG_NOTIFY_MODE m) c cam w"
| "cam_call_ok (Call_set_stream_parms c s p) cam w \<longleftrightarrow> call_ok (MM_CHANNEL_EVT_SET_STREAM_PARM \<lparr>pl_stream_id = s, pl_parms = p\<rparr>) c cam w"
| "cam_call_ok (Call_get_stream_parms c s p) cam w \<longleftrightarrow> call_ok (MM_CHANNEL_EVT_GET_STREAM_PARM \<lparr>pl_stream_id = s, pl_parms = p\<rparr>) c cam w"
| "cam_call_ok (Call_map_stream_buf c s ty i pl fd sz) cam w \<longleftrightarrow> call_ok (MM_CHANNEL_EVT_MAP_STREAM_BUF
     \<lparr>mb_stream_id = s, mb_buf_type = ty, mb_buf_idx = i, mb_plane_idx = pl, mb_fd = fd, mb_size = sz\<rparr>) c cam w"
| "cam_call_ok (Call_unmap_stream_buf c s ty i pl) cam w \<longleftrightarrow> call_ok (MM_CHANNEL_EVT_UNMAP_STREAM_BUF
     \<lparr>ub_stream_id = s, ub_buf_type = ty, ub_buf_idx = i, ub_plane_idx = pl\<rparr>) c cam w"
| "cam_call_ok _ cam w \<longleftrightarrow> True"

lemma zero_qbuf: "mm_channel_qbuf e (Some b) zero_channel w = Some (-1, zero_channel, w)"
proof -
  have "mm_channel_util_get_stream_by_handler zero_channel h = None" for h
    by (auto simp: mm_channel_util_get_stream_by_handler_def zero_channel_def zero_stream_def find_idx_None_iff)
  then show ?thesis by (simp add: mm_channel_qbuf_def)
qed

lemma qbuf_op:
  assumes "cam_inv cam" and "qbuf_ok c b cam"
  shows "runs (mm_camera_qbuf e c b (cam\<lparr>cam_lock := True\<rparr>) w) (op_post cam)"
proof (cases "mm_camera_util_get_channel_by_handler cam c")
  case None
  then show ?thesis by (simp add: mm_camera_qbuf_def op_post_unlock [OF assms(1)])
next
  case (Some i)
  let ?ch = "cam_ch cam ! i"
  note en = entry_lookup [OF Some assms(1)]
  obtain d where d: "b = Some d" "buf_fits (ch_streams ?ch) d" using assms(2) Some by (auto simp: qbuf_ok_def split: option.splits)
  have q: "runs (mm_channel_qbuf e b ?ch w) (\<lambda>(rc, ch', w'). ch_entry (cam_ref cam) i ch')"
  proof (cases "?ch = zero_channel")
    case True
    then show ?thesis using d en(2) by (simp add: zero_qbuf)
  next
    case False
    then show ?thesis using entry_act_runs [OF en(2), of e "Act_qbuf d" w] d by (simp add: runs_bind case_prod_unfold)
  qed
  have "op_post cam (r, (unlock (cam\<lparr>cam_lock := True\<rparr>))\<lparr>cam_ch := (cam_ch cam)[i := ch]\<rparr>, w')" if "ch_entry (cam_ref cam) i ch" for r ch w'
  proof -
    have "(unlock (cam\<lparr>cam_lock := True\<rparr>))\<lparr>cam_ch := (cam_ch cam)[i := ch]\<rparr> = unlock (cam\<lparr>cam_ch := (cam_ch cam)[i := ch]\<rparr>)" by (simp add: unlock_def)
    then show ?thesis using cam_inv_ch [OF assms(1) that] by (simp add: op_post_def)
  qed
  then show ?thesis using Some by (auto simp: mm_camera_qbuf_def runs_bind intro!: runs_mono [OF q])
qed

lemmas intf_defs =
  mm_camera_intf_query_capability_def mm_camera_intf_set_parms_def mm_camera_intf_get_parms_def
  mm_camera_intf_do_auto_focus_def mm_camera_intf_cancel_auto_focus_def mm_camera_intf_prepare_snapshot_def
  mm_camera_intf_add_channel_def mm_camera_intf_del_channel_def mm_camera_intf_get_bundle_info_def
  mm_camera_intf_register_event_notify_def mm_camera_intf_qbuf_def mm_camera_intf_add_stream_def
  mm_camera_intf_del_stream_def mm_camera_intf_config_stream_def mm_camera_intf_start_channel_def
  mm_camera_intf_stop_channel_def mm_camera_intf_request_super_buf_def mm_camera_intf_cancel_super_buf_request_def
  mm_camera_intf_flush_super_buf_queue_def mm_camera_intf_configure_notify_mode_def mm_camera_intf_map_buf_def
  mm_camera_intf_unmap_buf_def mm_camera_intf_set_stream_parms_def mm_camera_intf_get_stream_parms_def
  mm_camera_intf_map_stream_buf_def mm_camera_intf_unmap_stream_buf_def

lemmas cam_rc_defs =
  mm_camera_del_stream_def mm_camera_config_stream_def mm_camera_start_channel_def mm_camera_stop_channel_def
  mm_camera_request_super_buf_def mm_camera_cancel_super_buf_request_def mm_camera_flush_super_buf_queue_def
  mm_camera_config_channel_notify_def mm_camera_set_stream_parms_def mm_camera_get_stream_parms_def
  mm_camera_do_stream_action_def mm_camera_map_stream_buf_def mm_camera_unmap_stream_buf_def

lemma intf_do_runs:
  assumes "table_inv g" and "lib_env e"
    and "\<And>i cam. mm_camera_util_get_camera_by_handler h g = Some (i, cam) \<Longrightarrow> cam_call_ok call cam w"
  shows "runs (intf_do e h call g w) (\<lambda>(g', w'). table_inv g')"
proof -
  have ev: "env_ok e" using assms(2) by (simp add: lib_env_def)
  have st: "runs (state_of (intf_call d f h g w)) (\<lambda>(g', w'). table_inv g')"
    if "\<And>i cam. cam_inv cam \<Longrightarrow> cam_call_ok call cam w \<Longrightarrow> runs (f (cam\<lparr>cam_lock := True\<rparr>) w) (op_post cam)" for d and f :: "'a camera_op"
    using intf_call_runs [OF assms(1), of h f w d] that assms(3) by (auto simp: runs_iff)
  show ?thesis
    by (cases call) (use plain_ops buf_ops [OF _ ev] register_op add_channel_op [OF _ assms(2)] del_channel_op [OF _ ev] channel_out_ops [OF _ ev]
          channel_rc_runs [OF _ ev] qbuf_op in \<open>auto intro!: st simp: intf_defs cam_rc_defs\<close>)
qed

section \<open>Runs\<close>

text \<open>
  What can happen next: the sensors are counted, a camera is opened or closed, an operation is
  called, a thread of a channel takes a step, an event of the server arrives or is passed on.
\<close>

datatype lib_act =
    Lib_enum string "media_device list"
  | Lib_open uint8_t
  | Lib_close uint32_t
  | Lib_call uint32_t cam_call
  | Lib_thread nat nat chan_act
  | Lib_event nat
  | Lib_event_cb nat

definition on_camera :: "(mm_camera_obj_t \<Rightarrow> world \<Rightarrow> (mm_camera_obj_t \<times> world) option) \<Rightarrow> nat \<Rightarrow> mm_camera_ctrl_t \<times> world \<Rightarrow> (mm_camera_ctrl_t \<times> world) option" where
  "on_camera f i = (\<lambda>(g, w).
     case nth_opt (g_cam_obj g) (int i) of
       Some (Some cam) \<Rightarrow> do { (cam, w) \<leftarrow> f cam w; Some (g\<lparr>g_cam_obj := (g_cam_obj g)[i := Some cam]\<rparr>, w) }
     | _ \<Rightarrow> Some (g, w))"

definition channel_thread :: "env \<Rightarrow> nat \<Rightarrow> chan_act \<Rightarrow> mm_camera_obj_t \<Rightarrow> world \<Rightarrow> (mm_camera_obj_t \<times> world) option" where
  "channel_thread e k act cam w = do {
     ch \<leftarrow> nth_opt (cam_ch cam) (int k);
     (ch, w) \<leftarrow> chan_do e act (ch, w);
     Some (cam\<lparr>cam_ch := (cam_ch cam)[k := ch]\<rparr>, w)
   }"

definition event_thread :: "env \<Rightarrow> mm_camera_obj_t \<Rightarrow> world \<Rightarrow> (mm_camera_obj_t \<times> world) option" where
  "event_thread e cam w = do {
     (t, cam, w) \<leftarrow> thread_step (mm_camera_dispatch_app_event e) (cam_evt_thread cam) (cam, w);
     Some (cam\<lparr>cam_evt_thread := t\<rparr>, w)
   }"

fun lib_do :: "env \<Rightarrow> lib_act \<Rightarrow> mm_camera_ctrl_t \<times> world \<Rightarrow> (mm_camera_ctrl_t \<times> world) option" where
  "lib_do e (Lib_enum model devs) (g, w) = state_of (get_num_of_cameras model devs g w)"
| "lib_do e (Lib_open idx) (g, w) = state_of (camera_open e idx g w)"
| "lib_do e (Lib_close h) (g, w) = state_of (mm_camera_intf_close e h g w)"
| "lib_do e (Lib_call h call) (g, w) = intf_do e h call g w"
| "lib_do e (Lib_thread i k act) (g, w) = on_camera (channel_thread e k act) i (g, w)"
| "lib_do e (Lib_event i) (g, w) = on_camera (mm_camera_event_notify e) i (g, w)"
| "lib_do e (Lib_event_cb i) (g, w) = on_camera (event_thread e) i (g, w)"

fun is_event :: "chan_act \<Rightarrow> bool" where
  "is_event (Act_event _) = True"
| "is_event _ = False"

text \<open>
  What the client and the kernel respect. The sensors fit the table; the last reference to a camera
  is given up when its channels have been deleted, because their threads use its memory; a call is
  one the camera permits; the driver hands out buffers the stream knows.
\<close>

fun lib_ok :: "env \<Rightarrow> lib_act \<Rightarrow> mm_camera_ctrl_t \<times> world \<Rightarrow> bool" where
  "lib_ok e (Lib_enum model devs) (g, w) \<longleftrightarrow> length (g_video_dev_name w) = length (g_cam_obj g) \<and>
     length (g_cam_obj g) \<le> 127 \<and> sensors model devs \<le> length (g_cam_obj g)"
| "lib_ok e (Lib_open idx) (g, w) \<longleftrightarrow> open_ok idx g w"
| "lib_ok e (Lib_close h) (g, w) \<longleftrightarrow>
     (case mm_camera_util_get_camera_by_handler h g of
        None \<Rightarrow> True
      | Some (i, cam) \<Rightarrow> cam_ref_count cam = 1 \<longrightarrow> (\<forall>ch \<in> set (cam_ch cam). ch_state ch = MM_CHANNEL_STATE_NOTUSED))"
| "lib_ok e (Lib_call h call) (g, w) \<longleftrightarrow>
     (case mm_camera_util_get_camera_by_handler h g of None \<Rightarrow> True | Some (i, cam) \<Rightarrow> cam_call_ok call cam w)"
| "lib_ok e (Lib_thread i k act) (g, w) \<longleftrightarrow>
     (case nth_opt (g_cam_obj g) (int i) of
        Some (Some cam) \<Rightarrow> k < MM_CAMERA_CHANNEL_MAX \<and> ch_state (cam_ch cam ! k) \<noteq> MM_CHANNEL_STATE_NOTUSED \<and> act_ok e act (cam_ch cam ! k, w) \<and> \<not> is_event act
      | _ \<Rightarrow> True)"
| "lib_ok e (Lib_event i) (g, w) \<longleftrightarrow> True"
| "lib_ok e (Lib_event_cb i) (g, w) \<longleftrightarrow> True"

inductive lib_run :: "env \<Rightarrow> mm_camera_ctrl_t \<times> world \<Rightarrow> mm_camera_ctrl_t \<times> world \<Rightarrow> bool" for e where
  start: "lib_run e p p"
| step: "lib_run e p q \<Longrightarrow> lib_ok e act q \<Longrightarrow> lib_do e act q = Some r \<Longrightarrow> lib_run e p r"

lemma on_camera_runs:
  assumes "table_inv g" and "\<And>cam. i < length (g_cam_obj g) \<Longrightarrow> g_cam_obj g ! i = Some cam \<Longrightarrow> cam_entry i cam \<Longrightarrow> runs (f cam w) (\<lambda>(cam', w'). cam_entry i cam')"
  shows "runs (on_camera f i (g, w)) (\<lambda>(g', w'). table_inv g')"
proof (cases "i < length (g_cam_obj g) \<and> g_cam_obj g ! i \<noteq> None")
  case True
  then obtain cam where c: "i < length (g_cam_obj g)" "g_cam_obj g ! i = Some cam" by blast
  have "cam_entry i cam" using assms(1) c by (auto simp: table_inv_def dest!: spec [of _ i])
  from assms(2) [OF c this] show ?thesis
    using c by (auto simp: on_camera_def runs_bind intro!: table_upd [OF assms(1)] elim!: runs_mono)
next
  case False
  then show ?thesis using assms(1) by (auto simp: on_camera_def split: option.split)
qed

lemma channel_thread_runs:
  assumes "cam_entry i cam" and "k < MM_CAMERA_CHANNEL_MAX" and "ch_state (cam_ch cam ! k) \<noteq> MM_CHANNEL_STATE_NOTUSED"
    and "act_ok e act (cam_ch cam ! k, w)" and "\<not> is_event act"
  shows "runs (channel_thread e k act cam w) (\<lambda>(cam', w'). cam_entry i cam')"
proof -
  have inv: "cam_inv cam" using assms(1) by (simp add: cam_entry_def)
  then have en: "ch_entry (cam_ref cam) k (cam_ch cam ! k)" "k < length (cam_ch cam)" using assms(2) by (auto simp: cam_inv_def)
  have post: "cam_entry i (cam\<lparr>cam_ch := (cam_ch cam)[k := ch]\<rparr>)" if "ch_entry (cam_ref cam) k ch" for ch
    using cam_inv_ch [OF inv that] assms(1) by (simp add: cam_entry_def)
  have "runs (chan_do e act (cam_ch cam ! k, w)) (\<lambda>(ch', w'). ch_entry (cam_ref cam) k ch')"
    by (rule entry_act_runs [OF en(1) _ assms(4)]) (use assms(3,5) unused_entry [OF en(1)] in auto)
  then show ?thesis using en(2) by (auto simp: channel_thread_def runs_bind intro: post elim!: runs_mono)
qed

lemma entry_thread: "cam_entry i cam \<Longrightarrow> evt_thread_ok t \<Longrightarrow> cam_entry i (cam\<lparr>cam_evt_thread := t\<rparr>)"
  by (simp add: cam_entry_def cam_inv_def cam_ref_def)

lemma event_thread_runs:
  assumes "cam_entry i cam"
  shows "runs (event_thread e cam w) (\<lambda>(cam', w'). cam_entry i cam')"
proof -
  let ?t = "cam_evt_thread cam"
  have t: "evt_thread_ok ?t" using assms by (simp add: cam_entry_def cam_inv_def)
  show ?thesis
  proof (cases "ct_cmd_queue ?t")
    case Nil
    then show ?thesis using entry_thread [OF assms t] by (simp add: event_thread_def thread_step_def)
  next
    case (Cons c cs)
    then obtain ev where c: "c = MM_CAMERA_CMD_TYPE_EVT_CB ev" "ct_running ?t" using t by (auto simp: evt_thread_ok_def)
    have "evt_thread_ok (?t\<lparr>ct_cmd_queue := cs, ct_running := True\<rparr>)" using t Cons by (simp add: evt_thread_ok_def)
    then show ?thesis
      using Cons c entry_thread [OF assms] by (simp add: event_thread_def thread_step_def mm_camera_dispatch_app_event_def)
  qed
qed

lemma event_notify_runs:
  assumes "cam_entry i cam"
  shows "runs (mm_camera_event_notify e cam w) (\<lambda>(cam', w'). cam_entry i cam')"
proof -
  have "evt_thread_ok (cam_evt_thread cam)" using assms by (simp add: cam_entry_def cam_inv_def)
  then have q: "runs (mm_camera_enqueue_evt e ev cam w1) (\<lambda>(rc, cam', w'). cam_entry i cam')" for ev w1
    using assms by (auto simp: mm_camera_enqueue_evt_def cmd_thread_post_def evt_thread_ok_def runs_bind Let_def split_beta intro!: entry_thread)
  have "cam_entry i (cam\<lparr>cam_evt_rcvd := v\<rparr>)" for v using assms by (simp add: cam_entry_def)
  then show ?thesis
    using assms by (auto simp: mm_camera_event_notify_def runs_bind Let_def split_beta split: v4l2_event_cmd.split intro!: runs_mono [OF q])
qed

lemma sint_le_uint: "sint (x :: uint8_t) \<le> uint x"
  by (simp add: sint_uint signed_take_bit_int_less_eq_self_iff) (rule order_trans [OF _ uint_ge_0], simp)

lemma enum_act_runs:
  assumes "table_inv g" and "lib_ok e (Lib_enum model devs) (g, w)"
  shows "runs (lib_do e (Lib_enum model devs) (g, w)) (\<lambda>(g', w'). table_inv g')"
proof -
  have "runs (enum_cameras model devs 0 (g_video_dev_name w)) (\<lambda>(n', names'). unat n' \<le> length (g_video_dev_name w) \<and> length names' = length (g_video_dev_name w))"
    by (rule enum_cameras_runs) (use assms(2) in auto)
  then obtain n names where n: "enum_cameras model devs 0 (g_video_dev_name w) = Some (n, names)" "unat n \<le> length (g_cam_obj g)"
    using assms(2) by (auto simp: runs_iff)
  have "uint n \<le> int (length (g_cam_obj g))" using n(2) by (metis of_nat_le_iff uint_nat)
  then have "sint n \<le> int (length (g_cam_obj g))" using sint_le_uint [of n] by simp
  then show ?thesis using assms(1) n by (simp add: get_num_of_cameras_def table_inv_def)
qed

lemma lib_act_runs:
  assumes "table_inv g" and "lib_env e" and "lib_ok e act (g, w)"
  shows "runs (lib_do e act (g, w)) (\<lambda>(g', w'). table_inv g')"
proof (cases act)
  case (Lib_enum model devs)
  then show ?thesis using enum_act_runs [OF assms(1)] assms(3) by simp
next
  case (Lib_open idx)
  then show ?thesis using camera_open_runs [OF assms(1,2)] assms(3) by (fastforce simp: runs_iff opened_def)
next
  case (Lib_close h)
  then show ?thesis using camera_close_runs [OF assms(1,2), of h w] by (fastforce simp: runs_iff closed_def)
next
  case (Lib_call h call)
  then show ?thesis using intf_do_runs [OF assms(1,2), of h call w] assms(3) by fastforce
next
  case (Lib_thread i k act)
  then show ?thesis using assms(3) by (auto intro!: on_camera_runs [OF assms(1)] channel_thread_runs)
qed (use event_notify_runs event_thread_runs in \<open>auto intro!: on_camera_runs [OF assms(1)]\<close>)

lemma lib_run_inv:
  assumes "lib_run e p q" and "table_inv (fst p)" and "lib_env e"
  shows "table_inv (fst q)"
  using assms
proof (induction rule: lib_run.induct)
  case (step p q act r)
  then show ?case using lib_act_runs [of "fst q" e act "snd q"] by (auto simp: runs_iff)
qed

text \<open>The table at the start, with room for \<open>n\<close> cameras.\<close>

definition empty_table :: "nat \<Rightarrow> mm_camera_ctrl_t" where
  "empty_table n = \<lparr>num_cam = 0, g_cam_obj = replicate n None, g_intf_lock = False\<rparr>"

lemma empty_table_inv: "n \<le> 256 \<Longrightarrow> table_inv (empty_table n)"
  by (simp add: table_inv_def empty_table_def)

section \<open>Running the model\<close>

text \<open>A list of actions, each of which is checked before it is taken.\<close>

fun lib_steps :: "env \<Rightarrow> lib_act list \<Rightarrow> mm_camera_ctrl_t \<times> world \<Rightarrow> (mm_camera_ctrl_t \<times> world) option" where
  "lib_steps e [] p = Some p"
| "lib_steps e (act # acts) p = (if lib_ok e act p then Option.bind (lib_do e act p) (lib_steps e acts) else None)"

lemma lib_steps_run:
  assumes "lib_run e p q" and "lib_steps e acts q = Some r"
  shows "lib_run e p r"
  using assms
  by (induction acts arbitrary: q) (auto split: if_splits option.splits simp: bind_eq_Some_conv intro: lib_run.step)

lemma ex_Some_case: "(\<exists>c. x = Some c \<and> P c) \<longleftrightarrow> (case x of None \<Rightarrow> False | Some c \<Rightarrow> P c)"
  by (cases x) auto

lemmas ok_code [code] = buf_fits_def [unfolded ex_Some_case] chan_live_def [unfolded ex_Some_case] config_ok_def [unfolded ex_Some_case] evt_allowed.simps [unfolded ex_Some_case]

lemma dq_ok_code [code]:
  "dq_ok e s w \<longleftrightarrow> (case s_buf_status s of None \<Rightarrow> False
     | Some st \<Rightarrow> \<exists>i \<in> set [0..<length st]. in_kernel (st ! i) \<and> vb_index (e_dqbuf e (w_trace w)) = of_nat i)"
  by (cases "s_buf_status s") (auto simp: dq_ok_def)

lemma planes_ok_code [code]:
  "planes_ok si \<longleftrightarrow> fo_num_planes (si_buf_planes si) \<le> VIDEO_MAX_PLANES \<and>
     (case si_reprocess_config si of CAM_OFFLINE_REPROCESS_TYPE p \<Rightarrow> fo_num_planes p \<le> VIDEO_MAX_PLANES | _ \<Rightarrow> True)"
  by (auto simp: planes_ok_def split: cam_stream_reproc_config_t.split)

end
