(* ===== verification/Spec2Isabelle.thy ===== *)
theory Spec2Isabelle
  imports Cam_Queue Library
begin

text \<open>
  Verification of the camera library of the Amazon HDX common device tree,
  \<^verbatim>\<open>camera/QCamera2/stack/mm-camera-interface\<close>, with the shared headers of
  \<^verbatim>\<open>camera/QCamera2/stack/common\<close>.

  \<^bold>\<open>The program.\<close> A client (the camera HAL) counts the sensors and opens cameras. A camera owns
  channels, a channel owns up to four streams, a stream owns frame buffers. Frames arrive from the
  video driver in the poll thread of the channel, which queues them to the command thread of the
  stream (for the callback of the stream) and to the command thread of the channel, which puts frames
  with the same number together into superbuffers and passes them to the callback thread. The client
  returns buffers, and the last reference gives a buffer back to the driver. Events of the camera
  server arrive in a poll thread of the camera and are passed on by its event thread.

  \<^bold>\<open>Conventions.\<close> Every C function is one definition with the name of the function; parts of long
  functions and loops are definitions of their own next to it. Fixed-width integers are words; return codes are
  integers. The value \<^const>\<open>None\<close> of a step is a fault (a null dereference, an access out of bounds) or
  a wait that never ends. The kernel, the server, the allocator and the callbacks of the client are an
  environment: a call is answered by a function of the trace of all earlier calls, so that every
  sequence of answers is possible, and is added to the trace. What theorems ask of the environment is a
  named predicate: \<^const>\<open>mem_ok\<close> (allocation succeeds), \<^const>\<open>env_ok\<close> (also that the buffers
  the client allocates are as many as it says, that the server answers a mapping request, and that the pipe of a poll thread
  can be written), \<^const>\<open>lib_env\<close> (also that a pipe can be created). \<^term>\<open>runs m Q\<close> says that
  \<open>m\<close> is a result, not \<^const>\<open>None\<close>, and satisfies \<open>Q\<close>. The locks of the table, the cameras and
  the channels are flags, and taking a lock that is held gives \<^const>\<open>None\<close>. Other mutexes are the atomicity of a
  step: one call of the client, one frame, one command of one thread.

  \<^bold>\<open>Theories.\<close>
  \<^item> \<open>Prelude\<close>: generic facts about options, lists and words, the predicate \<^const>\<open>runs\<close>.
  \<^item> \<open>Cam_Types\<close>, \<open>Mm_Types\<close>: the types of \<^verbatim>\<open>cam_types.h\<close>, \<^verbatim>\<open>cam_intf.h\<close>, \<^verbatim>\<open>mm_camera_interface.h\<close>
    and \<^verbatim>\<open>mm_camera.h\<close>; the environment.
  \<^item> \<open>Cam_Queue\<close>: \<^verbatim>\<open>cam_list.h\<close> and \<^verbatim>\<open>cam_queue.h\<close> on a heap of linked nodes; the queue refines a list, a
    flush ends and frees each node once.
  \<^item> \<open>Handles\<close>: the handle generator of \<^verbatim>\<open>mm_camera_interface.c\<close>; handles are not zero, carry their
    index, and are distinct for 65535 calls. The tables of objects rely on the locale of that theory.
  \<^item> \<open>Threads\<close>: \<^verbatim>\<open>mm_camera_thread.c\<close>; the table of polled descriptors follows additions and deletions, a
    released command thread has handled every command in order.
  \<^item> \<open>Frame_Layout\<close>: the layout routines of \<^verbatim>\<open>mm_camera_stream.c\<close> at 32 bits; planes fit the frame without
    wrap-around for dimensions up to 8192.
  \<^item> \<open>Stream\<close>: the rest of \<^verbatim>\<open>mm_camera_stream.c\<close>. \<open>Stream_Fsm\<close>: the states follow the documented
    automaton. \<open>Stream_Wf\<close>: every event returns and keeps a stream well-formed. \<open>Stream_Ownership\<close>: a buffer is with
    the driver or with the library, never both. \<open>Stream_Exact\<close>: reference counts are exact.
  \<^item> \<open>Superbuf\<close>: matching, overflow, flush and delivery in \<^verbatim>\<open>mm_camera_channel.c\<close>. \<open>Superbuf_Inv\<close>,
    \<open>Superbuf_Match\<close>, \<open>Superbuf_Spec\<close>, \<open>Superbuf_Notify\<close>, \<open>Superbuf_Correct\<close>: the invariant of the queue, the abstract matching
    rule it implements, conservation of buffers, ends of the loops.
  \<^item> \<open>Channel\<close>: the state machine of the channel, start with rollback, stop. \<open>Channel_Inv\<close>,
    \<open>Channel_Start\<close>, \<open>Channel_Run\<close>, \<open>Channel_Threads\<close>, \<open>Channel_Events\<close>, \<open>Channel_Safe\<close>, \<open>Channel_Correct\<close>: the invariant of a channel under
    its events and its threads.
  \<^item> \<open>Camera\<close>: \<^verbatim>\<open>mm_camera.c\<close>; \<open>Interface\<close>: \<^verbatim>\<open>mm_camera_interface.c\<close>; \<open>Camera_Inv\<close> and \<open>Library\<close>: the invariants
    of a camera and of the table of cameras, and the runs of the whole library.
  \<^item> This theory: the properties of the whole library, and a session that the model runs from counting the
    sensors to the delivery of a superbuffer.

  \<^bold>\<open>Runs and permissions.\<close> A run of the library (\<^const>\<open>lib_run\<close>) is a sequence of actions in any order,
  each permitted in the state it is taken in (\<^const>\<open>lib_ok\<close>). Permissions state what the code relies on and
  does not check: a stream is configured before its channel is started or asked for its bundle
  (\<^verbatim>\<open>stream_info\<close> is dereferenced), superbuffers are requested from a channel that has a callback, a channel is stopped
  before it is deleted and deleted before the last reference to its camera is closed, buffers that are returned or
  dequeued have an index of the stream, and the sensors fit the table. Theorems about violations
  show what happens otherwise: a bundled channel that is restarted, a start that fails, frame number 0, a thread whose
  EXIT command is lost.

  \<^bold>\<open>Loops.\<close> No fuel is used. Loops over tables are structural recursion; the loops that drain a queue are
  partial functions whose termination is part of the theorems that say they return; the retries when
  a device is opened are bounded by the constant of the source.

  \<^bold>\<open>Not modelled.\<close> The pauses between retries, log output, the number of the camera in the name of the
  socket, time stamps other than copied ones, the system calls made while sensors are counted (the media devices are a
  parameter), and the contents of frames, parameters and capabilities. The macros of the Venus
  header of the kernel are parameters. An event of a channel is one step: a thread does not run between the
  steps of a START or a STOP. The other parts of the tree (the HAL, the JPEG library, the first generation of the
  stack, Bluetooth, backported kernel drivers) are outside of this library.
\<close>

section \<open>A session\<close>

text \<open>
  One sensor, a channel with a preview and a metadata stream, up to the delivery of a superbuffer.
\<close>

definition sample_devices :: "media_device list" where
  "sample_devices = [\<lparr>md_info = Some ''msm_config'', md_entities = []\<rparr>,
     \<lparr>md_info = Some ''msm_camera'', md_entities = [\<lparr>me_is_vnode = False, me_name = ''sensor''\<rparr>, \<lparr>me_is_vnode = True, me_name = ''video1''\<rparr>]\<rparr>]"

definition named_world :: world where
  "named_world = calm_world\<lparr>g_video_dev_name := [[], []]\<rparr>"

definition sample_config :: "cam_stream_type_t \<Rightarrow> mm_camera_stream_config_t" where
  "sample_config ty = \<lparr>cfg_stream_info = Some (sample_stream_info\<lparr>si_stream_type := ty\<rparr>),
     cfg_padding_info = \<lparr>width_padding = 16, height_padding = 16, plane_padding = 4096\<rparr>,
     cfg_mem_vtbl = \<lparr>vt_user_data = 0, vt_get_bufs = Some 1, vt_put_bufs = Some 2, vt_invalidate_buf = None, vt_clean_invalidate_buf = None\<rparr>,
     cfg_stream_cb = Some 3, cfg_userdata = 0\<rparr>"

definition sample_session :: "lib_act list" where
  "sample_session = [Lib_enum ''msm_camera'' sample_devices, Lib_open 0,
     Lib_call 0x100 (Call_add_channel (Some \<lparr>at_notify_mode = MM_CAMERA_SUPER_BUF_NOTIFY_CONTINUOUS, water_mark = 2, look_back = 0,
        post_frame_skip = 0, max_unmatched_frames = 2, at_priority = MM_CAMERA_SUPER_BUF_PRIORITY_NORMAL\<rparr>) (Some 5) 0), Lib_call 0x100 (Call_add_stream 0x200),
     Lib_call 0x100 (Call_config_stream 0x200 0x300 (Some (sample_config CAM_STREAM_TYPE_PREVIEW))),
     Lib_call 0x100 (Call_add_stream 0x200),
     Lib_call 0x100 (Call_config_stream 0x200 0x401 (Some (sample_config CAM_STREAM_TYPE_METADATA))),
     Lib_call 0x100 (Call_start_channel 0x200),
     Lib_thread 0 0 (Act_frame 0), Lib_thread 0 0 (Act_frame 1), Lib_thread 0 0 (Act_stream 0), Lib_thread 0 0 (Act_stream 1),
     Lib_thread 0 0 Act_cmd, Lib_thread 0 0 Act_cmd, Lib_thread 0 0 Act_cb]"

lemma calm_lib: "lib_env (calm_env 2)"
  using calm_ok by (simp add: lib_env_def) (simp add: calm_env_def calm_rc_def)

lemma session_runs: "lib_steps (calm_env 2) sample_session (empty_table 2, named_world) \<noteq> None"
  by code_simp

section \<open>The library\<close>

text \<open>
  C1. From the empty table of cameras, in every interleaving of the calls of the interface (counting
  the sensors, opening, closing, the operations on cameras, channels, streams and buffers), of the
  events of the server, of arriving frames and of the steps of the event, stream, channel and callback
  threads, every permitted action returns: no call faults, loops for ever, or waits for a lock that is
  never released. It leaves the lock of the table and the locks of all cameras and channels free,
  and every camera in the table with a valid handle for its index, a positive reference count and
  channels that satisfy their invariant.
\<close>

theorem library_interleaving_safe:
  assumes "lib_env e" and "n \<le> 256" and "lib_run e (empty_table n, w0) (g, w)" and "lib_ok e act (g, w)"
  shows "\<exists>g' w'. lib_do e act (g, w) = Some (g', w') \<and> table_inv g'"
proof -
  have "table_inv g" using lib_run_inv [OF assms(3) _ assms(1)] empty_table_inv [OF assms(2)] by simp
  from lib_act_runs [OF this assms(1,4)] show ?thesis by (auto simp: runs_iff)
qed

theorem library_interleaving_safe_witness:
  "\<exists>g w g' w'. lib_steps (calm_env 2) sample_session (empty_table 2, named_world) = Some (g, w) \<and>
     lib_do (calm_env 2) (Lib_call 0x100 (Call_stop_channel 0x200)) (g, w) = Some (g', w') \<and> table_inv g'"
proof -
  obtain g w where gw: "lib_steps (calm_env 2) sample_session (empty_table 2, named_world) = Some (g, w)" using session_runs by auto
  have ev: "evt_allowed st MM_CHANNEL_EVT_STOP ch w" for st ch by (cases st) simp_all
  have ok: "lib_ok (calm_env 2) (Lib_call 0x100 (Call_stop_channel 0x200)) (g, w)"
    by (auto simp: call_ok_def chan_evt_ok_def ev split: option.split)
  show ?thesis
    using gw library_interleaving_safe [OF calm_lib _ lib_steps_run [OF lib_run.start gw] ok] by auto
qed

text \<open>
  C14. Opening and closing implement a count of references per sensor. Opening a sensor returns a
  handle that finds its camera and adds one to its count, or returns nothing and leaves every count as
  it was. Closing takes one from the count of the camera with the handle, and after the last
  reference the handle finds no camera; a handle that finds no camera is refused with -1 and changes
  nothing. Both return.
\<close>

theorem camera_references_refine:
  assumes "table_inv g" and "lib_env e" and "open_ok idx g w"
  shows "runs (camera_open e idx g w) (\<lambda>(r, g', w'). opened (unat idx) g r g') \<and>
    runs (mm_camera_intf_close e h g w) (\<lambda>(rc, g', w'). closed h g rc g')"
  using camera_open_runs [OF assms] camera_close_runs [OF assms(1,2)] by simp

theorem camera_references_refine_witness:
  "\<exists>h g' w'. camera_open (calm_env 2) 0 ((empty_table 2)\<lparr>num_cam := 1\<rparr>) named_world = Some (Some h, g', w') \<and> refs g' = [1, 0]"
proof -
  let ?g = "(empty_table 2)\<lparr>num_cam := 1\<rparr>"
  have inv: "table_inv ?g" by (simp add: table_inv_def empty_table_def)
  have ok: "open_ok 0 ?g named_world" by (simp add: open_ok_def named_world_def)
  have "map_option (\<lambda>r. fst r = None) (camera_open (calm_env 2) 0 ?g named_world) = Some False" by code_simp
  then obtain h g' w' where r: "camera_open (calm_env 2) 0 ?g named_world = Some (Some h, g', w')" by auto
  have "refs ?g = [0, 0]" by (simp add: refs_def empty_table_def numeral_2_eq_2)
  then have "refs g' = [1, 0]" using camera_references_refine [OF inv calm_lib ok] r by (simp add: opened_def)
  then show ?thesis using r by blast
qed

end
